(* ===== verification/Prelude.thy ===== *)
theory Prelude
  imports Main "HOL-Library.Word"
begin

text \<open>
  Shared vocabulary of the development: the machine integers of the program, object memory as a
  list of bytes, the C++ exceptions, the two monads (pure code that may throw, and code that may
  throw while it acts on the outside world), and the generic lemmas the components use.

  The program runs on a little-endian Linux host (it reads multi-byte header fields through
  \<open>reinterpret_cast\<close> and swaps them with \<open>htons\<close>/\<open>htonl\<close>), so a multi-byte object in memory
  is its bytes with the least significant one first.
\<close>

unbundle bit_operations_syntax

section \<open>Machine integers and memory\<close>

type_synonym u4 = "4 word"
type_synonym u8 = "8 word"
type_synonym u16 = "16 word"
type_synonym u32 = "32 word"
type_synonym u64 = "64 word"
type_synonym byte = "8 word"

text \<open>
  A \<open>const char *\<close> is the list of the bytes that can be read through it, up to the end of the
  object it points into; \<open>p + n\<close> is \<open>drop n p\<close>.
\<close>

type_synonym mem = "byte list"

named_theorems bytes_simps \<open>layout, size and access of objects in memory\<close>
named_theorems io_simps \<open>unfolding of the exception and input/output monads\<close>

section \<open>Exceptions and the two monads\<close>

text \<open>
  The exceptions the program throws, by their standard class and message. \<open>Fault\<close> is not an
  exception of the program: it is the outcome of an access outside an object, which the C++ code
  does not detect. The safety lemmas show where it cannot happen.
\<close>

datatype exn =
    Runtime_error string
  | Invalid_argument string
  | Out_of_range string
  | Fault

text \<open>Pure code that may throw is a sum; \<open>bindS\<close> is sequencing.\<close>

definition bindS :: "exn + 'a \<Rightarrow> ('a \<Rightarrow> exn + 'b) \<Rightarrow> exn + 'b" where
  "bindS m k = (case m of Inl e \<Rightarrow> Inl e | Inr x \<Rightarrow> k x)"

lemma bindS_simps [simp]:
  "bindS (Inl e) k = Inl e"
  "bindS (Inr x) k = k x"
  by (simp_all add: bindS_def)

lemma bindS_eq_Inr: "bindS m k = Inr y \<longleftrightarrow> (\<exists>x. m = Inr x \<and> k x = Inr y)"
  by (cases m) auto

lemma bindS_eq_Inl: "bindS m k = Inl e \<longleftrightarrow> m = Inl e \<or> (\<exists>x. m = Inr x \<and> k x = Inl e)"
  by (cases m) auto

text \<open>Code with effects takes the state \<open>'w\<close> of the outside world and returns the next one.\<close>

type_synonym ('w, 'a) io = "'w \<Rightarrow> (exn + 'a) \<times> 'w"

definition returnE :: "'a \<Rightarrow> ('w, 'a) io" where
  "returnE x = (\<lambda>w. (Inr x, w))"

definition throwE :: "exn \<Rightarrow> ('w, 'a) io" where
  "throwE e = (\<lambda>w. (Inl e, w))"

definition bindE :: "('w, 'a) io \<Rightarrow> ('a \<Rightarrow> ('w, 'b) io) \<Rightarrow> ('w, 'b) io" where
  "bindE m k = (\<lambda>w. case m w of (Inl e, w') \<Rightarrow> (Inl e, w') | (Inr x, w') \<Rightarrow> k x w')"

text \<open>A call that returns a value and cannot throw, and a pure computation that may throw.\<close>

definition callE :: "('w \<Rightarrow> 'a \<times> 'w) \<Rightarrow> ('w, 'a) io" where
  "callE f = (\<lambda>w. (Inr (fst (f w)), snd (f w)))"

definition pureE :: "exn + 'a \<Rightarrow> ('w, 'a) io" where
  "pureE m = (\<lambda>w. (m, w))"

lemma io_run [io_simps]:
  "returnE x w = (Inr x, w)"
  "throwE e w = (Inl e, w)"
  "callE f w = (Inr (fst (f w)), snd (f w))"
  "pureE m w = (m, w)"
  by (simp_all add: returnE_def throwE_def callE_def pureE_def)

lemma bindE_run [io_simps]:
  "bindE m k w = (case m w of (Inl e, w') \<Rightarrow> (Inl e, w') | (Inr x, w') \<Rightarrow> k x w')"
  by (simp add: bindE_def)

lemma bindE_Inr:
  "bindE m k w = (Inr y, w2) \<longleftrightarrow> (\<exists>x w1. m w = (Inr x, w1) \<and> k x w1 = (Inr y, w2))"
  by (auto simp: bindE_run split: prod.splits sum.splits)

lemma callE_Inr: "callE f w = (Inr x, w') \<longleftrightarrow> f w = (x, w')"
  by (auto simp: callE_def prod_eq_iff)

lemma bindE_Inl:
  "bindE m k w = (Inl e, w2) \<longleftrightarrow>
     m w = (Inl e, w2) \<or> (\<exists>x w1. m w = (Inr x, w1) \<and> k x w1 = (Inl e, w2))"
  by (auto simp: bindE_run split: prod.splits sum.splits)

text \<open>
  Code with a loop that may run forever: \<open>None\<close> is not returning. \<open>bindL\<close> is sequencing, \<open>liftL\<close>
  embeds code that returns.
\<close>

type_synonym ('w, 'a) loop = "'w \<Rightarrow> ((exn + 'a) \<times> 'w) option"

definition bindL :: "('w, 'a) loop \<Rightarrow> ('a \<Rightarrow> ('w, 'b) loop) \<Rightarrow> ('w, 'b) loop" where
  "bindL m k = (\<lambda>w. case m w of
       None \<Rightarrow> None
     | Some (Inl e, w') \<Rightarrow> Some (Inl e, w')
     | Some (Inr x, w') \<Rightarrow> k x w')"

definition liftL :: "('w, 'a) io \<Rightarrow> ('w, 'a) loop" where
  "liftL m = (\<lambda>w. Some (m w))"

lemma liftL_run [io_simps]: "liftL m w = Some (m w)"
  by (simp add: liftL_def)

lemma bindL_Inr:
  "bindL m k w = Some (Inr y, w2) \<longleftrightarrow>
     (\<exists>x w1. m w = Some (Inr x, w1) \<and> k x w1 = Some (Inr y, w2))"
  by (auto simp: bindL_def split: option.splits prod.splits sum.splits)

lemma bindL_Inl:
  "bindL m k w = Some (Inl e, w2) \<longleftrightarrow>
     m w = Some (Inl e, w2) \<or> (\<exists>x w1. m w = Some (Inr x, w1) \<and> k x w1 = Some (Inl e, w2))"
  by (auto simp: bindL_def split: option.splits prod.splits sum.splits)

lemma bindL_None:
  "bindL m k w = None \<longleftrightarrow> m w = None \<or> (\<exists>x w1. m w = Some (Inr x, w1) \<and> k x w1 = None)"
  by (auto simp: bindL_def split: option.splits prod.splits sum.splits)

lemma bindL_step:
  "m w = Some (Inr x, w1) \<Longrightarrow> bindL m k w = k x w1"
  "m w = Some (Inl e, w1) \<Longrightarrow> bindL m k w = Some (Inl e, w1)"
  by (simp_all add: bindL_def)

section \<open>Reading and writing multi-byte objects\<close>

definition le16 :: "u16 \<Rightarrow> byte list" where
  "le16 w = [ucast w, ucast (drop_bit 8 w)]"

definition le32 :: "u32 \<Rightarrow> byte list" where
  "le32 w = [ucast w, ucast (drop_bit 8 w), ucast (drop_bit 16 w), ucast (drop_bit 24 w)]"

definition rd16 :: "byte \<Rightarrow> byte \<Rightarrow> u16" where
  "rd16 b0 b1 = ucast b0 OR push_bit 8 (ucast b1)"

definition rd32 :: "byte \<Rightarrow> byte \<Rightarrow> byte \<Rightarrow> byte \<Rightarrow> u32" where
  "rd32 b0 b1 b2 b3 =
     ucast b0 OR push_bit 8 (ucast b1) OR push_bit 16 (ucast b2) OR push_bit 24 (ucast b3)"

definition load8 :: "mem \<Rightarrow> nat \<Rightarrow> exn + byte" where
  "load8 p i = (if i < length p then Inr (p ! i) else Inl Fault)"

definition load16 :: "mem \<Rightarrow> nat \<Rightarrow> exn + u16" where
  "load16 p i =
     (if i + 1 < length p then Inr (rd16 (p ! i) (p ! (i + 1))) else Inl Fault)"

definition load32 :: "mem \<Rightarrow> nat \<Rightarrow> exn + u32" where
  "load32 p i =
     (if i + 3 < length p
      then Inr (rd32 (p ! i) (p ! (i + 1)) (p ! (i + 2)) (p ! (i + 3))) else Inl Fault)"

lemma length_le [bytes_simps, simp]: "length (le16 w) = 2" "length (le32 v) = 4"
  by (simp_all add: le16_def le32_def)

lemma rd16_le16: "rd16 (ucast w) (ucast (drop_bit 8 w)) = w"
  by (rule bit_word_eqI) (auto simp: rd16_def bit_simps)

lemma rd32_le32:
  "rd32 (ucast w) (ucast (drop_bit 8 w)) (ucast (drop_bit 16 w)) (ucast (drop_bit 24 w)) = w"
proof (rule bit_word_eqI)
  fix n
  assume "n < LENGTH(32)"
  then consider "n < 8" | "8 \<le> n \<and> n < 16" | "16 \<le> n \<and> n < 24" | "24 \<le> n \<and> n < 32"
    by force
  then show "bit (rd32 (ucast w) (ucast (drop_bit 8 w)) (ucast (drop_bit 16 w))
      (ucast (drop_bit 24 w))) n = bit w n"
    by cases (auto simp: rd32_def bit_simps)
qed

lemma bit_byte_beyond [simp]: "\<not> bit (a :: byte) (8 + n)" "\<not> bit (a :: byte) (16 + n)"
  "\<not> bit (a :: byte) (24 + n)"
  by (auto dest: bit_imp_le_length)

lemma le16_rd16: "le16 (rd16 a b) = [a, b]"
  by (auto simp: le16_def rd16_def bit_simps intro!: bit_word_eqI)

lemma le32_rd32: "le32 (rd32 a b c d) = [a, b, c, d]"
  by (auto simp: le32_def rd32_def bit_simps intro!: bit_word_eqI)

lemma rd_le [bytes_simps]:
  "rd16 (le16 v ! 0) (le16 v ! Suc 0) = v"
  "rd32 (le32 w ! 0) (le32 w ! Suc 0) (le32 w ! 2) (le32 w ! 3) = w"
  by (simp_all add: le16_def le32_def rd16_le16 rd32_le32)

lemma le16_inject [simp]: "le16 v = le16 w \<longleftrightarrow> v = w"
  by (metis rd_le(1))

lemma le32_inject [simp]: "le32 v = le32 w \<longleftrightarrow> v = w"
  by (metis rd_le(2))

text \<open>Access behind a pointer offset, and access to the front part of an object.\<close>

lemma load_drop [bytes_simps]:
  "load8 (drop n p) i = load8 p (n + i)"
  "load16 (drop n p) i = load16 p (n + i)"
  "load32 (drop n p) i = load32 p (n + i)"
  by (auto simp: load8_def load16_def load32_def add.assoc)

lemma load_append [bytes_simps]:
  "i < length p \<Longrightarrow> load8 (p @ q) i = load8 p i"
  "i + 1 < length p \<Longrightarrow> load16 (p @ q) i = load16 p i"
  "i + 3 < length p \<Longrightarrow> load32 (p @ q) i = load32 p i"
  by (auto simp: load8_def load16_def load32_def nth_append)

lemma load_append2 [bytes_simps]:
  "load8 (p @ q) (length p + i) = load8 q i"
  "load16 (p @ q) (length p + i) = load16 q i"
  "load32 (p @ q) (length p + i) = load32 q i"
  using load_drop [of "length p" "p @ q" i] by simp_all

lemma load_eq_Inl [bytes_simps]:
  "load8 p i = Inl e \<longleftrightarrow> e = Fault \<and> length p \<le> i"
  "load16 p i = Inl e \<longleftrightarrow> e = Fault \<and> length p \<le> i + 1"
  "load32 p i = Inl e \<longleftrightarrow> e = Fault \<and> length p \<le> i + 3"
  by (auto simp: load8_def load16_def load32_def)

text \<open>The numeric value of converted, shifted and combined words.\<close>

lemma unat_ucast_up:
  "LENGTH('a) \<le> LENGTH('b) \<Longrightarrow> unat (ucast (w :: 'a::len word) :: 'b::len word) = unat w"
  using less_le_trans [OF unsigned_less [of w, where 'a = nat], of "2 ^ LENGTH('b)"]
  by (simp add: unsigned_ucast_eq take_bit_nat_eq_self_iff)

lemma unat_ucast_mod: "unat (ucast w :: 'b::len word) = unat w mod 2 ^ LENGTH('b)"
  by (simp only: unsigned_ucast_eq take_bit_eq_mod)

lemma unat_drop_bit_div: "unat (drop_bit n w) = unat w div 2 ^ n"
  by (simp only: unat_drop_bit_eq drop_bit_eq_div [of n "unat w"])

lemma unat_u16_le: "unat (x :: u16) \<le> 65535"
  using unsigned_less [of x, where 'a = nat] by simp

lemma unat_rd16: "unat (rd16 a b) = unat a + 256 * unat b"
proof -
  have "rd16 a b = word_cat b a"
    by (rule bit_word_eqI) (auto simp: rd16_def bit_simps dest: bit_imp_le_length)
  also have "\<dots> = push_bit 8 (ucast b) + ucast a" by (simp add: word_cat_eq)
  also have "unat \<dots> = unat a + 256 * unat b"
    using unsigned_less [of a, where 'a = nat] unsigned_less [of b, where 'a = nat]
    by (simp add: push_bit_eq_mult unat_word_ariths unat_ucast_up)
  finally show ?thesis .
qed

lemma unat_succ_less: "(x :: 'a::len word) < y \<Longrightarrow> unat (x + 1) = Suc (unat x)"
proof -
  assume "x < y"
  then have "x \<noteq> - 1" using word_order.extremum_strict by blast
  then show ?thesis by (metis (no_types) Suc_eq_plus1 add.commute add_eq_0_iff2 unatSuc)
qed

lemma unat_next:
  assumes "(hi :: 'a::len word) \<noteq> - 1" "x \<le> hi"
  shows "unat (x + 1) = Suc (unat x)"
proof -
  from assms have "x \<noteq> - 1" by (metis word_order.extremum_unique)
  then show ?thesis by (metis (no_types) Suc_eq_plus1 add.commute add_eq_0_iff2 unatSuc)
qed

section \<open>Network byte order\<close>

text \<open>On a little-endian host these library functions reverse the bytes of their argument.\<close>

definition htons :: "u16 \<Rightarrow> u16" where
  "htons w = rd16 (ucast (drop_bit 8 w)) (ucast w)"

definition htonl :: "u32 \<Rightarrow> u32" where
  "htonl w = rd32 (ucast (drop_bit 24 w)) (ucast (drop_bit 16 w)) (ucast (drop_bit 8 w)) (ucast w)"

definition ntohl :: "u32 \<Rightarrow> u32" where
  "ntohl w = htonl w"

lemma le16_htons: "le16 (htons w) = rev (le16 w)"
  by (simp add: htons_def le16_rd16) (simp add: le16_def)

lemma le32_htonl: "le32 (htonl w) = rev (le32 w)"
  by (simp add: htonl_def le32_rd32) (simp add: le32_def)

lemma htons_htons [simp]: "htons (htons w) = w"
  using le16_htons [of w] le16_htons [of "htons w"] by (metis le16_inject rev_rev_ident)

lemma htons_inject [simp]: "htons v = htons w \<longleftrightarrow> v = w"
  by (metis htons_htons)

lemma htonl_htonl [simp]: "htonl (htonl w) = w"
  using le32_htonl [of w] le32_htonl [of "htonl w"] by (metis le32_inject rev_rev_ident)

lemma ntohl_htonl [simp]: "ntohl (htonl w) = w"
  by (simp add: ntohl_def)

lemma htonl_inject [simp]: "htonl v = htonl w \<longleftrightarrow> v = w"
  by (metis htonl_htonl)

section \<open>Conversions between integer types\<close>

text \<open>
  An \<open>int\<close> or a 64-bit count stored in a narrower signed type keeps its low bits
  (\<open>to_int\<close>: conversion to the 32-bit \<open>int\<close>); an \<open>unsigned\<close> passed as \<open>int\<close> is \<open>sint\<close>.
  \<open>tdiv\<close> is the division of \<open>std::chrono::duration_cast\<close>, which truncates towards zero.
\<close>

definition to_int :: "int \<Rightarrow> int" where
  "to_int x = signed_take_bit 31 x"

definition tdiv :: "int \<Rightarrow> int \<Rightarrow> int" where
  "tdiv a b = (if a < 0 then - ((- a) div b) else a div b)"

lemma tdiv_nonneg [simp]: "0 \<le> a \<Longrightarrow> tdiv a b = a div b"
  by (simp add: tdiv_def)

lemma tdiv_mono: "0 < b \<Longrightarrow> x \<le> y \<Longrightarrow> tdiv x b \<le> tdiv y b"
  by (auto simp: tdiv_def intro: zdiv_mono1 order_trans [of _ 0]
      simp: pos_imp_zdiv_nonneg_iff)

lemma to_int_id: "- (2 ^ 31) \<le> x \<Longrightarrow> x < 2 ^ 31 \<Longrightarrow> to_int x = x"
  by (simp add: to_int_def signed_take_bit_int_eq_self)

section \<open>Decimal text\<close>

definition digit :: "nat \<Rightarrow> char" where
  "digit d = char_of (48 + d)"

fun dec :: "nat \<Rightarrow> string" where
  "dec n = (if n < 10 then [digit n] else dec (n div 10) @ [digit (n mod 10)])"

declare dec.simps [simp del]

text \<open>\<open>std::to_string\<close> of an integer.\<close>

definition to_string :: "int \<Rightarrow> string" where
  "to_string i = (if i < 0 then ''-'' @ dec (nat (- i)) else dec (nat i))"

fun undec :: "nat \<Rightarrow> string \<Rightarrow> nat" where
  "undec acc [] = acc"
| "undec acc (c # cs) = undec (10 * acc + (of_char c - 48)) cs"

lemma of_char_digit [simp]: "d < 10 \<Longrightarrow> (of_char (digit d) :: nat) = 48 + d"
  by (simp add: digit_def)

lemma digit_inject: "a < 10 \<Longrightarrow> b < 10 \<Longrightarrow> digit a = digit b \<longleftrightarrow> a = b"
  by (metis add_left_cancel of_char_digit)

lemma undec_append: "undec acc (xs @ ys) = undec (undec acc xs) ys"
  by (induction xs arbitrary: acc) auto

lemma undec_dec: "undec 0 (dec n) = n"
proof (induction n rule: dec.induct)
  case (1 n)
  show ?case
  proof (cases "n < 10")
    case True
    then show ?thesis by (subst dec.simps) simp
  next
    case False
    with 1 have "undec 0 (dec (n div 10)) = n div 10" by simp
    with False show ?thesis by (subst dec.simps) (simp add: undec_append)
  qed
qed

lemma dec_inject [simp]: "dec m = dec n \<longleftrightarrow> m = n"
  by (metis undec_dec)

lemma dec_chars: "c \<in> set (dec n) \<Longrightarrow> \<exists>d < 10. c = digit d"
proof (induction n rule: dec.induct)
  case (1 n)
  show ?case
  proof (cases "n < 10")
    case True
    with 1(2) show ?thesis by (subst (asm) dec.simps) auto
  next
    case False
    with 1(2) have "c \<in> set (dec (n div 10)) \<or> c = digit (n mod 10)"
      by (subst (asm) dec.simps) auto
    with False 1(1) show ?thesis by (auto intro: exI [of _ "n mod 10"])
  qed
qed

lemma dec_nonempty: "dec n \<noteq> []"
  by (subst dec.simps) simp

end
