(* ===== verification/SockAddr.thy ===== *)
theory SockAddr
  imports Prelude
begin

text \<open>
  \<open>src/SocketAddress.cpp\<close>: an address is a \<open>sockaddr_storage\<close> that the code reads as
  \<open>sockaddr_in\<close> or as \<open>sockaddr_in6\<close>, whichever its family says. The two structs overlay the same
  storage, so the record below names the storage by position: the four bytes at offset 4 are
  \<open>sin_addr.s_addr\<close> of the first and \<open>sin6_flowinfo\<close> of the second, the sixteen at offset 8 are
  \<open>sin6_addr\<close> (the tail of the storage in an IPv4 address, which nothing sets), those at offset 24
  \<open>sin6_scope_id\<close>. The constructor from text leaves every position it does not assign as it was:
  that indeterminate content is an argument of the model.
\<close>

section \<open>Storage and its two readings\<close>

record sockaddr_storage =
  ss_family :: u16
  ss_port :: u16
  ss_word4 :: u32
  ss_word8 :: u32
  ss_word12 :: u32
  ss_word16 :: u32
  ss_word20 :: u32
  ss_word24 :: u32

text \<open>The only member of the class is its storage \<open>mAddress\<close>.\<close>

type_synonym SocketAddress = sockaddr_storage

abbreviation (input) AF_INET :: int where "AF_INET \<equiv> 2"
abbreviation (input) AF_INET6 :: int where "AF_INET6 \<equiv> 10"

definition s_addr :: "SocketAddress \<Rightarrow> u32" where
  "s_addr a = ss_word4 a"

definition u6_addr32 :: "SocketAddress \<Rightarrow> u32 list" where
  "u6_addr32 a = [ss_word8 a, ss_word12 a, ss_word16 a, ss_word20 a]"

definition family :: "SocketAddress \<Rightarrow> int" where
  "family a = uint (ss_family a)"

definition isV4 :: "SocketAddress \<Rightarrow> bool" where
  "isV4 a \<longleftrightarrow> family a = AF_INET"

definition isV6 :: "SocketAddress \<Rightarrow> bool" where
  "isV6 a \<longleftrightarrow> \<not> isV4 a"

text \<open>The constructor from a storage, and the pointer the C library gets.\<close>

definition SocketAddress_of_storage :: "sockaddr_storage \<Rightarrow> SocketAddress" where
  [simp]: "SocketAddress_of_storage address = address"

definition sockaddrP :: "SocketAddress \<Rightarrow> sockaddr_storage" where
  [simp]: "sockaddrP a = a"

text \<open>\<open>size()\<close>: the size of the struct the family stands for, 16 or 28 bytes.\<close>

definition addr_size :: "SocketAddress \<Rightarrow> nat" where
  "addr_size a = (if isV4 a then 16 else 28)"

section \<open>Comparison\<close>

text \<open>The loop over the four 32-bit parts of an IPv6 address, which stops at a difference.\<close>

fun v6_parts_equal :: "u32 list \<Rightarrow> u32 list \<Rightarrow> bool" where
  "v6_parts_equal (tempA # as) (tempB # bs) =
     (if tempA \<noteq> tempB then False else v6_parts_equal as bs)"
| "v6_parts_equal _ _ = True"

text \<open>Which reading is compared depends on the left operand alone.\<close>

definition addr_eq :: "SocketAddress \<Rightarrow> SocketAddress \<Rightarrow> bool" where
  "addr_eq lhs rhs =
     (if isV4 lhs then s_addr lhs = s_addr rhs
      else v6_parts_equal (u6_addr32 lhs) (u6_addr32 rhs))"

definition addr_neq :: "SocketAddress \<Rightarrow> SocketAddress \<Rightarrow> bool" where
  "addr_neq lhs rhs = (\<not> addr_eq lhs rhs)"

section \<open>Text\<close>

text \<open>
  Name resolution is the C library's: \<open>getaddrinfo\<close> with \<open>AI_NUMERICHOST\<close> (its result code and
  the family of the first answer), \<open>inet_pton\<close> (its result code and the 32-bit parts of the
  \<open>in_addr\<close> or \<open>in6_addr\<close> it stores, one field per family argument) and \<open>inet_ntop\<close>.
\<close>

record resolver =
  getaddrinfo :: "string \<Rightarrow> int \<times> int"
  inet_pton4 :: "string \<Rightarrow> int \<times> u32"
  inet_pton6 :: "string \<Rightarrow> int \<times> (u32 \<times> u32 \<times> u32 \<times> u32)"
  inet_ntop :: "int \<Rightarrow> u32 list \<Rightarrow> string"

definition SocketAddress_of_string ::
    "resolver \<Rightarrow> sockaddr_storage \<Rightarrow> string \<Rightarrow> exn + SocketAddress" where
  "SocketAddress_of_string R uninit address =
     (let (ret, ai_family) = getaddrinfo R address in
      if ret \<noteq> 0 \<or> (ai_family \<noteq> AF_INET \<and> ai_family \<noteq> AF_INET6)
      then Inl (Invalid_argument (''Invalid address: '' @ address))
      else if ai_family = AF_INET
      then (let (ok, temp) = inet_pton4 R address in
            if ok \<noteq> 1
            then Inl (Runtime_error ''Error occurred while converting ipv4 adress.'')
            else Inr (uninit\<lparr>ss_family := 2, ss_word4 := temp, ss_port := 0\<rparr>))
      else (let (ok, t0, t1, t2, t3) = inet_pton6 R address in
            if ok \<noteq> 1
            then Inl (Runtime_error ''Error occurred while converting ipv6 adress.'')
            else Inr (uninit\<lparr>ss_family := 10, ss_word8 := t0, ss_word12 := t1,
                   ss_word16 := t2, ss_word20 := t3, ss_port := 0\<rparr>)))"

definition addr_toString :: "resolver \<Rightarrow> SocketAddress \<Rightarrow> string" where
  "addr_toString R a =
     (if isV4 a then inet_ntop R AF_INET [s_addr a] else inet_ntop R AF_INET6 (u6_addr32 a))"

section \<open>Lemmas\<close>

lemma v6_parts_equal_iff: "length as = length bs \<Longrightarrow> v6_parts_equal as bs \<longleftrightarrow> as = bs"
  by (induction as bs rule: v6_parts_equal.induct) auto

lemma addr_eq_v4: "isV4 a \<Longrightarrow> addr_eq a b \<longleftrightarrow> s_addr a = s_addr b"
  by (simp add: addr_eq_def)

lemma addr_eq_v6: "isV6 a \<Longrightarrow> addr_eq a b \<longleftrightarrow> u6_addr32 a = u6_addr32 b"
  by (simp add: addr_eq_def isV6_def v6_parts_equal_iff u6_addr32_def)

lemma addr_eq_refl [simp]: "addr_eq a a"
  by (cases "isV4 a") (simp_all add: addr_eq_v4 addr_eq_v6 isV6_def)

text \<open>Within one family the comparison is an equivalence.\<close>

lemma addr_eq_sym: "isV4 a = isV4 b \<Longrightarrow> addr_eq a b \<longleftrightarrow> addr_eq b a"
  by (cases "isV4 a") (auto simp: addr_eq_v4 addr_eq_v6 isV6_def)

lemma addr_eq_trans:
  "isV4 a = isV4 b \<Longrightarrow> addr_eq a b \<Longrightarrow> addr_eq b c \<Longrightarrow> addr_eq a c"
  by (cases "isV4 a") (auto simp: addr_eq_v4 addr_eq_v6 isV6_def)

text \<open>
  What the code relies on about the resolver: the numeric text that \<open>inet_ntop\<close> writes for an
  address resolves to the family it was written for, and \<open>inet_pton\<close> reads the address back.
\<close>

definition resolver_ok :: "resolver \<Rightarrow> bool" where
  "resolver_ok R \<longleftrightarrow>
     (\<forall>x. getaddrinfo R (inet_ntop R AF_INET [x]) = (0, AF_INET)
        \<and> inet_pton4 R (inet_ntop R AF_INET [x]) = (1, x))
   \<and> (\<forall>a b c d. getaddrinfo R (inet_ntop R AF_INET6 [a, b, c, d]) = (0, AF_INET6)
        \<and> inet_pton6 R (inet_ntop R AF_INET6 [a, b, c, d]) = (1, (a, b, c, d)))"

lemma addr_toString_parse:
  assumes "resolver_ok R"
  shows "\<exists>b. SocketAddress_of_string R uninit (addr_toString R a) = Inr b
           \<and> isV4 b = isV4 a \<and> addr_eq b a \<and> addr_eq a b \<and> ss_port b = 0"
proof (cases "isV4 a")
  case True
  with assms show ?thesis
    by (auto simp: resolver_ok_def addr_toString_def SocketAddress_of_string_def isV4_def
        family_def addr_eq_def s_addr_def)
next
  case False
  then have "addr_toString R a = inet_ntop R AF_INET6 (u6_addr32 a)"
    by (simp add: addr_toString_def)
  with False assms show ?thesis
    by (auto simp: resolver_ok_def SocketAddress_of_string_def isV4_def family_def
        addr_eq_def u6_addr32_def Let_def)
qed

text \<open>
  An IPv4 and an IPv6 address, each constructed from its text: the first comparison reads the flow label
  of the second address, the other one the tail of the first.
\<close>

lemma mixed_comparison:
  assumes "resolver_ok R" "isV4 a" "\<not> isV4 b"
  shows "\<exists>u v x y. SocketAddress_of_string R u (addr_toString R a) = Inr x
    \<and> SocketAddress_of_string R v (addr_toString R b) = Inr y
    \<and> addr_eq x y = equal \<and> addr_eq y x = equal_back"
proof -
  let ?u = "b\<lparr>ss_word8 := (if equal_back then ss_word8 b else ss_word8 b + 1)\<rparr>"
  let ?v = "b\<lparr>ss_word4 := (if equal then s_addr a else s_addr a + 1)\<rparr>"
  let ?x = "?u\<lparr>ss_family := 2, ss_word4 := s_addr a, ss_port := 0\<rparr>"
  let ?y = "?v\<lparr>ss_family := 10, ss_port := 0\<rparr>"
  have "SocketAddress_of_string R ?u (addr_toString R a) = Inr ?x"
    using assms by (simp add: resolver_ok_def addr_toString_def SocketAddress_of_string_def)
  moreover have "SocketAddress_of_string R ?v (addr_toString R b) = Inr ?y"
    using assms by (simp add: resolver_ok_def addr_toString_def SocketAddress_of_string_def u6_addr32_def)
  moreover have "addr_eq ?x ?y = equal"
    by (simp add: addr_eq_def isV4_def family_def s_addr_def)
  moreover have "addr_eq ?y ?x = equal_back"
    by (simp add: addr_eq_def isV4_def family_def u6_addr32_def)
  ultimately show ?thesis by blast
qed

lemma SocketAddress_of_string_family:
  "SocketAddress_of_string R u s = Inr a \<Longrightarrow>
     family a = AF_INET \<and> isV4 a \<or> family a = AF_INET6 \<and> isV6 a"
  by (auto simp: SocketAddress_of_string_def family_def isV4_def isV6_def Let_def
      split: prod.splits if_splits)

text \<open>The constructor sets neither the flow label nor the scope of an IPv6 address.\<close>

lemma SocketAddress_of_string_scope:
  "SocketAddress_of_string R u s = Inr a \<Longrightarrow> isV6 a \<Longrightarrow>
     ss_word24 a = ss_word24 u \<and> ss_word4 a = ss_word4 u"
  by (auto simp: SocketAddress_of_string_def family_def isV4_def isV6_def Let_def
      split: prod.splits if_splits)

end
