(* ===== verification/Host.thy ===== *)
theory Host
  imports SockAddr
begin

text \<open>
  The program's environment: the C and POSIX library calls it makes. None of it is code of the
  repository, so it is a parameter of the model: a record of functions on the state \<open>'w\<close> of the
  outside world (kernel, network, clock, random generator). A call returns its result and the next
  world. \<open>sys_errno\<close> is the value of \<open>errno\<close> in a world, \<open>sys_uninit16\<close> and
  \<open>sys_uninit32\<close> the indeterminate contents of an object that was never written.

  \<open>sys_recvfrom\<close> returns the number of bytes (negative on an error), the bytes the kernel wrote at
  the start of the buffer, and the sender. \<open>sys_poll\<close> returns its result and the \<open>revents\<close> of every
  entry. The clock is read in nanoseconds, the period of \<open>steady_clock\<close>.
\<close>

record pollfd =
  pfd_fd :: int
  pfd_events :: u16
  pfd_revents :: u16

record 'w os =
  sys_rand :: "'w \<Rightarrow> nat \<times> 'w"
  sys_uninit16 :: "'w \<Rightarrow> u16 \<times> 'w"
  sys_uninit32 :: "'w \<Rightarrow> u32 \<times> 'w"
  sys_now :: "'w \<Rightarrow> int \<times> 'w"
  sys_errno :: "'w \<Rightarrow> int"
  sys_strerror :: "int \<Rightarrow> string"
  sys_resolver :: resolver
  sys_socket :: "int \<Rightarrow> int \<Rightarrow> int \<Rightarrow> 'w \<Rightarrow> int \<times> 'w"
  sys_setsockopt :: "int \<Rightarrow> int \<Rightarrow> int \<Rightarrow> byte list \<Rightarrow> 'w \<Rightarrow> int \<times> 'w"
  sys_bind :: "int \<Rightarrow> sockaddr_storage \<Rightarrow> nat \<Rightarrow> 'w \<Rightarrow> int \<times> 'w"
  sys_connect :: "int \<Rightarrow> sockaddr_storage \<Rightarrow> nat \<Rightarrow> 'w \<Rightarrow> int \<times> 'w"
  sys_getsockname :: "int \<Rightarrow> u32 \<Rightarrow> 'w \<Rightarrow> (int \<times> sockaddr_storage) \<times> 'w"
  sys_close :: "int \<Rightarrow> 'w \<Rightarrow> int \<times> 'w"
  sys_poll :: "pollfd list \<Rightarrow> int \<Rightarrow> 'w \<Rightarrow> (int \<times> u16 list) \<times> 'w"
  sys_sendto :: "int \<Rightarrow> byte list \<Rightarrow> sockaddr_storage \<Rightarrow> nat \<Rightarrow> 'w \<Rightarrow> int \<times> 'w"
  sys_recvfrom :: "int \<Rightarrow> nat \<Rightarrow> 'w \<Rightarrow> (int \<times> byte list \<times> sockaddr_storage) \<times> 'w"

text \<open>\<open>std::string(strerror(errno))\<close>\<close>

definition errno_string :: "'w os \<Rightarrow> 'w \<Rightarrow> string" where
  "errno_string os w = sys_strerror os (sys_errno os w)"

text \<open>A system call whose negative result makes the code throw.\<close>

definition failE :: "('w \<Rightarrow> string) \<Rightarrow> ('w, 'a) io" where
  "failE msg = (\<lambda>w. (Inl (Runtime_error (msg w)), w))"

lemma failE_run [io_simps]: "failE msg w = (Inl (Runtime_error (msg w)), w)"
  by (simp add: failE_def)

end
