(* ===== verification/Headers.thy ===== *)
theory Headers
  imports Prelude
begin

text \<open>
  The wire formats of \<open>include/Traceroute/HeaderTypes.hpp\<close> as records, their layout in memory
  (\<open>serialize\<close> of \<open>src/utils/Serialize.hpp\<close>), and the reads the validators make through
  \<open>reinterpret_cast\<close>. Multi-byte fields hold the value the program stores in them, which the code
  has already put in network byte order with \<open>htons\<close>/\<open>htonl\<close>. Bit-fields are allocated from the
  least significant bit, as the compilers for this host do. None of the structs has padding.

  The locale \<open>pod\<close> is the contract of the \<open>serialize\<close> template: an object of a trivially copyable
  type is a fixed number of bytes that determine its value. It is interpreted for every header.
\<close>

section \<open>The header structs\<close>

record icmp_header =
  icmp_type :: u8
  icmp_code :: u8
  icmp_checksum :: u16
  icmp_id :: u16
  icmp_sequence :: u16

record tcp_header =
  tcp_source :: u16
  tcp_dest :: u16
  tcp_seq :: u32
  tcp_ack_seq :: u32
  th_x2 :: u4
  th_off :: u4
  th_flags :: u8
  tcp_window :: u16
  tcp_check :: u16
  tcp_urg_ptr :: u16

record udp_header =
  udp_source :: u16
  udp_dest :: u16
  udp_len :: u16
  udp_check :: u16

record ipv4_header =
  ip4_ihl :: u4
  ip4_version :: u4
  ip4_tos :: u8
  ip4_tot_len :: u16
  ip4_id :: u16
  ip4_frag_off :: u16
  ip4_ttl :: u8
  ip4_protocol :: u8
  ip4_check :: u16
  ip4_saddr :: u32
  ip4_daddr :: u32

definition sizeof_IcmpHeader :: nat where "sizeof_IcmpHeader = 8"
definition sizeof_TcpHeader :: nat where "sizeof_TcpHeader = 20"
definition sizeof_UdpHeader :: nat where "sizeof_UdpHeader = 8"
definition sizeof_Ipv4Header :: nat where "sizeof_Ipv4Header = 20"
definition sizeof_Ipv6Header :: nat where "sizeof_Ipv6Header = 40"

lemmas sizeofs = sizeof_IcmpHeader_def sizeof_TcpHeader_def sizeof_UdpHeader_def
  sizeof_Ipv4Header_def sizeof_Ipv6Header_def

section \<open>Bit-fields that share a byte\<close>

definition nibbles :: "u4 \<Rightarrow> u4 \<Rightarrow> byte" where
  "nibbles lo hi = ucast lo OR push_bit 4 (ucast hi)"

definition low_nibble :: "byte \<Rightarrow> u4" where
  "low_nibble b = ucast b"

definition high_nibble :: "byte \<Rightarrow> u4" where
  "high_nibble b = ucast (drop_bit 4 b)"

lemma bit_u4_beyond [simp]: "\<not> bit (a :: u4) (4 + n)"
  by (auto dest: bit_imp_le_length)

lemma nibbles_parts [simp]:
  "low_nibble (nibbles lo hi) = lo" "high_nibble (nibbles lo hi) = hi"
  by (auto simp: low_nibble_def high_nibble_def nibbles_def bit_simps
      intro!: bit_word_eqI dest: bit_imp_le_length)

lemma unat_low_nibble: "unat (low_nibble b) < 16"
  using unsigned_less [of "low_nibble b", where 'a = nat] by simp

section \<open>Serialization\<close>

definition serialize_icmp :: "icmp_header \<Rightarrow> byte list" where
  "serialize_icmp h =
     [icmp_type h, icmp_code h] @ le16 (icmp_checksum h) @ le16 (icmp_id h)
       @ le16 (icmp_sequence h)"

definition serialize_tcp :: "tcp_header \<Rightarrow> byte list" where
  "serialize_tcp h =
     le16 (tcp_source h) @ le16 (tcp_dest h) @ le32 (tcp_seq h) @ le32 (tcp_ack_seq h)
       @ [nibbles (th_x2 h) (th_off h), th_flags h] @ le16 (tcp_window h) @ le16 (tcp_check h)
       @ le16 (tcp_urg_ptr h)"

definition serialize_udp :: "udp_header \<Rightarrow> byte list" where
  "serialize_udp h =
     le16 (udp_source h) @ le16 (udp_dest h) @ le16 (udp_len h) @ le16 (udp_check h)"

definition serialize_ipv4 :: "ipv4_header \<Rightarrow> byte list" where
  "serialize_ipv4 h =
     [nibbles (ip4_ihl h) (ip4_version h), ip4_tos h] @ le16 (ip4_tot_len h) @ le16 (ip4_id h)
       @ le16 (ip4_frag_off h) @ [ip4_ttl h, ip4_protocol h] @ le16 (ip4_check h)
       @ le32 (ip4_saddr h) @ le32 (ip4_daddr h)"

lemma length_serialize [bytes_simps, simp]:
  "length (serialize_icmp i) = sizeof_IcmpHeader"
  "length (serialize_tcp t) = sizeof_TcpHeader"
  "length (serialize_udp u) = sizeof_UdpHeader"
  "length (serialize_ipv4 v) = sizeof_Ipv4Header"
  by (simp_all add: serialize_icmp_def serialize_tcp_def serialize_udp_def serialize_ipv4_def
      sizeofs)

section \<open>Reading a header through a pointer\<close>

text \<open>The fields the validators read, at their offset in the struct.\<close>

definition icmp_type_at :: "mem \<Rightarrow> exn + u8" where
  "icmp_type_at p = load8 p 0"

definition icmp_id_at :: "mem \<Rightarrow> exn + u16" where
  "icmp_id_at p = load16 p 4"

definition tcp_seq_at :: "mem \<Rightarrow> exn + u32" where
  "tcp_seq_at p = load32 p 4"

definition tcp_ack_seq_at :: "mem \<Rightarrow> exn + u32" where
  "tcp_ack_seq_at p = load32 p 8"

definition ip_version_at :: "mem \<Rightarrow> exn + u4" where
  "ip_version_at p = bindS (load8 p 0) (\<lambda>b. Inr (high_nibble b))"

definition ip4_ihl_at :: "mem \<Rightarrow> exn + u4" where
  "ip4_ihl_at p = bindS (load8 p 0) (\<lambda>b. Inr (low_nibble b))"

lemmas header_reads = icmp_type_at_def icmp_id_at_def tcp_seq_at_def tcp_ack_seq_at_def
  ip_version_at_def ip4_ihl_at_def

text \<open>A whole struct read back: what \<open>reinterpret_cast\<close> shows at the start of the bytes \<open>p\<close>.\<close>

definition parse_icmp :: "mem \<Rightarrow> exn + icmp_header" where
  "parse_icmp p =
     bindS (load8 p 0) (\<lambda>ty. bindS (load8 p 1) (\<lambda>co. bindS (load16 p 2) (\<lambda>ch.
     bindS (load16 p 4) (\<lambda>i. bindS (load16 p 6) (\<lambda>sq.
       Inr \<lparr>icmp_type = ty, icmp_code = co, icmp_checksum = ch, icmp_id = i,
         icmp_sequence = sq\<rparr>)))))"

definition parse_tcp :: "mem \<Rightarrow> exn + tcp_header" where
  "parse_tcp p =
     bindS (load16 p 0) (\<lambda>s. bindS (load16 p 2) (\<lambda>d. bindS (load32 p 4) (\<lambda>sq.
     bindS (load32 p 8) (\<lambda>ak. bindS (load8 p 12) (\<lambda>o1. bindS (load8 p 13) (\<lambda>fl.
     bindS (load16 p 14) (\<lambda>wi. bindS (load16 p 16) (\<lambda>ch. bindS (load16 p 18) (\<lambda>ur.
       Inr \<lparr>tcp_source = s, tcp_dest = d, tcp_seq = sq, tcp_ack_seq = ak,
         th_x2 = low_nibble o1, th_off = high_nibble o1, th_flags = fl, tcp_window = wi,
         tcp_check = ch, tcp_urg_ptr = ur\<rparr>)))))))))"

definition parse_udp :: "mem \<Rightarrow> exn + udp_header" where
  "parse_udp p =
     bindS (load16 p 0) (\<lambda>s. bindS (load16 p 2) (\<lambda>d. bindS (load16 p 4) (\<lambda>l.
     bindS (load16 p 6) (\<lambda>ch.
       Inr \<lparr>udp_source = s, udp_dest = d, udp_len = l, udp_check = ch\<rparr>))))"

definition parse_ipv4 :: "mem \<Rightarrow> exn + ipv4_header" where
  "parse_ipv4 p =
     bindS (load8 p 0) (\<lambda>v. bindS (load8 p 1) (\<lambda>to. bindS (load16 p 2) (\<lambda>tl.
     bindS (load16 p 4) (\<lambda>i. bindS (load16 p 6) (\<lambda>fr. bindS (load8 p 8) (\<lambda>tt.
     bindS (load8 p 9) (\<lambda>pr. bindS (load16 p 10) (\<lambda>ch. bindS (load32 p 12) (\<lambda>sa.
     bindS (load32 p 16) (\<lambda>da.
       Inr \<lparr>ip4_ihl = low_nibble v, ip4_version = high_nibble v, ip4_tos = to,
         ip4_tot_len = tl, ip4_id = i, ip4_frag_off = fr, ip4_ttl = tt, ip4_protocol = pr,
         ip4_check = ch, ip4_saddr = sa, ip4_daddr = da\<rparr>))))))))))"

section \<open>The contract of the serialization template\<close>

locale pod =
  fixes enc :: "'h \<Rightarrow> byte list"
    and dec :: "mem \<Rightarrow> exn + 'h"
    and sz :: nat
  assumes enc_length: "length (enc h) = sz"
    and dec_enc: "dec (enc h @ rest) = Inr h"
begin

lemma roundtrip: "dec (enc h) = Inr h"
  using dec_enc [of h "[]"] by simp

lemma enc_inject: "enc h @ r = enc h' @ r' \<longleftrightarrow> h = h' \<and> r = r'"
proof
  assume eq: "enc h @ r = enc h' @ r'"
  have "Inr h = dec (enc h @ r)" by (simp add: dec_enc)
  also have "\<dots> = Inr h'" by (simp add: eq dec_enc)
  finally show "h = h' \<and> r = r'" using eq by simp
qed simp

lemma take_enc: "take sz (enc h @ rest) = enc h"
  by (simp add: enc_length)

end

lemmas unfold_bytes = load8_def load16_def load32_def le16_def le32_def rd16_le16 rd32_le32
  nth_Cons' sizeofs

interpretation icmp: pod serialize_icmp parse_icmp sizeof_IcmpHeader
  by unfold_locales
    (simp_all add: serialize_icmp_def parse_icmp_def unfold_bytes)

interpretation udp: pod serialize_udp parse_udp sizeof_UdpHeader
  by unfold_locales
    (simp_all add: serialize_udp_def parse_udp_def unfold_bytes)

interpretation tcp: pod serialize_tcp parse_tcp sizeof_TcpHeader
  by unfold_locales
    (simp_all add: serialize_tcp_def parse_tcp_def unfold_bytes)

interpretation ipv4: pod serialize_ipv4 parse_ipv4 sizeof_Ipv4Header
  by unfold_locales
    (simp_all add: serialize_ipv4_def parse_ipv4_def unfold_bytes)

text \<open>Each field read agrees with the serialized header.\<close>

lemma read_serialized [bytes_simps]:
  "icmp_type_at (serialize_icmp i @ r) = Inr (icmp_type i)"
  "icmp_id_at (serialize_icmp i @ r) = Inr (icmp_id i)"
  "tcp_seq_at (serialize_tcp t @ r) = Inr (tcp_seq t)"
  "tcp_ack_seq_at (serialize_tcp t @ r) = Inr (tcp_ack_seq t)"
  "ip_version_at (serialize_ipv4 v @ r) = Inr (ip4_version v)"
  "ip4_ihl_at (serialize_ipv4 v @ r) = Inr (ip4_ihl v)"
  by (simp_all add: header_reads serialize_icmp_def serialize_tcp_def serialize_ipv4_def
      unfold_bytes)

text \<open>Eight bytes of the quoted TCP header are enough to read its sequence number.\<close>

lemma tcp_seq_first8 [bytes_simps]:
  "8 \<le> n \<Longrightarrow> tcp_seq_at (take n (serialize_tcp t) @ r) = Inr (tcp_seq t)"
  by (simp add: tcp_seq_at_def load32_def serialize_tcp_def le16_def le32_def rd32_le32
      nth_append take_Cons' nth_Cons' min_def)

end
