(* ===== verification/Checksum.thy ===== *)
theory Checksum
  imports Headers SockAddr
begin

text \<open>
  \<open>src/utils/ChecksumCalculator.cpp\<close>: the Internet checksum over a header in memory, for ICMP
  alone and for TCP and UDP with the pseudo-header of the IP addresses. The sums are 64-bit
  (\<open>unsigned long\<close>), the summed units are 16-bit words as the little-endian host reads them.

  The lemmas show that folding keeps the value modulo \<open>2 ^ 16 - 1\<close> and ends, and so that a
  receiver that sums a header together with its checksum gets all ones, which is what makes a
  checksum correct.
\<close>

section \<open>The summing loop\<close>

text \<open>
  \<open>while (size > 1) \<dots>\<close>, then the odd byte if there is one: the code reads a whole 16-bit word
  there and masks one byte of it.
\<close>

fun sum_loop :: "mem \<Rightarrow> nat \<Rightarrow> u64 \<Rightarrow> exn + u64" where
  "sum_loop addr n acc =
     (if n > 1
      then bindS (load16 addr 0) (\<lambda>x. sum_loop (drop 2 addr) (n - 2) (acc + ucast x))
      else if n > 0
      then bindS (load16 addr 0) (\<lambda>x. Inr (acc + ucast (x AND htons 0xFF00)))
      else Inr acc)"

declare sum_loop.simps [simp del]

text \<open>\<open>while (sum >> 16) sum = (sum & 0xffff) + (sum >> 16)\<close>\<close>

lemma and_65535: "n AND 65535 = n mod (65536 :: nat)"
proof -
  have "n AND 65535 = take_bit 16 n"
    by (simp add: take_bit_eq_mask mask_eq_exp_minus_1)
  then show ?thesis by (simp add: take_bit_eq_mod)
qed

lemma unat_high: "unat (drop_bit 16 s :: u64) = unat s div 65536"
  by (simp only: unat_drop_bit_div) simp

lemma fold_step_nat:
  "unat ((s AND 0xFFFF) + drop_bit 16 s :: u64) = unat s mod 65536 + unat s div 65536"
proof -
  have lo: "unat (s AND 0xFFFF) = unat s mod 65536"
    by (simp add: unsigned_and_eq and_65535)
  have "unat s < 2 ^ 64"
    using unsigned_less [of s, where 'a = nat] by simp
  then have "unat s mod 65536 + unat s div 65536 < 2 ^ 64"
    by (auto simp: less_mult_imp_div_less intro: le_less_trans [of _ "65535 + 2 ^ 48"])
  then show ?thesis
    by (simp add: unat_word_ariths lo unat_high)
qed

lemma high_zero: "drop_bit 16 (s :: u64) = 0 \<longleftrightarrow> unat s < 65536"
proof -
  have "drop_bit 16 s = 0 \<longleftrightarrow> unat (drop_bit 16 s) = 0" by (simp only: unat_eq_zero)
  also have "\<dots> \<longleftrightarrow> unat s < 65536"
    by (simp only: unat_high) (simp add: div_eq_0_iff)
  finally show ?thesis .
qed

function fold16 :: "u64 \<Rightarrow> u64" where
  "fold16 s = (if drop_bit 16 s \<noteq> 0 then fold16 ((s AND 0xFFFF) + drop_bit 16 s) else s)"
  by pat_completeness auto
termination
proof (relation "measure unat")
  fix s :: u64
  assume "drop_bit 16 s \<noteq> 0"
  then have "65536 \<le> unat s" using high_zero [of s] by simp
  then have "unat s mod 65536 + unat s div 65536 < unat s"
    using div_mult_mod_eq [of "unat s" 65536] div_greater_zero_iff [of "unat s" 65536] by linarith
  then show "((s AND 0xFFFF) + drop_bit 16 s, s) \<in> measure unat"
    by (simp add: fold_step_nat)
qed simp

declare fold16.simps [simp del]

section \<open>The checksum operations\<close>

definition computeChecksum :: "mem \<Rightarrow> nat \<Rightarrow> u64 \<Rightarrow> exn + u64" where
  "computeChecksum addr n prevSum =
     bindS (sum_loop addr n prevSum) (\<lambda>acc. Inr (NOT (fold16 acc)))"

definition add_halves :: "u64 \<Rightarrow> u32 \<Rightarrow> u64" where
  "add_halves acc w = acc + ucast (drop_bit 16 w AND 0xFFFF) + ucast (w AND 0xFFFF)"

text \<open>
  In the IPv6 branch the code takes both addresses from \<open>source\<close>
  (\<open>in6_addr dst = \<dots>source.sockaddrP()\<dots>\<close>); the model keeps that.
\<close>

definition computePseudoheaderChecksum ::
    "u16 \<Rightarrow> u16 \<Rightarrow> SocketAddress \<Rightarrow> SocketAddress \<Rightarrow> u64" where
  "computePseudoheaderChecksum protocol headerlen source destination =
     (let acc =
        (if isV4 source
         then add_halves (add_halves 0 (s_addr source)) (s_addr destination)
         else (let src = u6_addr32 source; dst = u6_addr32 source
               in foldl add_halves (foldl add_halves 0 src) dst))
      in acc + ucast (htons protocol) + ucast (htons headerlen))"

abbreviation (input) IPPROTO_ICMP :: int where "IPPROTO_ICMP \<equiv> 1"
abbreviation (input) IPPROTO_TCP :: int where "IPPROTO_TCP \<equiv> 6"
abbreviation (input) IPPROTO_UDP :: int where "IPPROTO_UDP \<equiv> 17"
abbreviation (input) IPPROTO_ICMPV6 :: int where "IPPROTO_ICMPV6 \<equiv> 58"

definition computeICMPHeaderChecksum :: "icmp_header \<Rightarrow> exn + u16" where
  "computeICMPHeaderChecksum header =
     (let h = header\<lparr>icmp_checksum := 0\<rparr> in
      bindS (computeChecksum (serialize_icmp h) sizeof_IcmpHeader 0) (\<lambda>s. Inr (ucast s)))"

definition computeTCPHeaderChecksum ::
    "tcp_header \<Rightarrow> SocketAddress \<Rightarrow> SocketAddress \<Rightarrow> exn + u16" where
  "computeTCPHeaderChecksum tcpheader source destination =
     (let tcpLen = of_nat sizeof_TcpHeader;
          acc = 0 + computePseudoheaderChecksum (word_of_int IPPROTO_TCP) tcpLen source destination;
          h = tcpheader\<lparr>tcp_check := 0\<rparr>
      in bindS (computeChecksum (serialize_tcp h) sizeof_TcpHeader acc) (\<lambda>s. Inr (ucast s)))"

definition computeUdpHeaderChecksum ::
    "udp_header \<Rightarrow> SocketAddress \<Rightarrow> SocketAddress \<Rightarrow> exn + u16" where
  "computeUdpHeaderChecksum udpheader source destination =
     (let udpLen = of_nat sizeof_UdpHeader;
          acc = 0 + computePseudoheaderChecksum (word_of_int IPPROTO_UDP) udpLen source destination;
          h = udpheader\<lparr>udp_check := 0\<rparr>
      in bindS (computeChecksum (serialize_udp h) sizeof_UdpHeader acc) (\<lambda>s. Inr (ucast s)))"

section \<open>One's complement arithmetic\<close>

text \<open>
  The value of a one's complement sum: the representative of \<open>n\<close> modulo \<open>2 ^ 16 - 1\<close> that is
  zero only for zero.
\<close>

definition oc16 :: "nat \<Rightarrow> nat" where
  "oc16 n = (if n = 0 then 0 else (n - 1) mod 65535 + 1)"

lemma oc16_less: "oc16 n < 65536"
  using mod_less_divisor [of 65535 "n - 1"] by (simp add: oc16_def)

lemma oc16_mod: "oc16 n mod 65535 = n mod 65535"
  by (cases n) (auto simp: oc16_def mod_Suc_eq)

lemma oc16_eq_0 [simp]: "oc16 n = 0 \<longleftrightarrow> n = 0"
  by (simp add: oc16_def)

lemma oc16_unique:
  assumes "r < 65536" "r mod 65535 = n mod 65535" "r = 0 \<longleftrightarrow> n = 0"
  shows "r = oc16 n"
proof (cases "n = 0")
  case False
  with assms obtain a b where ab: "r = Suc a" "n = Suc b"
    by (metis not0_implies_Suc)
  with assms have "a < 65535" "Suc a mod 65535 = Suc b mod 65535" by auto
  then have "(Suc a + 65534) mod 65535 = (Suc b + 65534) mod 65535"
    by (intro mod_add_cong) simp_all
  then have "a mod 65535 = b mod 65535" by simp
  with \<open>a < 65535\<close> ab show ?thesis by (simp add: oc16_def)
qed (use assms in \<open>simp add: oc16_def\<close>)

lemma fold_nat_mod: "((n :: nat) mod 65536 + n div 65536) mod 65535 = n mod 65535"
proof -
  have "n = 65535 * (n div 65536) + (n mod 65536 + n div 65536)"
    using div_mult_mod_eq [of n 65536] by linarith
  then show ?thesis by (metis mod_mult_self4)
qed

lemma unat_fold16: "unat (fold16 s) = oc16 (unat s)"
proof (induction s rule: fold16.induct)
  case (1 s)
  show ?case
  proof (cases "drop_bit 16 s = 0")
    case True
    then show ?thesis
      by (auto simp: fold16.simps [of s] high_zero intro: oc16_unique)
  next
    case False
    let ?t = "(s AND 0xFFFF) + drop_bit 16 s"
    have "unat (fold16 s) = oc16 (unat ?t)"
      using False 1 by (simp add: fold16.simps [of s])
    moreover have "oc16 (unat ?t) = oc16 (unat s)"
    proof (rule oc16_unique)
      have z: "unat ?t = 0 \<longleftrightarrow> unat s = 0"
        unfolding fold_step_nat using div_mult_mod_eq [of "unat s" 65536] by auto
      show "oc16 (unat ?t) < 65536" by (rule oc16_less)
      show "oc16 (unat ?t) mod 65535 = unat s mod 65535"
        unfolding fold_step_nat by (simp add: oc16_mod fold_nat_mod)
      show "oc16 (unat ?t) = 0 \<longleftrightarrow> unat s = 0"
        using z by simp
    qed
    ultimately show ?thesis by simp
  qed
qed

text \<open>The plain sum of the 16-bit words of a memory area, as numbers.\<close>

fun word_sum :: "byte list \<Rightarrow> nat" where
  "word_sum (a # b # r) = unat (rd16 a b) + word_sum r"
| "word_sum [a] = unat a"
| "word_sum [] = 0"

lemma word_sum_append: "even (length xs) \<Longrightarrow> word_sum (xs @ ys) = word_sum xs + word_sum ys"
  by (induction xs rule: word_sum.induct) auto

lemma word_sum_bound: "word_sum xs \<le> 65535 * length xs"
proof (induction xs rule: word_sum.induct)
  case (1 a b r)
  moreover have "unat (rd16 a b) \<le> 65535"
    using unsigned_less [of "rd16 a b", where 'a = nat] by simp
  ultimately show ?case by simp
next
  case (2 a)
  then show ?case using unsigned_less [of a, where 'a = nat] by simp
qed simp

lemma sum_loop_even:
  assumes "even n" "n \<le> length addr" "unat acc + 65535 * n < 2 ^ 64"
  shows "\<exists>s. sum_loop addr n acc = Inr s \<and> unat s = unat acc + word_sum (take n addr)"
  using assms
proof (induction addr n acc rule: sum_loop.induct)
  case (1 addr n acc)
  show ?case
  proof (cases "n > 1")
    case True
    with 1(3) obtain a b r where addr: "addr = a # b # r"
      by (cases addr; cases "tl addr") auto
    obtain m where n: "n = Suc (Suc m)" using True by (metis less_imp_Suc_add add_2_eq_Suc' plus_1_eq_Suc)
    have x: "unat (rd16 a b) \<le> 65535"
      using unsigned_less [of "rd16 a b", where 'a = nat] by simp
    have u: "unat (acc + ucast (rd16 a b)) = unat acc + unat (rd16 a b)"
      using 1(4) x n by (simp add: unat_word_ariths unat_ucast_up)
    have "load16 addr 0 = Inr (rd16 a b)" by (simp add: addr load16_def)
    then have "sum_loop addr n acc = sum_loop r m (acc + ucast (rd16 a b))"
      by (subst sum_loop.simps) (simp add: n addr)
    with 1(1) [OF True, of "rd16 a b"] 1(2-4) u x n addr show ?thesis
      by (simp add: add.assoc)
  next
    case False
    with 1(2) have "n = 0" by (cases n) auto
    then have "sum_loop addr n acc = Inr acc" by (subst sum_loop.simps) simp
    with \<open>n = 0\<close> show ?thesis by simp
  qed
qed

subsection \<open>Correctness of the checksums\<close>

lemma unat_not16: "unat (ucast (NOT s) :: u16) = 65535 - unat s" if "unat (s :: u64) < 65536"
proof -
  have "(ucast (NOT s) :: u16) = NOT (ucast s)"
    by (rule bit_word_eqI) (auto simp: bit_simps)
  moreover have "unat (ucast s :: u16) = unat s"
    using that by (simp add: unsigned_ucast_eq take_bit_nat_eq_self_iff)
  moreover have "unat (NOT x) = 65535 - unat x" for x :: u16
  proof -
    have "NOT x = - 1 - x" by (simp add: not_eq_complement)
    also have "unat \<dots> = unat (- 1 :: u16) - unat x" by (rule unat_sub) simp
    also have "unat (- 1 :: u16) = 65535"
      by (simp add: unsigned_minus_1_eq_mask mask_eq_exp_minus_1)
    finally show ?thesis .
  qed
  ultimately show ?thesis by simp
qed

lemma computeChecksum_value:
  assumes "even n" "n \<le> length addr" "unat acc + 65535 * n < 2 ^ 64"
  shows "\<exists>s. computeChecksum addr n acc = Inr s
     \<and> unat (ucast s :: u16) = 65535 - oc16 (unat acc + word_sum (take n addr))"
proof -
  obtain s where "sum_loop addr n acc = Inr s" "unat s = unat acc + word_sum (take n addr)"
    using sum_loop_even [OF assms] by blast
  then show ?thesis
    by (simp add: computeChecksum_def unat_not16 unat_fold16 oc16_less)
qed

text \<open>
  The receiver's side: a sum to which the complement of its own fold is added folds to all ones.
\<close>

lemma oc16_complement: "oc16 (n + (65535 - oc16 n)) = 65535"
proof -
  have le: "oc16 n \<le> n" by (cases n) (auto simp: oc16_def)
  have "oc16 n \<le> 65535" using oc16_less [of n] by simp
  have "(n + (65535 - oc16 n)) mod 65535 = 0"
  proof -
    have "n mod 65535 = oc16 n mod 65535" by (simp add: oc16_mod)
    then obtain k where "n = oc16 n + 65535 * k" using le
      by (metis mod_eq_nat2E mult.commute)
    then have "n + (65535 - oc16 n) = 65535 * (k + 1)"
      using \<open>oc16 n \<le> 65535\<close> by simp
    then show ?thesis by simp
  qed
  moreover have "0 < n + (65535 - oc16 n)" using le by (cases "n = 0") (auto simp: oc16_def)
  ultimately have "65535 = oc16 (n + (65535 - oc16 n))"
    by (intro oc16_unique) auto
  then show ?thesis by simp
qed


subsection \<open>The pseudo-header\<close>

definition halves :: "u32 \<Rightarrow> nat" where
  "halves w = unat w div 65536 + unat w mod 65536"

lemma halves_le: "halves w \<le> 131070"
proof -
  have "unat w < 65536 * 65536" using unsigned_less [of w, where 'a = nat] by simp
  then have "unat w div 65536 < 65536" by (simp add: less_mult_imp_div_less)
  moreover have "unat w mod 65536 < 65536" by simp
  ultimately show ?thesis by (simp add: halves_def)
qed

lemma unat_add_halves:
  assumes "unat acc < 2 ^ 63"
  shows "unat (add_halves acc w) = unat acc + halves w"
proof -
  have hi: "unat (drop_bit 16 w AND 0xFFFF) = unat w div 65536"
  proof -
    have "drop_bit 16 w AND 0xFFFF = take_bit 16 (drop_bit 16 w)"
      by (simp add: take_bit_eq_mask mask_eq_exp_minus_1)
    also have "\<dots> = drop_bit 16 w"
      by (rule bit_word_eqI) (auto simp: bit_simps dest: bit_imp_le_length)
    finally show ?thesis by (simp only: unat_drop_bit_div) simp
  qed
  have lo: "unat (w AND 0xFFFF) = unat w mod 65536"
    by (simp add: unsigned_and_eq and_65535)
  show ?thesis
    using assms halves_le [of w]
    by (simp add: add_halves_def unat_word_ariths unat_ucast_up hi lo halves_def)
qed

lemma length_u6: "length (u6_addr32 a) = 4"
  by (simp add: u6_addr32_def)

lemma unat_foldl_add_halves:
  "unat acc + 131070 * length ws < 2 ^ 63 \<Longrightarrow>
     unat (foldl add_halves acc ws) = unat acc + sum_list (map halves ws)"
proof (induction ws arbitrary: acc)
  case (Cons w ws)
  then show ?case using halves_le [of w] by (simp add: unat_add_halves)
qed simp

text \<open>
  The sum the RFCs prescribe: source, destination, protocol and length as 16-bit words (here in
  the order of the host).
\<close>

definition pseudo_sum :: "u16 \<Rightarrow> u16 \<Rightarrow> SocketAddress \<Rightarrow> SocketAddress \<Rightarrow> nat" where
  "pseudo_sum protocol headerlen source destination =
     (if isV4 source then halves (s_addr source) + halves (s_addr destination)
      else sum_list (map halves (u6_addr32 source)) + sum_list (map halves (u6_addr32 destination)))
     + unat (htons protocol) + unat (htons headerlen)"

lemma sum_halves_v6: "sum_list (map halves (u6_addr32 a)) \<le> 524280"
  using halves_le [of "ss_word8 a"] halves_le [of "ss_word12 a"] halves_le [of "ss_word16 a"]
    halves_le [of "ss_word20 a"] by (simp add: u6_addr32_def)

lemma unat_pseudoheader:
  "unat (computePseudoheaderChecksum p l src dst) =
     (if isV4 src then pseudo_sum p l src dst else pseudo_sum p l src src)"
proof (cases "isV4 src")
  case True
  then show ?thesis
    using halves_le [of "s_addr src"] halves_le [of "s_addr dst"] unat_u16_le [of "htons p"]
      unat_u16_le [of "htons l"]
    by (simp add: computePseudoheaderChecksum_def pseudo_sum_def unat_add_halves unat_word_ariths
        unat_ucast_up)
next
  case False
  then show ?thesis
    using sum_halves_v6 [of src] unat_u16_le [of "htons p"] unat_u16_le [of "htons l"]
    by (simp add: computePseudoheaderChecksum_def pseudo_sum_def unat_foldl_add_halves
        unat_word_ariths unat_ucast_up length_u6 Let_def)
qed

lemma pseudo_sum_le: "pseudo_sum p l src dst \<le> 1179630"
  using halves_le [of "s_addr src"] halves_le [of "s_addr dst"] sum_halves_v6 [of src]
    sum_halves_v6 [of dst] unat_u16_le [of "htons p"] unat_u16_le [of "htons l"]
  by (simp add: pseudo_sum_def)


subsection \<open>Each header\<close>

text \<open>A header with its checksum field set adds exactly the field to the sum.\<close>

lemma word_sum_le: "word_sum (le16 w) = unat w" "word_sum (le32 v) = halves v"
proof -
  show "word_sum (le16 w) = unat w" by (simp add: le16_def rd16_le16)
  have "rd16 (ucast v) (ucast (drop_bit 8 v)) = (ucast v :: u16)"
    "rd16 (ucast (drop_bit 16 v)) (ucast (drop_bit 24 v)) = (ucast (drop_bit 16 v) :: u16)"
    by (rule bit_word_eqI; auto simp: rd16_def bit_simps)+
  moreover have "unat (ucast v :: u16) = unat v mod 65536"
    by (simp add: unat_ucast_mod)
  moreover have "unat (ucast (drop_bit 16 v) :: u16) = unat v div 65536"
    using unsigned_less [of v, where 'a = nat]
    by (simp only: unat_ucast_mod unat_drop_bit_div) (simp add: less_mult_imp_div_less)
  ultimately show "word_sum (le32 v) = halves v" by (simp add: le32_def halves_def)
qed

lemma word_sum_Cons2: "word_sum (a # b # r) = unat (rd16 a b) + word_sum r"
  by simp

lemmas word_sum_layout = word_sum_append word_sum_le

lemma word_sum_icmp:
  "word_sum (serialize_icmp (h\<lparr>icmp_checksum := c\<rparr>)) =
     word_sum (serialize_icmp (h\<lparr>icmp_checksum := 0\<rparr>)) + unat c"
  by (simp add: serialize_icmp_def word_sum_layout)

lemma word_sum_tcp:
  "word_sum (serialize_tcp (h\<lparr>tcp_check := c\<rparr>)) =
     word_sum (serialize_tcp (h\<lparr>tcp_check := 0\<rparr>)) + unat c"
  by (simp add: serialize_tcp_def word_sum_layout)

lemma word_sum_udp:
  "word_sum (serialize_udp (h\<lparr>udp_check := c\<rparr>)) =
     word_sum (serialize_udp (h\<lparr>udp_check := 0\<rparr>)) + unat c"
  by (simp add: serialize_udp_def word_sum_layout)

lemma icmp_checksum_value:
  "\<exists>c. computeICMPHeaderChecksum h = Inr c
     \<and> unat c = 65535 - oc16 (word_sum (serialize_icmp (h\<lparr>icmp_checksum := 0\<rparr>)))"
  using computeChecksum_value [of sizeof_IcmpHeader "serialize_icmp (h\<lparr>icmp_checksum := 0\<rparr>)" 0]
  by (auto simp: computeICMPHeaderChecksum_def sizeofs)

lemma tcp_checksum_value:
  assumes "isV4 src"
  shows "\<exists>c. computeTCPHeaderChecksum h src dst = Inr c
     \<and> unat c = 65535 - oc16 (pseudo_sum 6 20 src dst
         + word_sum (serialize_tcp (h\<lparr>tcp_check := 0\<rparr>)))"
  using computeChecksum_value [of sizeof_TcpHeader "serialize_tcp (h\<lparr>tcp_check := 0\<rparr>)"
      "computePseudoheaderChecksum 6 20 src dst"] pseudo_sum_le [of 6 20 src dst] assms
  by (auto simp: computeTCPHeaderChecksum_def unat_pseudoheader sizeofs)

lemma udp_checksum_value:
  assumes "isV4 src"
  shows "\<exists>c. computeUdpHeaderChecksum h src dst = Inr c
     \<and> unat c = 65535 - oc16 (pseudo_sum 17 8 src dst
         + word_sum (serialize_udp (h\<lparr>udp_check := 0\<rparr>)))"
  using computeChecksum_value [of sizeof_UdpHeader "serialize_udp (h\<lparr>udp_check := 0\<rparr>)"
      "computePseudoheaderChecksum 17 8 src dst"] pseudo_sum_le [of 17 8 src dst] assms
  by (auto simp: computeUdpHeaderChecksum_def unat_pseudoheader sizeofs)

text \<open>No input makes a checksum operation read outside its header.\<close>

lemma checksums_defined:
  "\<exists>c. computeICMPHeaderChecksum i = Inr c"
  "isV4 src \<Longrightarrow> \<exists>c. computeTCPHeaderChecksum t src dst = Inr c"
  "isV4 src \<Longrightarrow> \<exists>c. computeUdpHeaderChecksum u src dst = Inr c"
  using icmp_checksum_value [of i] tcp_checksum_value [of src t dst]
    udp_checksum_value [of src u dst] by blast+

lemma checksum_not_Inl [simp]:
  "computeICMPHeaderChecksum i \<noteq> Inl e"
  "isV4 src \<Longrightarrow> computeTCPHeaderChecksum t src dst \<noteq> Inl e"
  "isV4 src \<Longrightarrow> computeUdpHeaderChecksum u src dst \<noteq> Inl e"
  using checksums_defined(1) [of i] checksums_defined(2) [of src t dst]
    checksums_defined(3) [of src u dst] by auto

subsection \<open>The reference in network byte order\<close>

text \<open>
  RFC 1071 over the bytes as they are sent: 16-bit words with the first byte as the high one. The
  program sums words in host order and stores the result in host order; the two agree.
\<close>

fun be_sum :: "byte list \<Rightarrow> nat" where
  "be_sum (a # b # r) = 256 * unat a + unat b + be_sum r"
| "be_sum [a] = 256 * unat a"
| "be_sum [] = 0"

definition rfc1071 :: "byte list \<Rightarrow> nat" where
  "rfc1071 bytes = 65535 - oc16 (be_sum bytes)"

definition swap16 :: "nat \<Rightarrow> nat" where
  "swap16 n = 256 * (n mod 256) + n div 256"

lemma be_sum_mod: "even (length bs) \<Longrightarrow> be_sum bs mod 65535 = 256 * word_sum bs mod 65535"
proof (induction bs rule: be_sum.induct)
  case (1 a b r)
  have "256 * unat (rd16 a b) = (256 * unat a + unat b) + 65535 * unat b"
    by (simp add: unat_rd16)
  then have "(256 * unat a + unat b) mod 65535 = 256 * unat (rd16 a b) mod 65535"
    by (metis mod_mult_self2)
  moreover have "be_sum r mod 65535 = 256 * word_sum r mod 65535" using 1 by simp
  ultimately have "(256 * unat a + unat b + be_sum r) mod 65535
      = (256 * unat (rd16 a b) + 256 * word_sum r) mod 65535"
    by (rule mod_add_cong)
  then show ?case by (simp add: distrib_left)
qed simp_all

lemma be_sum_eq_0: "even (length bs) \<Longrightarrow> be_sum bs = 0 \<longleftrightarrow> word_sum bs = 0"
  by (induction bs rule: be_sum.induct) (auto simp: unat_rd16 simp del: unat_eq_zero)

lemma swap16_less: "n < 65536 \<Longrightarrow> swap16 n < 65536"
  by (simp add: swap16_def)

lemma swap16_mod: "swap16 n mod 65535 = 256 * n mod 65535"
proof -
  have "256 * n = swap16 n + 65535 * (n div 256)"
    unfolding swap16_def using div_mult_mod_eq [of n 256] by linarith
  then show ?thesis by (metis mod_mult_self2)
qed

lemma swap16_eq_0: "swap16 n = 0 \<longleftrightarrow> n = 0"
  using div_mult_mod_eq [of n 256] by (auto simp: swap16_def)

lemma swap16_compl: "n < 65536 \<Longrightarrow> swap16 (65535 - n) = 65535 - swap16 n"
proof -
  assume n: "n < 65536"
  define a b where "a = n div 256" and "b = n mod 256"
  have ab: "a < 256" "b < 256" "n = 256 * a + b"
    using n by (simp_all add: a_def b_def less_mult_imp_div_less)
  then have m: "65535 - n = 256 * (255 - a) + (255 - b)" by simp
  have "(65535 - n) div 256 = 255 - a" "(65535 - n) mod 256 = 255 - b"
    unfolding m by simp_all
  then show ?thesis
    using ab by (simp add: swap16_def a_def [symmetric] b_def [symmetric])
qed

lemma oc16_be_sum: "even (length bs) \<Longrightarrow> oc16 (be_sum bs) = swap16 (oc16 (word_sum bs))"
proof (rule oc16_unique [symmetric])
  assume ev: "even (length bs)"
  show "swap16 (oc16 (word_sum bs)) < 65536" by (simp add: swap16_less oc16_less)
  have "swap16 (oc16 (word_sum bs)) mod 65535 = 256 * oc16 (word_sum bs) mod 65535"
    by (rule swap16_mod)
  also have "\<dots> = 256 * word_sum bs mod 65535"
    by (metis mod_mult_right_eq oc16_mod)
  finally show "swap16 (oc16 (word_sum bs)) mod 65535 = be_sum bs mod 65535"
    using be_sum_mod [OF ev] by simp
  show "swap16 (oc16 (word_sum bs)) = 0 \<longleftrightarrow> be_sum bs = 0"
    by (simp add: swap16_eq_0 be_sum_eq_0 ev)
qed

lemma unat_htons: "unat (htons w) = swap16 (unat w)"
proof -
  have "unat (ucast w :: byte) = unat w mod 256"
    by (simp add: unat_ucast_mod)
  moreover have "unat (ucast (drop_bit 8 w) :: byte) = unat w div 256"
    using unsigned_less [of w, where 'a = nat]
    by (simp only: unat_ucast_mod unat_drop_bit_div) (simp add: less_mult_imp_div_less)
  ultimately show ?thesis by (simp add: htons_def unat_rd16 swap16_def)
qed

lemma host_order_checksum:
  assumes "unat c = 65535 - oc16 (word_sum bs)" "even (length bs)"
  shows "unat (htons c) = rfc1071 bs"
  using assms oc16_less [of "word_sum bs"]
  by (simp add: unat_htons rfc1071_def oc16_be_sum swap16_compl)

text \<open>The pseudo-header of IPv4 as bytes.\<close>

definition pseudo_header4 :: "SocketAddress \<Rightarrow> SocketAddress \<Rightarrow> u16 \<Rightarrow> u16 \<Rightarrow> byte list" where
  "pseudo_header4 src dst protocol len =
     le32 (s_addr src) @ le32 (s_addr dst) @ le16 (htons protocol) @ le16 (htons len)"

lemma word_sum_pseudo_header4:
  "isV4 src \<Longrightarrow> word_sum (pseudo_header4 src dst p l) = pseudo_sum p l src dst"
  by (simp add: pseudo_header4_def pseudo_sum_def word_sum_layout)

lemma length_pseudo_header4 [simp]: "length (pseudo_header4 src dst p l) = 12"
  by (simp add: pseudo_header4_def)

end
