(* ===== verification/Sockets.thy ===== *)
theory Sockets
  imports Host Checksum
begin

text \<open>
  \<open>src/utils/Poll.cpp\<close>, \<open>src/utils/Bind.cpp\<close>, \<open>src/utils/CreateSocket.cpp\<close>,
  \<open>src/SocketProviders/\<close>, \<open>src/ResolveSourceAddress.cpp\<close> and \<open>include/Traceroute/Socket.hpp\<close>: the
  raw sockets a tracer sends and receives with, and waiting on them.
\<close>

section \<open>Waiting on descriptors\<close>

abbreviation (input) POLLIN :: u16 where "POLLIN \<equiv> 1"
abbreviation (input) POLLOUT :: u16 where "POLLOUT \<equiv> 4"

text \<open>
  The vector is created with as many zero entries as there are descriptors, and the entries of the
  descriptors are then appended (\<open>back_inserter\<close>): the first half asks for no event of descriptor 0.
\<close>

definition poll_entries :: "int list \<Rightarrow> u16 \<Rightarrow> pollfd list" where
  "poll_entries fds events =
     replicate (length fds) \<lparr>pfd_fd = 0, pfd_events = 0, pfd_revents = 0\<rparr>
     @ map (\<lambda>fd. \<lparr>pfd_fd = fd, pfd_events = events, pfd_revents = 0\<rparr>) fds"

definition set_revents :: "pollfd list \<Rightarrow> u16 list \<Rightarrow> pollfd list" where
  "set_revents entries revents = map2 (\<lambda>p r. p\<lparr>pfd_revents := r\<rparr>) entries revents"

definition Poll_any :: "'w os \<Rightarrow> int list \<Rightarrow> u16 \<Rightarrow> int \<Rightarrow> ('w, int option) io" where
  "Poll_any os fds events timeout =
     (let pollfds = poll_entries fds events in
      bindE (callE (sys_poll os pollfds (to_int timeout))) (\<lambda>(result, revents).
        if result < 0
        then failE (\<lambda>w. ''Exception occurred while polling '' @ errno_string os w)
        else if result > 0
        then (case find (\<lambda>p. pfd_revents p \<noteq> 0) (set_revents pollfds revents) of
                Some p \<Rightarrow> returnE (Some (pfd_fd p))
              | None \<Rightarrow> returnE None)
        else returnE None))"

definition Poll_one :: "'w os \<Rightarrow> int \<Rightarrow> u16 \<Rightarrow> int \<Rightarrow> ('w, bool) io" where
  "Poll_one os fd events timeout =
     bindE (callE (sys_poll os [\<lparr>pfd_fd = fd, pfd_events = events, pfd_revents = 0\<rparr>]
              (to_int timeout))) (\<lambda>(result, revents).
       if result < 0
       then failE (\<lambda>w. ''Exception occurred while polling '' @ errno_string os w)
       else returnE (result \<noteq> 0))"

section \<open>Binding\<close>

definition bindInterface :: "'w os \<Rightarrow> int \<Rightarrow> string \<Rightarrow> ('w, unit) io" where
  "bindInterface os sfd ifaceName =
     bindE (callE (sys_setsockopt os sfd 1 25 (map of_char ifaceName))) (\<lambda>r.
       if r < 0 then throwE (Runtime_error (''Could not bind to an interface: '' @ ifaceName))
       else returnE ())"

definition bindIpAddress :: "'w os \<Rightarrow> int \<Rightarrow> SocketAddress \<Rightarrow> ('w, unit) io" where
  "bindIpAddress os sfd address =
     bindE (callE (sys_bind os sfd (sockaddrP address) (addr_size address))) (\<lambda>r.
       if r < 0
       then throwE (Runtime_error (''Could not bind address: ''
              @ addr_toString (sys_resolver os) address))
       else returnE ())"

definition bindToIpAddressAndInterface ::
    "'w os \<Rightarrow> int \<Rightarrow> SocketAddress \<Rightarrow> string option \<Rightarrow> ('w, unit) io" where
  "bindToIpAddressAndInterface os fd addressToBind ifaceName =
     bindE (case ifaceName of Some n \<Rightarrow> bindInterface os fd n | None \<Rightarrow> returnE ()) (\<lambda>_.
       bindIpAddress os fd addressToBind)"

section \<open>Sockets and their roles\<close>

record Socket =
  sock_fd :: int
  sock_protocol :: int

type_synonym Role = u8

definition Role_Receive :: Role where "Role_Receive = 1"
definition Role_Send :: Role where "Role_Send = 2"

definition role_or :: "Role \<Rightarrow> Role \<Rightarrow> Role" where
  "role_or lhs rhs = lhs OR rhs"

definition role_and :: "Role \<Rightarrow> Role \<Rightarrow> bool" where
  "role_and lhs rhs \<longleftrightarrow> (lhs AND rhs) \<noteq> 0"

record SocketExt =
  se_socket :: Socket
  se_role :: Role

section \<open>Raw sockets\<close>

text \<open>
  The ICMPv6 filter of \<open>netinet/icmp6.h\<close>: 256 bits in eight words, a set bit blocks a type.
\<close>

definition filter_block_all :: "u32 list" where
  "filter_block_all = replicate 8 0xFFFFFFFF"

definition filter_set_pass :: "nat \<Rightarrow> u32 list \<Rightarrow> u32 list" where
  "filter_set_pass ty f =
     f[ty div 32 := (f ! (ty div 32)) AND NOT (push_bit (ty mod 32) 1)]"

definition filter_will_pass :: "nat \<Rightarrow> u32 list \<Rightarrow> bool" where
  "filter_will_pass ty f \<longleftrightarrow> \<not> bit (f ! (ty div 32)) (ty mod 32)"

definition icmp6_filter :: "u32 list" where
  "icmp6_filter = filter_set_pass 1 (filter_set_pass 3 (filter_set_pass 129 filter_block_all))"

abbreviation (input) SOCK_RAW_NONBLOCK :: int where "SOCK_RAW_NONBLOCK \<equiv> 2051"

definition setupIcmpRawSocket ::
    "'w os \<Rightarrow> SocketAddress \<Rightarrow> string option \<Rightarrow> ('w, Socket) io" where
  "setupIcmpRawSocket os addressToBind ifaceName =
     (let protocol = (if isV4 addressToBind then IPPROTO_ICMP else IPPROTO_ICMPV6) in
      bindE (callE (sys_socket os (family addressToBind) SOCK_RAW_NONBLOCK protocol)) (\<lambda>fd.
      bindE (bindToIpAddressAndInterface os fd addressToBind ifaceName) (\<lambda>_.
        if isV6 addressToBind
        then bindE (callE (sys_setsockopt os fd IPPROTO_ICMPV6 1 (concat (map le32 icmp6_filter))))
               (\<lambda>r. if r < 0
                    then failE (\<lambda>w. ''Error occured while setting icmpv6 filter: ''
                           @ errno_string os w)
                    else returnE \<lparr>sock_fd = fd, sock_protocol = protocol\<rparr>)
        else returnE \<lparr>sock_fd = fd, sock_protocol = protocol\<rparr>)))"

definition setupTcpRawSocket ::
    "'w os \<Rightarrow> SocketAddress \<Rightarrow> string option \<Rightarrow> ('w, Socket) io" where
  "setupTcpRawSocket os addressToBind ifaceName =
     (let protocol = IPPROTO_TCP in
      bindE (callE (sys_socket os (family addressToBind) SOCK_RAW_NONBLOCK protocol)) (\<lambda>fd.
      bindE (bindToIpAddressAndInterface os fd addressToBind ifaceName) (\<lambda>_.
        if isV6 addressToBind
        then bindE (callE (sys_setsockopt os fd 41 7 (le32 16))) (\<lambda>r.
               if r < 0 then throwE (Runtime_error ''Could not set IPV6_CHECKSUM flag'')
               else returnE \<lparr>sock_fd = fd, sock_protocol = protocol\<rparr>)
        else returnE \<lparr>sock_fd = fd, sock_protocol = protocol\<rparr>)))"

definition setupUdpRawSocket ::
    "'w os \<Rightarrow> SocketAddress \<Rightarrow> string option \<Rightarrow> ('w, Socket) io" where
  "setupUdpRawSocket os addressToBind ifaceName =
     (let protocol = IPPROTO_UDP in
      bindE (callE (sys_socket os (family addressToBind) SOCK_RAW_NONBLOCK protocol)) (\<lambda>fd.
      bindE (bindToIpAddressAndInterface os fd addressToBind ifaceName) (\<lambda>_.
        if isV6 addressToBind
        then bindE (callE (sys_setsockopt os fd 41 7 (le32 6))) (\<lambda>r.
               if r < 0 then throwE (Runtime_error ''Could not set IPV6_CHECKSUM flag'')
               else returnE \<lparr>sock_fd = fd, sock_protocol = protocol\<rparr>)
        else returnE \<lparr>sock_fd = fd, sock_protocol = protocol\<rparr>)))"

section \<open>Socket providers\<close>

definition IcmpSocketProvider_createSockets ::
    "'w os \<Rightarrow> SocketAddress \<Rightarrow> string option \<Rightarrow> ('w, SocketExt list) io" where
  "IcmpSocketProvider_createSockets os addressToBind iface =
     bindE (setupIcmpRawSocket os addressToBind iface) (\<lambda>s.
       returnE [\<lparr>se_socket = s, se_role = role_or Role_Receive Role_Send\<rparr>])"

definition TcpSocketProvider_createSockets ::
    "'w os \<Rightarrow> SocketAddress \<Rightarrow> string option \<Rightarrow> ('w, SocketExt list) io" where
  "TcpSocketProvider_createSockets os addressToBind iface =
     bindE (setupIcmpRawSocket os addressToBind iface) (\<lambda>icmp_s.
     bindE (setupTcpRawSocket os addressToBind iface) (\<lambda>tcp_s.
       returnE [\<lparr>se_socket = icmp_s, se_role = Role_Receive\<rparr>,
                \<lparr>se_socket = tcp_s, se_role = role_or Role_Receive Role_Send\<rparr>]))"

definition UdpSocketProvider_createSockets ::
    "'w os \<Rightarrow> SocketAddress \<Rightarrow> string option \<Rightarrow> ('w, SocketExt list) io" where
  "UdpSocketProvider_createSockets os addressToBind iface =
     bindE (setupIcmpRawSocket os addressToBind iface) (\<lambda>icmp_s.
     bindE (setupUdpRawSocket os addressToBind iface) (\<lambda>udp_s.
       returnE [\<lparr>se_socket = icmp_s, se_role = Role_Receive\<rparr>,
                \<lparr>se_socket = udp_s, se_role = Role_Send\<rparr>]))"

text \<open>The virtual method \<open>IProvideSockets::createSockets\<close>.\<close>

datatype socket_provider = IcmpSocketProvider | TcpSocketProvider | UdpSocketProvider

fun createSockets ::
    "'w os \<Rightarrow> socket_provider \<Rightarrow> SocketAddress \<Rightarrow> string option \<Rightarrow> ('w, SocketExt list) io" where
  "createSockets os IcmpSocketProvider = IcmpSocketProvider_createSockets os"
| "createSockets os TcpSocketProvider = TcpSocketProvider_createSockets os"
| "createSockets os UdpSocketProvider = UdpSocketProvider_createSockets os"

section \<open>The source address\<close>

text \<open>\<open>len\<close> is passed to \<open>getsockname\<close> without having been initialised.\<close>

definition resolveSourceAddress ::
    "'w os \<Rightarrow> SocketAddress \<Rightarrow> string option \<Rightarrow> ('w, SocketAddress) io" where
  "resolveSourceAddress os destination ifaceName =
     bindE (callE (sys_socket os (family destination) 2 IPPROTO_UDP)) (\<lambda>sfd.
     bindE (case ifaceName of Some n \<Rightarrow> bindInterface os sfd n | None \<Rightarrow> returnE ()) (\<lambda>_.
     bindE (callE (sys_connect os sfd (sockaddrP destination) (addr_size destination))) (\<lambda>r.
       if r < 0
       then throwE (Runtime_error
              ''Failed to resolve source address. Error: connect() failed'')
       else
         bindE (callE (sys_uninit32 os)) (\<lambda>len.
         bindE (callE (sys_getsockname os sfd len)) (\<lambda>(r2, storage).
           if r2 < 0
           then failE (\<lambda>w. ''Failed to resolve source address. Error: getsockname() failed: ''
                  @ to_string (sys_errno os w))
           else bindE (callE (sys_close os sfd)) (\<lambda>_.
                  returnE (SocketAddress_of_storage storage)))))))"

section \<open>What the sockets deliver\<close>

lemma length_filter_set_pass [simp]: "length (filter_set_pass ty f) = length f"
  by (simp add: filter_set_pass_def)

lemma will_pass_set_pass:
  assumes "length f = 8" "u < 256"
  shows "filter_will_pass ty (filter_set_pass u f) \<longleftrightarrow> ty = u \<or> filter_will_pass ty f"
proof (cases "ty div 32 = u div 32")
  case True
  then have "ty = u \<longleftrightarrow> ty mod 32 = u mod 32" by (metis div_mult_mod_eq)
  moreover have "u div 32 < 8" using assms(2) by (simp add: div_less_iff_less_mult)
  ultimately show ?thesis
    using True assms(1)
    by (auto simp: filter_will_pass_def filter_set_pass_def bit_simps)
next
  case False
  then show ?thesis
    by (auto simp: filter_will_pass_def filter_set_pass_def nth_list_update)
qed

lemma icmp6_filter_types: "ty < 256 \<Longrightarrow> filter_will_pass ty icmp6_filter \<longleftrightarrow> ty \<in> {1, 3, 129}"
proof -
  have "(0xFFFFFFFF :: u32) = - 1" by simp
  then have all_ones: "bit (0xFFFFFFFF :: u32) (ty mod 32)" by (simp only: bit_minus_1_iff) simp
  assume "ty < 256"
  then have "ty div 32 < 8" by (simp add: div_less_iff_less_mult)
  then have "\<not> filter_will_pass ty filter_block_all"
    using all_ones by (simp add: filter_will_pass_def filter_block_all_def)
  then show ?thesis by (auto simp: icmp6_filter_def will_pass_set_pass filter_block_all_def)
qed

text \<open>The entries of the descriptors, behind the zero entries.\<close>

lemma find_zero_entries:
  "length es = length rs \<Longrightarrow> list_all (\<lambda>r. r = 0) rs \<Longrightarrow>
     find (\<lambda>p. pfd_revents p \<noteq> 0) (set_revents (es @ es') (rs @ rs'))
       = find (\<lambda>p. pfd_revents p \<noteq> 0) (set_revents es' rs')"
  by (induction es rs rule: list_induct2) (simp_all add: set_revents_def)

lemma find_entries:
  "length fds = length rs \<Longrightarrow>
     map_option pfd_fd (find (\<lambda>p. pfd_revents p \<noteq> 0)
         (set_revents (map (\<lambda>fd. \<lparr>pfd_fd = fd, pfd_events = ev, pfd_revents = 0\<rparr>) fds) rs))
       = map_option fst (find (\<lambda>(fd, r). r \<noteq> 0) (zip fds rs))"
  by (induction fds rs rule: list_induct2) (simp_all add: set_revents_def)

text \<open>When descriptor 0 reports nothing, \<open>Poll\<close> returns the first descriptor with an event.\<close>

lemma Poll_any_ready:
  assumes "sys_poll os (poll_entries fds ev) (to_int t) w
      = ((n, replicate (length fds) 0 @ rs), w')"
    and "length rs = length fds" "0 \<le> n"
  shows "Poll_any os fds ev t w
    = (Inr (if n = 0 then None else map_option fst (find (\<lambda>(fd, r). r \<noteq> 0) (zip fds rs))), w')"
proof -
  have "map_option pfd_fd (find (\<lambda>p. pfd_revents p \<noteq> 0)
        (set_revents (poll_entries fds ev) (replicate (length fds) 0 @ rs)))
      = map_option fst (find (\<lambda>(fd, r). r \<noteq> 0) (zip fds rs))"
    using assms(2) find_entries [of fds rs ev]
    by (simp add: poll_entries_def find_zero_entries list_all_iff)
  with assms show ?thesis
    by (auto simp: Poll_any_def Let_def io_simps split: option.splits)
qed

text \<open>When descriptor 0 reports anything, \<open>Poll\<close> returns it, although it is not in the list.\<close>

lemma Poll_any_stdin:
  assumes "sys_poll os (poll_entries fds ev) (to_int t) w = ((n, r # rs), w')"
    and "r \<noteq> 0" "0 < n" "fds \<noteq> []"
  shows "Poll_any os fds ev t w = (Inr (Some 0), w')"
  using assms by (cases fds) (simp_all add: Poll_any_def Let_def io_simps poll_entries_def
      set_revents_def)

section \<open>Descriptors of the source address lookup\<close>

text \<open>
  \<open>opened w\<close> is the set of the descriptors that are open in the world \<open>w\<close>: \<open>socket\<close> opens a new one
  or fails, \<open>close\<close> closes one, the other calls open and close nothing.
\<close>

definition tracks_descriptors :: "'w os \<Rightarrow> ('w \<Rightarrow> int set) \<Rightarrow> bool" where
  "tracks_descriptors os opened \<longleftrightarrow>
     (\<forall>d ty p w fd w'. sys_socket os d ty p w = (fd, w') \<longrightarrow>
        fd \<notin> opened w \<and> opened w' = (if 0 \<le> fd then insert fd (opened w) else opened w))
     \<and> (\<forall>fd w. opened (snd (sys_close os fd w)) = opened w - {fd})
     \<and> (\<forall>fd l opt v w. opened (snd (sys_setsockopt os fd l opt v w)) = opened w)
     \<and> (\<forall>fd a n w. opened (snd (sys_connect os fd a n w)) = opened w)
     \<and> (\<forall>w. opened (snd (sys_uninit32 os w)) = opened w)
     \<and> (\<forall>fd n w. opened (snd (sys_getsockname os fd n w)) = opened w)"

lemma resolveSourceAddress_descriptors:
  assumes tracks: "tracks_descriptors os opened"
    and sock: "sys_socket os (family destination) 2 IPPROTO_UDP w = (fd, w1)" "0 \<le> fd"
    and run: "resolveSourceAddress os destination iface w = (r, w')"
  shows "opened w' = (case r of Inl e \<Rightarrow> insert fd (opened w) | Inr a \<Rightarrow> opened w)"
proof -
  have open1: "fd \<notin> opened w" "opened w1 = insert fd (opened w)"
    using tracks sock by (simp_all add: tracks_descriptors_def)
  have [simp]: "opened (snd (sys_setsockopt os d l opt val v)) = opened v"
    "opened (snd (sys_connect os d a n v)) = opened v" "opened (snd (sys_uninit32 os v)) = opened v"
    "opened (snd (sys_getsockname os d m v)) = opened v"
    "opened (snd (sys_close os d v)) = opened v - {d}" for d l opt val v a n m
    using tracks by (simp_all add: tracks_descriptors_def)
  have "opened (snd (resolveSourceAddress os destination iface w))
      = (case fst (resolveSourceAddress os destination iface w) of
           Inl e \<Rightarrow> insert fd (opened w) | Inr a \<Rightarrow> opened w)"
    using open1
    by (cases iface) (simp_all add: resolveSourceAddress_def bindInterface_def io_simps sock(1)
        split_beta)
  with run show ?thesis by simp
qed

end
