(* ===== verification/Packets.thy ===== *)
theory Packets
  imports Checksum Host
begin

text \<open>
  \<open>src/Packet.cpp\<close>, \<open>src/Packet/\<close> and \<open>src/PacketFactory/\<close>: the probe packets and their factories.
  The three subclasses of \<open>Packet\<close> are the constructors of one datatype (the two addresses of the base class and the header), so that the
  virtual methods are functions by cases. \<open>rand()\<close> returns a number that is not negative.
\<close>

section \<open>Packets\<close>

datatype packet =
    IcmpPacket SocketAddress SocketAddress icmp_header
  | TcpPacket SocketAddress SocketAddress tcp_header
  | UdpPacket SocketAddress SocketAddress udp_header

fun getSourceAddress :: "packet \<Rightarrow> SocketAddress" where
  "getSourceAddress (IcmpPacket mSourceAddress _ _) = mSourceAddress"
| "getSourceAddress (TcpPacket mSourceAddress _ _) = mSourceAddress"
| "getSourceAddress (UdpPacket mSourceAddress _ _) = mSourceAddress"

fun getDestinationAddress :: "packet \<Rightarrow> SocketAddress" where
  "getDestinationAddress (IcmpPacket _ mDestinationAddress _) = mDestinationAddress"
| "getDestinationAddress (TcpPacket _ mDestinationAddress _) = mDestinationAddress"
| "getDestinationAddress (UdpPacket _ mDestinationAddress _) = mDestinationAddress"

text \<open>The constructor of the base class.\<close>

definition Packet_ctor :: "SocketAddress \<Rightarrow> SocketAddress \<Rightarrow> exn + unit" where
  "Packet_ctor source destination =
     (if family destination \<noteq> family source
      then Inl (Runtime_error ''source address family doesnt match destination'')
      else Inr ())"

definition getFamily :: "packet \<Rightarrow> int" where
  "getFamily p = family (getSourceAddress p)"

text \<open>The private constructor of \<open>IcmpPacket\<close> leaves the header to the two static members.\<close>

definition IcmpPacket_ctor :: "SocketAddress \<Rightarrow> SocketAddress \<Rightarrow> exn + unit" where
  "IcmpPacket_ctor source destination = Packet_ctor source destination"

definition CreateIcmp4Packet ::
    "'w os \<Rightarrow> SocketAddress \<Rightarrow> SocketAddress \<Rightarrow> ('w, packet) io" where
  "CreateIcmp4Packet os source destination =
     bindE (pureE (IcmpPacket_ctor source destination)) (\<lambda>_.
     bindE (callE (sys_rand os)) (\<lambda>r.
       let h = \<lparr>icmp_type = 8, icmp_code = 0, icmp_checksum = 0,
                icmp_id = htons (of_nat (r mod 65536)), icmp_sequence = 0\<rparr>
       in bindE (pureE (computeICMPHeaderChecksum h)) (\<lambda>c.
            returnE (IcmpPacket source destination (h\<lparr>icmp_checksum := c\<rparr>)))))"

definition CreateIcmp6Packet ::
    "'w os \<Rightarrow> SocketAddress \<Rightarrow> SocketAddress \<Rightarrow> ('w, packet) io" where
  "CreateIcmp6Packet os source destination =
     bindE (pureE (IcmpPacket_ctor source destination)) (\<lambda>_.
     bindE (callE (sys_rand os)) (\<lambda>r.
       returnE (IcmpPacket source destination
         \<lparr>icmp_type = 128, icmp_code = 0, icmp_checksum = 0,
          icmp_id = htons (of_nat (r mod 65536)), icmp_sequence = 0\<rparr>)))"

text \<open>\<open>urg_ptr\<close> is the one field that the constructor does not assign.\<close>

definition TcpPacket_ctor ::
    "'w os \<Rightarrow> SocketAddress \<Rightarrow> SocketAddress \<Rightarrow> int \<Rightarrow> ('w, packet) io" where
  "TcpPacket_ctor os source destination dport =
     bindE (pureE (Packet_ctor source destination)) (\<lambda>_.
     bindE (callE (sys_uninit16 os)) (\<lambda>urg.
     bindE (callE (sys_rand os)) (\<lambda>r1.
     bindE (callE (sys_rand os)) (\<lambda>r2.
       let h = \<lparr>tcp_source = htons (of_nat (50000 + r1 mod 15001)),
                tcp_dest = htons (word_of_int dport),
                tcp_seq = htonl (of_nat (r2 mod 65001)), tcp_ack_seq = 0,
                th_x2 = 0, th_off = 5, th_flags = 0x02, tcp_window = htons 5760,
                tcp_check = 0, tcp_urg_ptr = urg\<rparr>
       in if isV4 source
          then bindE (pureE (computeTCPHeaderChecksum h source destination)) (\<lambda>c.
                 returnE (TcpPacket source destination (h\<lparr>tcp_check := c\<rparr>)))
          else returnE (TcpPacket source destination h)))))"

definition UdpPacket_ctor ::
    "'w os \<Rightarrow> SocketAddress \<Rightarrow> SocketAddress \<Rightarrow> int \<Rightarrow> ('w, packet) io" where
  "UdpPacket_ctor os source destination dport =
     bindE (pureE (Packet_ctor source destination)) (\<lambda>_.
     bindE (callE (sys_rand os)) (\<lambda>r.
       let h = \<lparr>udp_source = htons (of_nat (50000 + r mod 15001)),
                udp_dest = htons (word_of_int dport),
                udp_len = htons (of_nat sizeof_UdpHeader), udp_check = 0\<rparr>
       in if isV4 source
          then bindE (pureE (computeUdpHeaderChecksum h source destination)) (\<lambda>c.
                 returnE (UdpPacket source destination (h\<lparr>udp_check := c\<rparr>)))
          else returnE (UdpPacket source destination h)))"

text \<open>The virtual method \<open>serialize\<close> and its three overriders.\<close>

definition IcmpPacket_serialize :: "icmp_header \<Rightarrow> byte list" where
  [simp]: "IcmpPacket_serialize mIcmpHeader = serialize_icmp mIcmpHeader"

definition TcpPacket_serialize :: "tcp_header \<Rightarrow> byte list" where
  [simp]: "TcpPacket_serialize mTcpHeader = serialize_tcp mTcpHeader"

definition UdpPacket_serialize :: "udp_header \<Rightarrow> byte list" where
  [simp]: "UdpPacket_serialize mUdpHeader = serialize_udp mUdpHeader"

fun serialize :: "packet \<Rightarrow> byte list" where
  "serialize (IcmpPacket _ _ h) = IcmpPacket_serialize h"
| "serialize (TcpPacket _ _ h) = TcpPacket_serialize h"
| "serialize (UdpPacket _ _ h) = UdpPacket_serialize h"

section \<open>Factories\<close>

datatype packet_factory =
    IcmpPacketFactory SocketAddress SocketAddress
  | TcpPacketFactory SocketAddress SocketAddress int
  | UdpPacketFactory SocketAddress SocketAddress int

type_synonym 'w IPacketFactory = "('w, packet) io"

definition IcmpPacketFactory_createPacket ::
    "'w os \<Rightarrow> SocketAddress \<Rightarrow> SocketAddress \<Rightarrow> 'w IPacketFactory" where
  "IcmpPacketFactory_createPacket os mSource mDestination =
     (if isV4 mSource then CreateIcmp4Packet os mSource mDestination
      else CreateIcmp6Packet os mSource mDestination)"

definition TcpPacketFactory_createPacket ::
    "'w os \<Rightarrow> SocketAddress \<Rightarrow> SocketAddress \<Rightarrow> int \<Rightarrow> 'w IPacketFactory" where
  "TcpPacketFactory_createPacket os mSource mDestination mDport =
     TcpPacket_ctor os mSource mDestination mDport"

definition UdpPacketFactory_createPacket ::
    "'w os \<Rightarrow> SocketAddress \<Rightarrow> SocketAddress \<Rightarrow> int \<Rightarrow> 'w IPacketFactory" where
  "UdpPacketFactory_createPacket os mSource mDestination mDport =
     UdpPacket_ctor os mSource mDestination mDport"

fun createPacket :: "'w os \<Rightarrow> packet_factory \<Rightarrow> 'w IPacketFactory" where
  "createPacket os (IcmpPacketFactory src dst) = IcmpPacketFactory_createPacket os src dst"
| "createPacket os (TcpPacketFactory src dst dport) = TcpPacketFactory_createPacket os src dst dport"
| "createPacket os (UdpPacketFactory src dst dport) = UdpPacketFactory_createPacket os src dst dport"

fun factory_source :: "packet_factory \<Rightarrow> SocketAddress" where
  "factory_source (IcmpPacketFactory src dst) = src"
| "factory_source (TcpPacketFactory src dst dport) = src"
| "factory_source (UdpPacketFactory src dst dport) = src"

fun factory_destination :: "packet_factory \<Rightarrow> SocketAddress" where
  "factory_destination (IcmpPacketFactory src dst) = dst"
| "factory_destination (TcpPacketFactory src dst dport) = dst"
| "factory_destination (UdpPacketFactory src dst dport) = dst"

section \<open>What a constructor builds\<close>

lemma Packet_ctor_Inr: "Packet_ctor s d = Inr u \<longleftrightarrow> family d = family s"
  by (simp add: Packet_ctor_def)

lemma Packet_ctor_Inl:
  "Packet_ctor s d = Inl e \<longleftrightarrow> family d \<noteq> family s
     \<and> e = Runtime_error ''source address family doesnt match destination''"
  by (auto simp: Packet_ctor_def)

lemmas ctor_defs = IcmpPacketFactory_createPacket_def TcpPacketFactory_createPacket_def
  UdpPacketFactory_createPacket_def IcmpPacket_ctor_def CreateIcmp4Packet_def CreateIcmp6Packet_def TcpPacket_ctor_def
  UdpPacket_ctor_def

text \<open>A mismatch of families is the only way a factory fails, and it acts before any effect.\<close>

lemma createPacket_Inl:
  assumes "createPacket os f w = (Inl e, w')"
  shows "e = Runtime_error ''source address family doesnt match destination'' \<and> w' = w
     \<and> family (factory_destination f) \<noteq> family (factory_source f)"
  using assms
  by (cases f)
    (auto simp: ctor_defs io_simps Packet_ctor_def Let_def split: if_splits sum.splits)

lemma createPacket_addresses:
  assumes "createPacket os f w = (Inr p, w')"
  shows "getDestinationAddress p = factory_destination f \<and> getSourceAddress p = factory_source f
     \<and> family (factory_destination f) = family (factory_source f)"
  using assms
  by (cases f)
    (auto simp: ctor_defs io_simps Packet_ctor_def Let_def split: if_splits sum.splits)

lemma createPacket_mismatch:
  "family (factory_destination f) \<noteq> family (factory_source f) \<Longrightarrow>
     createPacket os f w =
       (Inl (Runtime_error ''source address family doesnt match destination''), w)"
  by (cases f) (simp_all add: ctor_defs io_simps Packet_ctor_def)

text \<open>
  The shape of a probe on the wire: an echo request, a SYN segment from an ephemeral port without
  options, or an empty datagram from an ephemeral port, with a checksum that a receiver verifies.
  With IPv6 the kernel fills the checksum in, and the field is zero.
\<close>

fun wf_packet :: "packet \<Rightarrow> bool" where
  "wf_packet (IcmpPacket s d h) \<longleftrightarrow>
     family d = family s \<and> icmp_code h = 0 \<and> icmp_sequence h = 0
     \<and> (if isV4 s then icmp_type h = 8 \<and> oc16 (word_sum (serialize_icmp h)) = 65535
        else icmp_type h = 128 \<and> icmp_checksum h = 0)"
| "wf_packet (TcpPacket s d h) \<longleftrightarrow>
     family d = family s \<and> unat (htons (tcp_source h)) \<in> {50000..65000}
     \<and> unat (ntohl (tcp_seq h)) < 65001 \<and> tcp_ack_seq h = 0
     \<and> th_off h = 5 \<and> th_x2 h = 0 \<and> th_flags h = 2
     \<and> (if isV4 s then oc16 (pseudo_sum 6 20 s d + word_sum (serialize_tcp h)) = 65535
        else tcp_check h = 0)"
| "wf_packet (UdpPacket s d h) \<longleftrightarrow>
     family d = family s \<and> unat (htons (udp_source h)) \<in> {50000..65000}
     \<and> unat (htons (udp_len h)) = length (serialize_udp h)
     \<and> (if isV4 s then oc16 (pseudo_sum 17 8 s d + word_sum (serialize_udp h)) = 65535
        else udp_check h = 0)"

lemma icmp_checksum_verifies:
  "computeICMPHeaderChecksum h = Inr c \<Longrightarrow>
     oc16 (word_sum (serialize_icmp (h\<lparr>icmp_checksum := c\<rparr>))) = 65535"
  using icmp_checksum_value [of h] by (auto simp: word_sum_icmp [of c h] oc16_complement)

lemma tcp_checksum_verifies:
  "computeTCPHeaderChecksum h s d = Inr c \<Longrightarrow> isV4 s \<Longrightarrow>
     oc16 (pseudo_sum 6 20 s d + word_sum (serialize_tcp (h\<lparr>tcp_check := c\<rparr>))) = 65535"
  using tcp_checksum_value [of s h d]
  by (auto simp: word_sum_tcp [of c h] oc16_complement simp flip: add.assoc)

lemma udp_checksum_verifies:
  "computeUdpHeaderChecksum h s d = Inr c \<Longrightarrow> isV4 s \<Longrightarrow>
     oc16 (pseudo_sum 17 8 s d + word_sum (serialize_udp (h\<lparr>udp_check := c\<rparr>))) = 65535"
  using udp_checksum_value [of s h d]
  by (auto simp: word_sum_udp [of c h] oc16_complement simp flip: add.assoc)

lemma ephemeral_port: "unat (of_nat (50000 + r mod 15001) :: u16) = 50000 + r mod 15001"
proof -
  have "r mod 15001 < 15001" by simp
  then show ?thesis by (simp only: unat_of_nat) simp
qed

lemma initial_seq: "unat (of_nat (r mod 65001) :: u32) = r mod 65001"
proof -
  have "r mod 65001 < 65001" by simp
  then show ?thesis by (simp only: unat_of_nat) simp
qed

lemma ephemeral_range: "50000 + r mod 15001 \<in> {50000..65000 :: nat}"
proof -
  have "r mod 15001 < 15001" by simp
  then show ?thesis by simp
qed

lemma createPacket_wf_icmp:
  "createPacket os (IcmpPacketFactory s d) w = (Inr p, w') \<Longrightarrow> wf_packet p"
  by (auto simp: ctor_defs io_simps Packet_ctor_def Let_def split: if_splits sum.splits
      dest: icmp_checksum_verifies)

lemma createPacket_wf_tcp:
  "createPacket os (TcpPacketFactory s d dport) w = (Inr p, w') \<Longrightarrow> wf_packet p"
  using ephemeral_range
  by (auto simp: ctor_defs io_simps Packet_ctor_def Let_def ephemeral_port initial_seq
      split: if_splits sum.splits dest: tcp_checksum_verifies simp del: of_nat_add)

lemma createPacket_wf_udp:
  "createPacket os (UdpPacketFactory s d dport) w = (Inr p, w') \<Longrightarrow> wf_packet p"
  using ephemeral_range
  by (auto simp: ctor_defs io_simps Packet_ctor_def Let_def ephemeral_port sizeofs
      split: if_splits sum.splits dest: udp_checksum_verifies simp del: of_nat_add)

section \<open>The interface of a packet factory\<close>

text \<open>
  What the tracers rely on (\<open>IPacketFactory\<close>): every packet is addressed to one target, it is a
  well-formed probe, and creating it never touches memory out of bounds.
\<close>

locale packet_source =
  fixes create :: "('w, packet) io"
    and target :: SocketAddress
  assumes create_target: "create w = (Inr p, w') \<Longrightarrow> getDestinationAddress p = target"
    and create_wf: "create w = (Inr p, w') \<Longrightarrow> wf_packet p"
    and create_no_fault: "create w \<noteq> (Inl Fault, w')"

interpretation factory: packet_source "createPacket os f" "factory_destination f" for os f
proof unfold_locales
  fix w p w'
  assume "createPacket os f w = (Inr p, w')"
  then show "getDestinationAddress p = factory_destination f"
    by (simp add: createPacket_addresses)
  from \<open>createPacket os f w = (Inr p, w')\<close> show "wf_packet p"
    by (cases f) (blast intro: createPacket_wf_icmp createPacket_wf_tcp createPacket_wf_udp)+
qed (auto dest: createPacket_Inl)

end
