(* ===== verification/Validators.thy ===== *)
theory Validators
  imports Packets
begin

text \<open>
  \<open>src/ResponseInfo.cpp\<close> and \<open>src/ResponseValidators/\<close>: whether the bytes that came back answer a
  given probe. The template method \<open>ResponseValidator::isValid\<close> takes the three virtual methods of
  its subclasses as arguments; the locale \<open>response_validator\<close> is the contract those methods meet,
  and each of the four subclasses interprets it.

  A response is a pointer into the receive buffer, that is the bytes from there to the end of the
  buffer, whatever of them belongs to the datagram: \<open>ri_size\<close> says how much was received.
\<close>

section \<open>Response descriptions\<close>

record ResponseInfo =
  ri_client :: SocketAddress
  ri_protocol :: int
  ri_size :: u64

definition ResponseInfo_ctor :: "SocketAddress \<Rightarrow> int \<Rightarrow> u64 \<Rightarrow> ResponseInfo" where
  [simp]: "ResponseInfo_ctor client protocol sz =
     \<lparr>ri_client = client, ri_protocol = protocol, ri_size = sz\<rparr>"

text \<open>\<open>IValidateResponse\<close> has one method: a verdict on a described response, or an exception.\<close>

type_synonym IValidateResponse = "ResponseInfo \<Rightarrow> mem \<Rightarrow> exn + bool"

section \<open>Common operations (common.cpp)\<close>

definition getIpHeaderSize :: "mem \<Rightarrow> exn + u64" where
  "getIpHeaderSize ipHdr =
     bindS (ip_version_at ipHdr) (\<lambda>version.
       if version = 4 then bindS (ip4_ihl_at ipHdr) (\<lambda>ihl. Inr (push_bit 2 (ucast ihl)))
       else if version = 6 then Inr (of_nat sizeof_Ipv6Header)
       else Inl (Runtime_error ''Response does not contain valid ipHeader''))"

definition isIpHeaderPresent :: "ResponseInfo \<Rightarrow> mem \<Rightarrow> exn + bool" where
  "isIpHeaderPresent info response =
     (if ri_size info < 1
      then Inl (Runtime_error ''Response does not contain an ipHeader'')
      else bindS (ip_version_at response) (\<lambda>version. Inr (version = 4 \<or> version = 6)))"

definition skipIpHeader :: "ResponseInfo \<Rightarrow> mem \<Rightarrow> exn + (ResponseInfo \<times> mem)" where
  "skipIpHeader info response =
     bindS (getIpHeaderSize response) (\<lambda>headerSize.
       Inr (info\<lparr>ri_size := ri_size info - headerSize\<rparr>, drop (unat headerSize) response))"

definition validateSameSequence :: "mem \<Rightarrow> tcp_header \<Rightarrow> exn + bool" where
  "validateSameSequence tcpReply tcpEcho =
     bindS (tcp_seq_at tcpReply) (\<lambda>s. Inr (s = tcp_seq tcpEcho))"

definition validateSession :: "mem \<Rightarrow> icmp_header \<Rightarrow> exn + bool" where
  "validateSession icmpReply icmpEcho =
     bindS (icmp_id_at icmpReply) (\<lambda>i. Inr (i = icmp_id icmpEcho))"

definition getIcmpType :: "mem \<Rightarrow> exn + int" where
  "getIcmpType icmpHeader = bindS (icmp_type_at icmpHeader) (\<lambda>t. Inr (uint t))"

section \<open>The template method\<close>

definition ResponseValidator_isValid ::
    "(int \<Rightarrow> bool) \<Rightarrow> (u64 \<Rightarrow> bool) \<Rightarrow> (ResponseInfo \<Rightarrow> mem \<Rightarrow> exn + bool)
       \<Rightarrow> ResponseInfo \<Rightarrow> mem \<Rightarrow> exn + bool" where
  "ResponseValidator_isValid validateProtocol validateSize validateFields info response =
     (let validateAll = (\<lambda>respInfo resp.
            if \<not> validateProtocol (ri_protocol respInfo) then Inr False
            else if \<not> validateSize (ri_size respInfo) then Inr False
            else validateFields respInfo resp)
      in bindS (isIpHeaderPresent info response) (\<lambda>present.
           if present
           then bindS (skipIpHeader info response) (\<lambda>(newInfo, newResponse).
                  validateAll newInfo newResponse)
           else validateAll info response))"

text \<open>
  The class \<open>ResponseValidator\<close> is the record of its virtual methods, which the constructors of its
  subclasses fill in; its public method is the template method on them.
\<close>

record ResponseValidator =
  validateProtocol_of :: "int \<Rightarrow> bool"
  validateSize_of :: "u64 \<Rightarrow> bool"
  validateFields_of :: IValidateResponse

definition isValid_of :: "ResponseValidator \<Rightarrow> IValidateResponse" where
  "isValid_of V =
     ResponseValidator_isValid (validateProtocol_of V) (validateSize_of V) (validateFields_of V)"

section \<open>Validation of answers to an ICMP echo request\<close>

abbreviation (input) ICMP_ECHOREPLY :: int where "ICMP_ECHOREPLY \<equiv> 0"
abbreviation (input) ICMP_DEST_UNREACH :: int where "ICMP_DEST_UNREACH \<equiv> 3"
abbreviation (input) ICMP_TIME_EXCEEDED :: int where "ICMP_TIME_EXCEEDED \<equiv> 11"
abbreviation (input) ICMP6_DST_UNREACH :: int where "ICMP6_DST_UNREACH \<equiv> 1"
abbreviation (input) ICMP6_TIME_EXCEEDED :: int where "ICMP6_TIME_EXCEEDED \<equiv> 3"
abbreviation (input) ICMP6_ECHO_REPLY :: int where "ICMP6_ECHO_REPLY \<equiv> 129"

definition Icmp_validateEchoReply ::
    "mem \<Rightarrow> SocketAddress \<Rightarrow> icmp_header \<Rightarrow> SocketAddress \<Rightarrow> exn + bool" where
  "Icmp_validateEchoReply icmpHeader dest hdr client =
     (if addr_eq client dest then validateSession icmpHeader hdr else Inr False)"

definition Icmp_validateTimeExceeded :: "mem \<Rightarrow> icmp_header \<Rightarrow> exn + bool" where
  "Icmp_validateTimeExceeded icmpHeader hdr =
     (let ipHeader = drop sizeof_IcmpHeader icmpHeader
      in bindS (getIpHeaderSize ipHeader) (\<lambda>n. validateSession (drop (unat n) ipHeader) hdr))"

definition Icmp_validateFields ::
    "SocketAddress \<Rightarrow> icmp_header \<Rightarrow> ResponseInfo \<Rightarrow> mem \<Rightarrow> exn + bool" where
  "Icmp_validateFields dest hdr info response =
     bindS (getIcmpType response) (\<lambda>ty.
       if ty = ICMP_ECHOREPLY \<or> ty = ICMP6_ECHO_REPLY
       then Icmp_validateEchoReply response dest hdr (ri_client info)
       else if ty = ICMP_TIME_EXCEEDED \<or> ty = ICMP6_TIME_EXCEEDED
       then Icmp_validateTimeExceeded response hdr
       else Inr False)"

definition Icmp_validateSize :: "u64 \<Rightarrow> bool" where
  "Icmp_validateSize n \<longleftrightarrow> n \<ge> of_nat sizeof_IcmpHeader"

definition Icmp_validateProtocol :: "int \<Rightarrow> bool" where
  "Icmp_validateProtocol protocol \<longleftrightarrow> protocol = IPPROTO_ICMP \<or> protocol = IPPROTO_ICMPV6"

definition IcmpResponseValidator :: "SocketAddress \<Rightarrow> icmp_header \<Rightarrow> ResponseValidator" where
  "IcmpResponseValidator dest hdr =
     \<lparr>validateProtocol_of = Icmp_validateProtocol, validateSize_of = Icmp_validateSize,
      validateFields_of = Icmp_validateFields dest hdr\<rparr>"

section \<open>Validation of ICMP errors that quote a TCP segment\<close>

definition advanceToTcpHeader :: "mem \<Rightarrow> exn + mem" where
  "advanceToTcpHeader icmpHeader =
     (let p = drop sizeof_IcmpHeader icmpHeader
      in bindS (getIpHeaderSize p) (\<lambda>n. Inr (drop (unat n) p)))"

definition Tcp_validateDestUnreach ::
    "mem \<Rightarrow> SocketAddress \<Rightarrow> tcp_header \<Rightarrow> SocketAddress \<Rightarrow> exn + bool" where
  "Tcp_validateDestUnreach icmpHeader dest hdr client =
     (if addr_eq client dest
      then bindS (advanceToTcpHeader icmpHeader) (\<lambda>tcpHeader. validateSameSequence tcpHeader hdr)
      else Inr False)"

definition Tcp_validateTimeExceeded :: "mem \<Rightarrow> tcp_header \<Rightarrow> exn + bool" where
  "Tcp_validateTimeExceeded icmpHeader hdr =
     bindS (advanceToTcpHeader icmpHeader) (\<lambda>tcpHeader. validateSameSequence tcpHeader hdr)"

definition IcmpToTcp_validateFields ::
    "SocketAddress \<Rightarrow> tcp_header \<Rightarrow> ResponseInfo \<Rightarrow> mem \<Rightarrow> exn + bool" where
  "IcmpToTcp_validateFields dest hdr info response =
     (let client = ri_client info in
      if isV4 client
      then bindS (getIcmpType response) (\<lambda>ty.
        if ty = ICMP_DEST_UNREACH then Tcp_validateDestUnreach response dest hdr client
        else if ty = ICMP_TIME_EXCEEDED then Tcp_validateTimeExceeded response hdr
        else Inr False)
      else bindS (getIcmpType response) (\<lambda>ty.
        if ty = ICMP6_DST_UNREACH then Tcp_validateDestUnreach response dest hdr client
        else if ty = ICMP6_TIME_EXCEEDED then Tcp_validateTimeExceeded response hdr
        else Inr False))"

definition IcmpToTcp_validateSize :: "u64 \<Rightarrow> bool" where
  "IcmpToTcp_validateSize n \<longleftrightarrow> n \<ge> of_nat sizeof_IcmpHeader + of_nat sizeof_TcpHeader"

definition IcmpToTcp_validateProtocol :: "int \<Rightarrow> bool" where
  "IcmpToTcp_validateProtocol protocol \<longleftrightarrow> protocol = IPPROTO_ICMP \<or> protocol = IPPROTO_ICMPV6"

definition IcmpToTcpResponseValidator :: "SocketAddress \<Rightarrow> tcp_header \<Rightarrow> ResponseValidator" where
  "IcmpToTcpResponseValidator dest hdr =
     \<lparr>validateProtocol_of = IcmpToTcp_validateProtocol, validateSize_of = IcmpToTcp_validateSize,
      validateFields_of = IcmpToTcp_validateFields dest hdr\<rparr>"

section \<open>Validation of TCP answers to a SYN\<close>

definition TcpToTcp_validateFields ::
    "SocketAddress \<Rightarrow> tcp_header \<Rightarrow> ResponseInfo \<Rightarrow> mem \<Rightarrow> exn + bool" where
  "TcpToTcp_validateFields dest hdr info response =
     (if addr_eq dest (ri_client info)
      then bindS (tcp_ack_seq_at response) (\<lambda>raw_ack.
             let sq = ntohl (tcp_seq hdr); ack_seq = ntohl raw_ack
             in if ack_seq - 1 = sq then Inr True else Inr False)
      else Inr False)"

definition TcpToTcp_validateSize :: "u64 \<Rightarrow> bool" where
  "TcpToTcp_validateSize n \<longleftrightarrow> n \<ge> of_nat sizeof_TcpHeader"

definition TcpToTcp_validateProtocol :: "int \<Rightarrow> bool" where
  "TcpToTcp_validateProtocol protocol \<longleftrightarrow> protocol = IPPROTO_TCP"

definition TcpToTcpResponseValidator :: "SocketAddress \<Rightarrow> tcp_header \<Rightarrow> ResponseValidator" where
  "TcpToTcpResponseValidator dest hdr =
     \<lparr>validateProtocol_of = TcpToTcp_validateProtocol, validateSize_of = TcpToTcp_validateSize,
      validateFields_of = TcpToTcp_validateFields dest hdr\<rparr>"

text \<open>
  \<open>TcpResponseValidator\<close> owns one validator for each kind of answer and dispatches on the protocol of
  the socket.
\<close>

record TcpResponseValidator =
  mTcpToTcpValidator :: IValidateResponse
  mIcmpToTcpValidator :: IValidateResponse

definition TcpResponseValidator_ctor :: "SocketAddress \<Rightarrow> tcp_header \<Rightarrow> TcpResponseValidator" where
  "TcpResponseValidator_ctor dest hdr =
     \<lparr>mTcpToTcpValidator = isValid_of (TcpToTcpResponseValidator dest hdr),
      mIcmpToTcpValidator = isValid_of (IcmpToTcpResponseValidator dest hdr)\<rparr>"

definition TcpResponseValidator_isValid :: "TcpResponseValidator \<Rightarrow> IValidateResponse" where
  "TcpResponseValidator_isValid V info response =
     (let protocol = ri_protocol info in
      if protocol = IPPROTO_ICMP \<or> protocol = IPPROTO_ICMPV6
      then mIcmpToTcpValidator V info response
      else if protocol = IPPROTO_TCP
      then mTcpToTcpValidator V info response
      else Inr False)"

section \<open>Validation of ICMP errors that answer a UDP probe\<close>

definition Udp_validateFields ::
    "SocketAddress \<Rightarrow> ResponseInfo \<Rightarrow> mem \<Rightarrow> exn + bool" where
  "Udp_validateFields dest info response =
     (let client = ri_client info in
      bindS (icmp_type_at response) (\<lambda>headerType.
        if isV4 client
        then (if addr_eq dest client
              then Inr (uint headerType = ICMP_DEST_UNREACH)
              else Inr (uint headerType = ICMP_TIME_EXCEEDED))
        else (if addr_eq dest client
              then Inr (uint headerType = ICMP6_DST_UNREACH)
              else Inr (uint headerType = ICMP6_TIME_EXCEEDED))))"

definition Udp_validateProtocol :: "int \<Rightarrow> bool" where
  "Udp_validateProtocol protocol \<longleftrightarrow> protocol = IPPROTO_ICMP \<or> protocol = IPPROTO_ICMPV6"

definition Udp_validateSize :: "u64 \<Rightarrow> bool" where
  "Udp_validateSize n \<longleftrightarrow> n \<ge> of_nat sizeof_IcmpHeader + of_nat sizeof_UdpHeader"

definition UdpResponseValidator :: "SocketAddress \<Rightarrow> ResponseValidator" where
  "UdpResponseValidator dest =
     \<lparr>validateProtocol_of = Udp_validateProtocol, validateSize_of = Udp_validateSize,
      validateFields_of = Udp_validateFields dest\<rparr>"

section \<open>The packets as validators of their responses\<close>

definition IcmpPacket_isValid :: "SocketAddress \<Rightarrow> icmp_header \<Rightarrow> IValidateResponse" where
  "IcmpPacket_isValid dest hdr = isValid_of (IcmpResponseValidator dest hdr)"

definition TcpPacket_isValid :: "SocketAddress \<Rightarrow> tcp_header \<Rightarrow> IValidateResponse" where
  "TcpPacket_isValid dest hdr = TcpResponseValidator_isValid (TcpResponseValidator_ctor dest hdr)"

definition UdpPacket_isValid :: "SocketAddress \<Rightarrow> IValidateResponse" where
  "UdpPacket_isValid dest = isValid_of (UdpResponseValidator dest)"

text \<open>The virtual method \<open>IValidateResponse::isValid\<close> of a packet.\<close>

fun packet_isValid :: "packet \<Rightarrow> IValidateResponse" where
  "packet_isValid (IcmpPacket s d h) = IcmpPacket_isValid d h"
| "packet_isValid (TcpPacket s d h) = TcpPacket_isValid d h"
| "packet_isValid (UdpPacket s d h) = UdpPacket_isValid d"

declare packet_isValid.simps [simp del]

text \<open>The verdict of each kind of packet, down to the template method.\<close>

lemma packet_isValid_cases [simp]:
  "packet_isValid (IcmpPacket s d h) info response =
     ResponseValidator_isValid Icmp_validateProtocol Icmp_validateSize
       (Icmp_validateFields d h) info response"
  "packet_isValid (TcpPacket s d t) info response =
     (if ri_protocol info = IPPROTO_ICMP \<or> ri_protocol info = IPPROTO_ICMPV6
      then ResponseValidator_isValid IcmpToTcp_validateProtocol IcmpToTcp_validateSize
             (IcmpToTcp_validateFields d t) info response
      else if ri_protocol info = IPPROTO_TCP
      then ResponseValidator_isValid TcpToTcp_validateProtocol TcpToTcp_validateSize
             (TcpToTcp_validateFields d t) info response
      else Inr False)"
  "packet_isValid (UdpPacket s d u) info response =
     ResponseValidator_isValid Udp_validateProtocol Udp_validateSize
       (Udp_validateFields d) info response"
  by (simp_all add: packet_isValid.simps IcmpPacket_isValid_def TcpPacket_isValid_def
      UdpPacket_isValid_def TcpResponseValidator_isValid_def TcpResponseValidator_ctor_def Let_def
      isValid_of_def IcmpResponseValidator_def TcpToTcpResponseValidator_def
      IcmpToTcpResponseValidator_def UdpResponseValidator_def)

section \<open>The IP header in front of a response\<close>

lemma ip_version_at_eq_Inl: "ip_version_at p = Inl e \<longleftrightarrow> e = Fault \<and> p = []"
  by (auto simp: ip_version_at_def bindS_eq_Inl bytes_simps)

lemma getIpHeaderSize_le: "getIpHeaderSize p = Inr n \<Longrightarrow> unat n \<le> 60"
proof -
  assume "getIpHeaderSize p = Inr n"
  then consider (v4) ihl :: u4 where "n = push_bit 2 (ucast ihl)" | (v6) "n = 40"
    by (auto simp: getIpHeaderSize_def bindS_eq_Inr sizeofs split: if_splits)
  then show ?thesis
  proof cases
    case v4
    have "unat ihl < 16" using unsigned_less [of ihl, where 'a = nat] by simp
    then show ?thesis
      by (simp add: v4 push_bit_eq_mult unat_word_ariths unat_ucast_up)
  qed simp
qed

lemma getIpHeaderSize_eq_Inl:
  "getIpHeaderSize p = Inl e \<Longrightarrow>
     p = [] \<and> e = Fault \<or> e = Runtime_error ''Response does not contain valid ipHeader''"
  by (cases p)
    (auto simp: getIpHeaderSize_def bindS_eq_Inl ip_version_at_eq_Inl ip4_ihl_at_def bytes_simps
      split: if_splits)

lemma skip_drop:
  "getIpHeaderSize p = Inr n \<Longrightarrow> length p - 60 \<le> length (drop (unat n) p)"
  using getIpHeaderSize_le [of p n] by simp

section \<open>The contract of the virtual methods\<close>

text \<open>
  \<open>validates_response\<close> is the interface \<open>IValidateResponse\<close>: given \<open>window\<close> bytes of buffer, a
  verdict, or one of two exceptions. \<open>response_validator\<close> is the interface between the template
  method and a subclass:
  \<open>reach\<close> is how far behind the pointer \<open>validateFields\<close> reads. The only exception it raises is
  the one of \<open>getIpHeaderSize\<close>.
\<close>

locale validates_response =
  fixes check :: "ResponseInfo \<Rightarrow> mem \<Rightarrow> exn + bool"
    and window :: nat
  assumes check_error: "check info resp = Inl e \<Longrightarrow> window \<le> length resp \<Longrightarrow>
      e = Runtime_error ''Response does not contain an ipHeader'' \<and> ri_size info = 0
      \<or> e = Runtime_error ''Response does not contain valid ipHeader''"
begin

lemma check_no_fault: "window \<le> length resp \<Longrightarrow> check info resp \<noteq> Inl Fault"
  using check_error [of info resp Fault] by auto

end

locale response_validator =
  fixes vProtocol :: "int \<Rightarrow> bool"
    and vSize :: "u64 \<Rightarrow> bool"
    and vFields :: "ResponseInfo \<Rightarrow> mem \<Rightarrow> exn + bool"
    and reach :: nat
  assumes fields_error: "vFields info resp = Inl e \<Longrightarrow>
      e = Fault \<and> length resp < reach
      \<or> e = Runtime_error ''Response does not contain valid ipHeader''"
    and reach_pos: "0 < reach"
begin

lemma isValid_error:
  assumes "ResponseValidator_isValid vProtocol vSize vFields info resp = Inl e"
    and "60 + reach \<le> length resp"
  shows "e = Runtime_error ''Response does not contain an ipHeader'' \<and> ri_size info = 0
    \<or> e = Runtime_error ''Response does not contain valid ipHeader''"
proof -
  have "resp \<noteq> []" using assms(2) reach_pos by auto
  then have present: "isIpHeaderPresent info resp = Inl d \<Longrightarrow>
      d = Runtime_error ''Response does not contain an ipHeader'' \<and> ri_size info = 0" for d
    by (auto simp: isIpHeaderPresent_def bindS_eq_Inl ip_version_at_eq_Inl split: if_splits)
  have skip: "skipIpHeader info resp = Inl d \<Longrightarrow>
      d = Runtime_error ''Response does not contain valid ipHeader''" for d
    using \<open>resp \<noteq> []\<close>
    by (auto simp: skipIpHeader_def bindS_eq_Inl dest: getIpHeaderSize_eq_Inl)
  have fields: "skipIpHeader info resp = Inr (i, r) \<Longrightarrow> vFields i' r = Inl d \<Longrightarrow>
      d = Runtime_error ''Response does not contain valid ipHeader''" for i i' r d
    using fields_error [of i' r d] assms(2)
    by (auto simp: skipIpHeader_def bindS_eq_Inr dest!: getIpHeaderSize_le)
  have direct: "vFields info resp = Inl d \<Longrightarrow>
      d = Runtime_error ''Response does not contain valid ipHeader''" for d
    using fields_error [of info resp d] assms(2) by auto
  from assms(1) show ?thesis
    by (auto simp: ResponseValidator_isValid_def bindS_eq_Inl Let_def
        dest: present skip fields direct split: if_splits)
qed

lemma isValid_protocol:
  "ResponseValidator_isValid vProtocol vSize vFields info resp = Inr True \<Longrightarrow>
     vProtocol (ri_protocol info)"
  by (auto simp: ResponseValidator_isValid_def bindS_eq_Inr Let_def skipIpHeader_def
      split: if_splits)

end

sublocale response_validator \<subseteq> validates_response
  "ResponseValidator_isValid vProtocol vSize vFields" "60 + reach"
  by unfold_locales (rule isValid_error)

lemma drop_nonempty_error:
  "getIpHeaderSize (drop n p) = Inl e \<Longrightarrow>
     length p \<le> n \<and> e = Fault \<or> e = Runtime_error ''Response does not contain valid ipHeader''"
  using getIpHeaderSize_eq_Inl [of "drop n p" e] by auto

interpretation icmp_to_icmp: response_validator
  Icmp_validateProtocol Icmp_validateSize "Icmp_validateFields d h" 76 for d h
proof unfold_locales
  fix info resp e
  assume "Icmp_validateFields d h info resp = Inl e"
  then show "e = Fault \<and> length resp < 76
      \<or> e = Runtime_error ''Response does not contain valid ipHeader''"
    by (auto simp: Icmp_validateFields_def Icmp_validateEchoReply_def
        Icmp_validateTimeExceeded_def validateSession_def getIcmpType_def bindS_eq_Inl sizeofs
        header_reads bytes_simps Let_def
        dest!: drop_nonempty_error getIpHeaderSize_le split: if_splits)
qed simp

interpretation icmp_to_tcp: response_validator
  IcmpToTcp_validateProtocol IcmpToTcp_validateSize "IcmpToTcp_validateFields d h" 76 for d h
proof unfold_locales
  fix info resp e
  assume "IcmpToTcp_validateFields d h info resp = Inl e"
  then show "e = Fault \<and> length resp < 76
      \<or> e = Runtime_error ''Response does not contain valid ipHeader''"
    by (auto simp: IcmpToTcp_validateFields_def Tcp_validateDestUnreach_def
        Tcp_validateTimeExceeded_def advanceToTcpHeader_def validateSameSequence_def
        getIcmpType_def bindS_eq_Inl bindS_eq_Inr sizeofs header_reads bytes_simps Let_def
        dest!: drop_nonempty_error getIpHeaderSize_le split: if_splits)
qed simp

interpretation tcp_to_tcp: response_validator
  TcpToTcp_validateProtocol TcpToTcp_validateSize "TcpToTcp_validateFields d h" 76 for d h
  by unfold_locales
    (auto simp: TcpToTcp_validateFields_def bindS_eq_Inl header_reads bytes_simps Let_def
      split: if_splits)

interpretation icmp_to_udp: response_validator
  Udp_validateProtocol Udp_validateSize "Udp_validateFields d" 76 for d
  by unfold_locales
    (auto simp: Udp_validateFields_def bindS_eq_Inl header_reads bytes_simps Let_def
      split: if_splits)

text \<open>Every packet meets the interface, whatever validator it delegates to.\<close>

interpretation probe: validates_response "packet_isValid p" 136 for p
proof unfold_locales
  fix info resp e
  assume e: "packet_isValid p info resp = Inl e" and len: "136 \<le> length (resp :: mem)"
  show "e = Runtime_error ''Response does not contain an ipHeader'' \<and> ri_size info = 0
      \<or> e = Runtime_error ''Response does not contain valid ipHeader''"
  proof (cases p)
    case (IcmpPacket s d h)
    with e len show ?thesis using icmp_to_icmp.check_error by simp
  next
    case (TcpPacket s d h)
    with e len show ?thesis using icmp_to_tcp.check_error tcp_to_tcp.check_error
      by (simp split: if_splits)
  next
    case (UdpPacket s d h)
    with e len show ?thesis using icmp_to_udp.check_error by simp
  qed
qed

text \<open>The two shapes of the template method, with and without an IP header in front.\<close>

lemma isValid_behind_header:
  assumes "ri_size info \<noteq> 0" "ip_version_at resp = Inr v" "v = 4 \<or> v = 6"
    and "getIpHeaderSize resp = Inr n"
  shows "ResponseValidator_isValid vP vS vF info resp =
     (if vP (ri_protocol info) \<and> vS (ri_size info - n)
      then vF (info\<lparr>ri_size := ri_size info - n\<rparr>) (drop (unat n) resp) else Inr False)"
  using assms by (auto simp: ResponseValidator_isValid_def isIpHeaderPresent_def skipIpHeader_def
      word_less_1 Let_def)

lemma isValid_bare:
  assumes "ri_size info \<noteq> 0" "ip_version_at resp = Inr v" "v \<noteq> 4" "v \<noteq> 6"
  shows "ResponseValidator_isValid vP vS vF info resp =
     (if vP (ri_protocol info) \<and> vS (ri_size info) then vF info resp else Inr False)"
  using assms by (auto simp: ResponseValidator_isValid_def isIpHeaderPresent_def word_less_1
      Let_def)

end
