(* ===== verification/Sender.thy ===== *)
theory Sender
  imports Sockets Validators
begin

text \<open>
  \<open>src/DataSender.cpp\<close>: the sender built from the sockets of a provider, sending one packet with a
  given TTL, receiving one datagram from whichever socket is ready. The receive buffer belongs to
  the caller: \<open>tryReceiving\<close> returns it with what the kernel wrote at its start.
\<close>

section \<open>The interface\<close>

text \<open>
  The two methods of \<open>IDataSender\<close>. A pointer to the buffer is its content, which the second returns.
\<close>

type_synonym 'w trySending_method = "packet \<Rightarrow> int \<Rightarrow> int \<Rightarrow> ('w, bool) io"

type_synonym 'w tryReceiving_method =
  "byte list \<Rightarrow> nat \<Rightarrow> int \<Rightarrow> ('w, ResponseInfo option \<times> byte list) io"

section \<open>Construction\<close>

record DataSender =
  fdToProtocol :: "int \<rightharpoonup> int"
  mReceivingSockets :: "int list"
  mSendingSocket :: int
  mFamily :: int

definition add_socket :: "SocketExt \<Rightarrow> DataSender \<Rightarrow> exn + DataSender" where
  "add_socket socExt ds =
     (let fd = sock_fd (se_socket socExt);
          ds1 = (if role_and (se_role socExt) Role_Receive
                 then ds\<lparr>mReceivingSockets := mReceivingSockets ds @ [fd]\<rparr> else ds)
      in bindS (if role_and (se_role socExt) Role_Send
                then (if mSendingSocket ds1 \<noteq> 0
                      then Inl (Invalid_argument
                             ''There can only be one sending socket in DataSender'')
                      else Inr (ds1\<lparr>mSendingSocket := fd\<rparr>))
                else Inr ds1)
           (\<lambda>ds2. Inr (ds2\<lparr>fdToProtocol :=
              (fdToProtocol ds2)(fd \<mapsto> sock_protocol (se_socket socExt))\<rparr>)))"

fun add_sockets :: "SocketExt list \<Rightarrow> DataSender \<Rightarrow> exn + DataSender" where
  "add_sockets [] ds = Inr ds"
| "add_sockets (s # ss) ds = bindS (add_socket s ds) (add_sockets ss)"

definition DataSender_ctor :: "SocketExt list \<Rightarrow> int \<Rightarrow> exn + DataSender" where
  "DataSender_ctor socketsExt fam =
     add_sockets socketsExt
       \<lparr>fdToProtocol = Map.empty, mReceivingSockets = [], mSendingSocket = 0, mFamily = fam\<rparr>"

section \<open>Sending\<close>

definition setTtl :: "'w os \<Rightarrow> DataSender \<Rightarrow> int \<Rightarrow> ('w, unit) io" where
  "setTtl os ds ttl =
     (let level = (if mFamily ds = AF_INET then 0 else 41);
          option = (if mFamily ds = AF_INET then 2 else 16)
      in bindE (callE (sys_setsockopt os (mSendingSocket ds) level option
                  (le32 (word_of_int ttl)))) (\<lambda>r.
           if r < 0 then failE (\<lambda>w. ''Could not set ttl:'' @ errno_string os w)
           else returnE ()))"

definition trySending :: "'w os \<Rightarrow> DataSender \<Rightarrow> 'w trySending_method" where
  "trySending os ds packet ttl timeout =
     bindE (setTtl os ds ttl) (\<lambda>_.
       let address = getDestinationAddress packet in
       if mFamily ds \<noteq> family address
       then throwE (Invalid_argument
              ''Provided address's family doesn't match family of source address'')
       else
         let serializedPacket = serialize packet in
         bindE (Poll_one os (mSendingSocket ds) POLLOUT timeout) (\<lambda>ready.
           if ready
           then bindE (callE (sys_sendto os (mSendingSocket ds) serializedPacket
                         (sockaddrP address) (addr_size address))) (\<lambda>result.
                  if result < 0
                  then failE (\<lambda>w. ''Error occured while sending data '' @ errno_string os w)
                  else returnE (result \<noteq> 0))
           else returnE False))"

section \<open>Receiving\<close>

definition getAnySocketReadyToReceive ::
    "'w os \<Rightarrow> DataSender \<Rightarrow> int \<Rightarrow> ('w, int option) io" where
  "getAnySocketReadyToReceive os ds timeout = Poll_any os (mReceivingSockets ds) POLLIN timeout"

text \<open>The kernel writes the received bytes at the start of the buffer.\<close>

definition write_front :: "byte list \<Rightarrow> byte list \<Rightarrow> byte list" where
  "write_front data buffer = take (length buffer) data @ drop (length data) buffer"

definition tryReceiving :: "'w os \<Rightarrow> DataSender \<Rightarrow> 'w tryReceiving_method" where
  "tryReceiving os ds buffer bufferSize timeout =
     bindE (getAnySocketReadyToReceive os ds timeout) (\<lambda>fdo.
       case fdo of
         Some fd \<Rightarrow>
           bindE (callE (sys_recvfrom os fd bufferSize)) (\<lambda>(size, data, sockaddrStorage).
             if size < 0
             then failE (\<lambda>w. ''Error occured on recvfrom: '' @ errno_string os w)
             else
               (case fdToProtocol ds fd of
                  None \<Rightarrow> throwE (Out_of_range ''map::at'')
                | Some protocol \<Rightarrow>
                    returnE (Some (ResponseInfo_ctor (SocketAddress_of_storage sockaddrStorage)
                                  protocol (word_of_int size)), write_front data buffer)))
       | None \<Rightarrow> returnE (None, buffer))"

section \<open>The interface of a data sender\<close>

text \<open>
  What the tracers rely on (\<open>IDataSender\<close>): receiving keeps the size of the buffer, and neither
  operation touches memory out of bounds.
\<close>

lemma length_write_front [simp]: "length (write_front data buffer) = length buffer"
  by (simp add: write_front_def)

lemma Poll_any_no_fault: "Poll_any os fds ev t w \<noteq> (Inl Fault, w')"
  by (auto simp: Poll_any_def io_simps Let_def split: prod.splits option.splits if_splits)

lemma Poll_one_no_fault: "Poll_one os fd ev t w \<noteq> (Inl Fault, w')"
  by (auto simp: Poll_one_def io_simps split: prod.splits if_splits)

locale data_sender =
  fixes send :: "'w trySending_method"
    and recv :: "'w tryReceiving_method"
  assumes recv_length: "recv buf n t w = (Inr (r, buf'), w') \<Longrightarrow> length buf' = length buf"
    and recv_no_fault: "recv buf n t w \<noteq> (Inl Fault, w')"
    and send_no_fault: "send p ttl t w \<noteq> (Inl Fault, w')"

interpretation sockets: data_sender "trySending os ds" "tryReceiving os ds" for os ds
proof unfold_locales
  fix buf n t w r buf' w'
  assume "tryReceiving os ds buf n t w = (Inr (r, buf'), w')"
  then show "length buf' = length buf"
    by (auto simp: tryReceiving_def io_simps
        split: option.splits if_splits prod.splits sum.splits)
next
  fix buf n t w w'
  show "tryReceiving os ds buf n t w \<noteq> (Inl Fault, w')"
    by (auto simp: Poll_any_no_fault tryReceiving_def getAnySocketReadyToReceive_def io_simps
        split: option.splits if_splits prod.splits sum.splits)
next
  fix p ttl t w w'
  show "trySending os ds p ttl t w \<noteq> (Inl Fault, w')"
    by (auto simp: Poll_one_no_fault trySending_def setTtl_def io_simps Let_def
        split: if_splits prod.splits sum.splits)
qed

section \<open>The sockets of a provider\<close>

definition socket_fd :: "SocketExt \<Rightarrow> int" where
  "socket_fd s = sock_fd (se_socket s)"

lemma roles [simp]:
  "role_and Role_Receive Role_Receive" "\<not> role_and Role_Receive Role_Send"
  "role_and Role_Send Role_Send" "\<not> role_and Role_Send Role_Receive"
  "role_and (role_or Role_Receive Role_Send) Role_Receive"
  "role_and (role_or Role_Receive Role_Send) Role_Send"
  by (simp_all add: role_and_def role_or_def Role_Receive_def Role_Send_def)

text \<open>The protocol a provider's sockets are set up for, in the order it returns them.\<close>

fun provider_protocols :: "socket_provider \<Rightarrow> SocketAddress \<Rightarrow> int list" where
  "provider_protocols IcmpSocketProvider a = [if isV4 a then IPPROTO_ICMP else IPPROTO_ICMPV6]"
| "provider_protocols TcpSocketProvider a =
     [if isV4 a then IPPROTO_ICMP else IPPROTO_ICMPV6, IPPROTO_TCP]"
| "provider_protocols UdpSocketProvider a =
     [if isV4 a then IPPROTO_ICMP else IPPROTO_ICMPV6, IPPROTO_UDP]"

lemma setup_protocols:
  "setupIcmpRawSocket os a iface w = (Inr s, w') \<Longrightarrow>
     sock_protocol s = (if isV4 a then IPPROTO_ICMP else IPPROTO_ICMPV6)"
  "setupTcpRawSocket os a iface w = (Inr s, w') \<Longrightarrow> sock_protocol s = IPPROTO_TCP"
  "setupUdpRawSocket os a iface w = (Inr s, w') \<Longrightarrow> sock_protocol s = IPPROTO_UDP"
  unfolding setupIcmpRawSocket_def setupTcpRawSocket_def setupUdpRawSocket_def Let_def bindE_Inr
  by (auto simp: io_simps split: if_splits)

lemma createSockets_shape:
  assumes "createSockets os prov a iface w = (Inr socks, w')"
  shows "map (\<lambda>s. sock_protocol (se_socket s)) socks = provider_protocols prov a
    \<and> map se_role socks = (case prov of
         IcmpSocketProvider \<Rightarrow> [role_or Role_Receive Role_Send]
       | TcpSocketProvider \<Rightarrow> [Role_Receive, role_or Role_Receive Role_Send]
       | UdpSocketProvider \<Rightarrow> [Role_Receive, Role_Send])"
  using assms
  by (cases prov) (auto simp: IcmpSocketProvider_createSockets_def
      TcpSocketProvider_createSockets_def UdpSocketProvider_createSockets_def bindE_Inr io_run
      setup_protocols)

text \<open>Whatever provider the sockets come from, the sender accepts them.\<close>

lemma DataSender_of_provider:
  assumes "createSockets os prov a iface w = (Inr socks, w')"
  shows "\<exists>ds. DataSender_ctor socks fam = Inr ds \<and> mFamily ds = fam
    \<and> mReceivingSockets ds
        = map socket_fd (filter (\<lambda>s. role_and (se_role s) Role_Receive) socks)
    \<and> mSendingSocket ds = socket_fd (last socks)
    \<and> (distinct (map socket_fd socks) \<longrightarrow>
         map (fdToProtocol ds) (map socket_fd socks) = map Some (provider_protocols prov a))"
proof -
  note shape = createSockets_shape [OF assms]
  show ?thesis
  proof (cases prov)
    case IcmpSocketProvider
    with shape obtain s where "socks = [s]" by (auto simp: map_eq_Cons_conv)
    with shape IcmpSocketProvider show ?thesis
      by (auto simp: DataSender_ctor_def add_socket_def socket_fd_def Let_def)
  next
    case TcpSocketProvider
    with shape obtain s t where "socks = [s, t]" by (auto simp: map_eq_Cons_conv)
    with shape TcpSocketProvider show ?thesis
      by (auto simp: DataSender_ctor_def add_socket_def socket_fd_def Let_def)
  next
    case UdpSocketProvider
    with shape obtain s t where "socks = [s, t]" by (auto simp: map_eq_Cons_conv)
    with shape UdpSocketProvider show ?thesis
      by (auto simp: DataSender_ctor_def add_socket_def socket_fd_def Let_def)
  qed
qed

section \<open>What a receive returns\<close>

lemma write_front_parts:
  "length data \<le> length buf \<Longrightarrow>
     take (length data) (write_front data buf) = data
     \<and> drop (length data) (write_front data buf) = drop (length data) buf"
  by (simp add: write_front_def)

lemma tryReceiving_Some:
  assumes "tryReceiving os ds buf n t w = (Inr (Some info, buf'), w')"
  shows "\<exists>fd size data w1. Poll_any os (mReceivingSockets ds) POLLIN t w = (Inr (Some fd), w1)
    \<and> sys_recvfrom os fd n w1 = ((size, data, ri_client info), w') \<and> 0 \<le> size
    \<and> fdToProtocol ds fd = Some (ri_protocol info) \<and> ri_size info = word_of_int size
    \<and> buf' = write_front data buf"
proof -
  from assms obtain fd w1 where poll:
    "Poll_any os (mReceivingSockets ds) POLLIN t w = (Inr (Some fd), w1)"
    and rest: "bindE (callE (sys_recvfrom os fd n)) (\<lambda>(size, data, sockaddrStorage).
             if size < 0
             then failE (\<lambda>w. ''Error occured on recvfrom: '' @ errno_string os w)
             else
               (case fdToProtocol ds fd of
                  None \<Rightarrow> throwE (Out_of_range ''map::at'')
                | Some protocol \<Rightarrow>
                    returnE (Some (ResponseInfo_ctor (SocketAddress_of_storage sockaddrStorage)
                                  protocol (word_of_int size)), write_front data buf))) w1
        = (Inr (Some info, buf'), w')"
    unfolding tryReceiving_def getAnySocketReadyToReceive_def bindE_Inr
    by (auto simp: io_run bindE_Inr split: option.splits)
  obtain size data a w2 where "sys_recvfrom os fd n w1 = ((size, data, a), w2)"
    by (metis prod.collapse)
  with poll rest show ?thesis
    by (auto simp: io_simps split: if_splits option.splits)
qed

text \<open>An event on descriptor 0 makes every receive fail.\<close>

lemma tryReceiving_stdin:
  assumes "sys_poll os (poll_entries (mReceivingSockets ds) POLLIN) (to_int t) w
      = ((n, r # rs), w1)" "r \<noteq> 0" "0 < n" "mReceivingSockets ds \<noteq> []"
    and "fdToProtocol ds 0 = None" "sys_recvfrom os 0 m w1 = ((len, data, a), w2)"
  shows "tryReceiving os ds buf m t w
    = (Inl (if len < 0 then Runtime_error (''Error occured on recvfrom: '' @ errno_string os w2)
            else Out_of_range ''map::at''), w2)"
  using Poll_any_stdin [OF assms(1-4)] assms(5,6)
  by (simp add: tryReceiving_def getAnySocketReadyToReceive_def io_simps)

end
