(* ===== verification/Doubles.thy ===== *)
theory Doubles
  imports Prelude
begin

text \<open>
  What \<open>Probe.cpp\<close> uses of \<open>double\<close>: the conversion of an integer, a division, and \<open>std::to_string\<close>,
  that is \<open>%f\<close>. A double that is not negative is the fraction it stands for, with a power of two below.
  Its mantissa has 53 bits and the nearest one is taken, in a tie the even one. The values are between
  a thousandth and \<open>2 ^ 63\<close>, or zero: no exponent is out of range.
\<close>

section \<open>Rounding\<close>

text \<open>The integer nearest to \<open>p / q\<close>.\<close>

definition round_even :: "nat \<Rightarrow> nat \<Rightarrow> nat" where
  "round_even p q =
     (let d = p div q; r = p mod q
      in if 2 * r < q \<or> 2 * r = q \<and> even d then d else d + 1)"

lemma round_even_exact [simp]: "round_even p 1 = p" "round_even p (Suc 0) = p"
  by (simp_all add: round_even_def)

lemma round_even_error:
  assumes "0 < q"
  shows "2 * \<bar>int p - int (round_even p q) * int q\<bar> \<le> int q"
proof -
  have parts: "int p = int (p div q) * int q + int (p mod q)"
    by (metis div_mult_mod_eq of_nat_add of_nat_mult)
  have "int (p mod q) < int q" using assms by simp
  moreover have "round_even p q = p div q \<and> 2 * (p mod q) \<le> q
      \<or> round_even p q = p div q + 1 \<and> q \<le> 2 * (p mod q)"
    by (auto simp: round_even_def Let_def)
  ultimately show ?thesis
    unfolding parts by (auto simp: algebra_simps simp flip: of_nat_mult)
qed

lemma round_even_unique:
  assumes "2 * \<bar>int p - int d * int q\<bar> < int q"
  shows "round_even p q = d"
proof -
  have q: "0 < q" using assms by (cases q) auto
  let ?r = "round_even p q"
  have "2 * \<bar>int ?r * int q - int d * int q\<bar> < 2 * int q"
    using assms round_even_error [OF q, of p]
      abs_triangle_ineq4 [of "int p - int d * int q" "int p - int ?r * int q"] by simp
  then have "\<bar>int ?r - int d\<bar> * int q < 1 * int q"
    by (simp add: abs_mult left_diff_distrib [symmetric])
  then have "\<bar>int ?r - int d\<bar> < 1" using q by (simp only: mult_less_cancel_right)
  then show ?thesis by simp
qed

section \<open>Doubles\<close>

text \<open>The number of binary digits.\<close>

fun bits :: "nat \<Rightarrow> nat" where
  "bits n = (if n = 0 then 0 else Suc (bits (n div 2)))"

declare bits.simps [simp del]

definition scaled :: "nat \<Rightarrow> nat \<Rightarrow> int \<Rightarrow> nat \<times> nat" where
  "scaled p q e = (if 0 \<le> e then (p, q * 2 ^ nat e) else (p * 2 ^ nat (- e), q))"

text \<open>The power of two for which the mantissa of \<open>p / q\<close> has 53 bits.\<close>

definition double_exponent :: "nat \<Rightarrow> nat \<Rightarrow> int" where
  "double_exponent p q =
     (let e = int (bits p) - int (bits q) - 53
      in case scaled p q e of (a, b) \<Rightarrow> if a < 2 ^ 53 * b then e else e + 1)"

definition to_double :: "nat \<times> nat \<Rightarrow> nat \<times> nat" where
  "to_double x =
     (case x of (p, q) \<Rightarrow>
        let e = double_exponent p q; m = (case scaled p q e of (a, b) \<Rightarrow> round_even a b)
        in if 0 \<le> e then (m * 2 ^ nat e, 1) else (m, 2 ^ nat (- e)))"

definition double_of_int :: "nat \<Rightarrow> nat \<times> nat" where
  "double_of_int n = to_double (n, 1)"

definition double_div :: "nat \<times> nat \<Rightarrow> nat \<Rightarrow> nat \<times> nat" where
  "double_div x n = (case x of (p, q) \<Rightarrow> to_double (p, q * n))"

text \<open>\<open>%f\<close> writes six decimals of the exact value, rounded in the same way.\<close>

definition pad6 :: "nat \<Rightarrow> string" where
  "pad6 n = map (\<lambda>d. digit (n div d mod 10)) [100000, 10000, 1000, 100, 10, 1]"

definition to_string_double :: "nat \<times> nat \<Rightarrow> string" where
  "to_string_double x =
     (case x of (p, q) \<Rightarrow>
        let n = round_even (p * 1000000) q in dec (n div 1000000) @ ''.'' @ pad6 (n mod 1000000))"

section \<open>Where no digit is lost\<close>

lemma bits_le: "a < 2 ^ n \<Longrightarrow> bits a \<le> n"
proof (induction n arbitrary: a)
  case (Suc n)
  then have "a div 2 < 2 ^ n" by simp
  with Suc.IH [of "a div 2"] show ?case by (simp add: bits.simps [of a])
qed (simp add: bits.simps)

lemma bits_ge: "2 ^ n \<le> a \<Longrightarrow> Suc n \<le> bits a"
proof (induction n arbitrary: a)
  case (Suc n)
  then have "2 ^ n \<le> a div 2" by simp
  moreover have "a \<noteq> 0" using Suc.prems by (intro notI) simp
  ultimately show ?case using Suc.IH [of "a div 2"] by (simp add: bits.simps [of a])
qed (simp add: bits.simps)

lemma double_exponent_le:
  "double_exponent p q \<le> int (bits p) - int (bits q) - 52"
  by (simp add: double_exponent_def Let_def split: prod.split)

text \<open>An integer below \<open>2 ^ 53\<close> is a double.\<close>

lemma double_of_int_exact:
  assumes "a < 2 ^ 53"
  obtains k where "double_of_int a = (a * 2 ^ k, 2 ^ k)"
proof -
  have "double_exponent a 1 \<le> 0"
    using double_exponent_le [of a 1] bits_le [OF assms] bits_ge [of 0 1] by simp
  then show thesis
    using that [of 0] that [of "nat (- double_exponent a 1)"]
    by (cases "double_exponent a 1 = 0") (simp_all add: double_of_int_def to_double_def scaled_def Let_def)
qed

text \<open>
  Fewer than \<open>2 ^ 42\<close> microseconds, as milliseconds: the error of the division is at most half a unit of
  the twentieth binary place, less than half a unit of the sixth decimal.
\<close>

lemma milliseconds_double:
  assumes "a < 2 ^ 42"
  obtains m j where "double_div (a * 2 ^ k, 2 ^ k) 1000 = (m, 2 ^ j)" "20 \<le> j"
    "2 * \<bar>int a * 2 ^ j - 1000 * int m\<bar> \<le> 1000"
proof -
  let ?p = "a * 2 ^ k" and ?q = "1000 * 2 ^ k :: nat"
  define j where "j = nat (- double_exponent ?p ?q)"
  define m where "m = round_even (?p * 2 ^ j) ?q"
  have "bits ?p \<le> 42 + k" using assms by (intro bits_le) (simp add: power_add)
  moreover have "Suc (9 + k) \<le> bits ?q" by (rule bits_ge) (simp add: power_add)
  ultimately have e: "double_exponent ?p ?q \<le> - 20"
    using double_exponent_le [of ?p ?q] by linarith
  have "2 * \<bar>int (?p * 2 ^ j) - int m * int ?q\<bar> \<le> int ?q"
    unfolding m_def by (rule round_even_error) simp
  also have "int (?p * 2 ^ j) - int m * int ?q = (int a * 2 ^ j - 1000 * int m) * 2 ^ k"
    by (simp add: algebra_simps)
  finally have "2 * \<bar>int a * 2 ^ j - 1000 * int m\<bar> * 2 ^ k \<le> 1000 * 2 ^ k"
    by (simp add: abs_mult)
  then have "2 * \<bar>int a * 2 ^ j - 1000 * int m\<bar> \<le> 1000"
    by (rule mult_right_le_imp_le) simp
  moreover have "double_div (?p, 2 ^ k) 1000 = (m, 2 ^ j)"
    using e by (simp add: double_div_def to_double_def scaled_def Let_def m_def j_def mult.commute)
  moreover have "20 \<le> j" using e by (simp add: j_def)
  ultimately show thesis using that by blast
qed

lemma pad6_thousands:
  "pad6 (1000 * r) = [digit (r div 100 mod 10), digit (r div 10 mod 10), digit (r mod 10)] @ ''000''"
proof -
  have "1000 * r div 100000 = r div 100" "1000 * r div 10000 = r div 10" "1000 * r div 1000 = r"
    using div_mult_mult1 [of "1000 :: nat" r 100] div_mult_mult1 [of "1000 :: nat" r 10] by simp_all
  moreover have "1000 * r div 100 = 10 * r" "1000 * r div 10 = 10 * (10 * r)" "1000 * r div 1 = 10 * (100 * r)"
    using div_mult_mult1 [of "100 :: nat" "10 * r" 1] div_mult_mult1 [of "10 :: nat" "10 * (10 * r)" 1]
    by simp_all
  moreover have "10 * n mod 10 = 0" for n :: nat by simp
  moreover have "digit 0 = CHR ''0''" by code_simp
  ultimately show ?thesis by (simp only: pad6_def list.map append.simps)
qed

lemma to_string_milliseconds:
  assumes "a < 2 ^ 42"
  shows "to_string_double (double_div (double_of_int a) 1000)
    = dec (a div 1000) @ ''.'' @ pad6 (1000 * (a mod 1000))"
proof -
  obtain k where "double_of_int a = (a * 2 ^ k, 2 ^ k)"
    using double_of_int_exact [of a] assms by fastforce
  moreover obtain m j where div: "double_div (a * 2 ^ k, 2 ^ k) 1000 = (m, 2 ^ j)" "20 \<le> j"
    "2 * \<bar>int a * 2 ^ j - 1000 * int m\<bar> \<le> 1000"
    using milliseconds_double [OF assms] by blast
  have "round_even (m * 1000000) (2 ^ j) = 1000 * a"
  proof (rule round_even_unique)
    have "int (m * 1000000) - int (1000 * a) * int (2 ^ j) = 1000 * (1000 * int m - int a * 2 ^ j)"
      by (simp add: algebra_simps)
    then have "2 * \<bar>int (m * 1000000) - int (1000 * a) * int (2 ^ j)\<bar>
        = 1000 * (2 * \<bar>int a * 2 ^ j - 1000 * int m\<bar>)"
      by (simp only: abs_mult) (simp add: abs_minus_commute)
    also have "\<dots> \<le> 1000000" using div(3) by simp
    also have "\<dots> < 2 ^ 20" by simp
    also have "(2 :: int) ^ 20 \<le> 2 ^ j" using div(2) by (intro power_increasing) simp_all
    finally show "2 * \<bar>int (m * 1000000) - int (1000 * a) * int (2 ^ j)\<bar> < int (2 ^ j)" by simp
  qed
  moreover have "1000 * a div 1000000 = a div 1000" "1000 * a mod 1000000 = 1000 * (a mod 1000)"
    using div_mult_mult1 [of "1000 :: nat" a 1000] mod_mult_mult1 [of "1000 :: nat" a 1000] by simp_all
  ultimately show ?thesis using div(1) by (simp add: to_string_double_def)
qed

end
