(* ===== verification/Tracer.thy ===== *)
theory Tracer
  imports Sender Doubles
begin

text \<open>
  \<open>src/Traceroute.cpp\<close>, the base class of the two tracers, and \<open>src/Probe.cpp\<close>, their results. The
  tracer's collaborators are the fields of a record, the virtual functions of \<open>IPacketFactory\<close>,
  \<open>IDataSender\<close> and \<open>ISystemClock\<close>. Points in time are in nanoseconds, durations in microseconds.
\<close>

section \<open>Results\<close>

record ProbeResult =
  pr_success :: bool
  pr_waitedFor :: int
  pr_responseSender :: "SocketAddress option"

record TracerouteResult =
  tr_ttl :: u32
  tr_probeResults :: "ProbeResult list"

definition failedProbe :: "int \<Rightarrow> ProbeResult" where
  "failedProbe waitedFor =
     \<lparr>pr_success = False, pr_waitedFor = waitedFor, pr_responseSender = None\<rparr>"

definition successProbe :: "int \<Rightarrow> SocketAddress \<Rightarrow> ProbeResult" where
  "successProbe waitedFor responseSender =
     \<lparr>pr_success = True, pr_waitedFor = waitedFor, pr_responseSender = Some responseSender\<rparr>"

text \<open>
  \<open>std::to_string(count / 1000.0)\<close>: the count, a 64-bit integer, becomes a double, which is divided and
  printed.
\<close>

definition to_string_ms :: "int \<Rightarrow> string" where
  "to_string_ms count =
     (if count < 0 then ''-'' else '''')
     @ to_string_double (double_div (double_of_int (nat \<bar>count\<bar>)) 1000)"

definition removeTrailingZeros :: "string \<Rightarrow> string" where
  "removeTrailingZeros str = rev (dropWhile (\<lambda>c. c = CHR ''0'') (rev str))"

definition probe_toString :: "resolver \<Rightarrow> ProbeResult \<Rightarrow> string" where
  "probe_toString R pr =
     (if pr_success pr
      then (case pr_responseSender pr of Some a \<Rightarrow> addr_toString R a | None \<Rightarrow> '''')
           @ ''  '' @ removeTrailingZeros (to_string_ms (pr_waitedFor pr)) @ '' '' @ ''ms''
      else '' *'') @ [CHR 0x0A]"

definition result_toString :: "resolver \<Rightarrow> TracerouteResult \<Rightarrow> string" where
  "result_toString R r =
     to_string (uint (tr_ttl r)) @ ''  '' @ concat (map (probe_toString R) (tr_probeResults r))"

text \<open>
  A result comes from the destination: it has a sender, and the sender compares equal to it. A TTL
  has reached the destination when one of its results does (\<open>std::any_of\<close>).
\<close>

definition hits :: "SocketAddress \<Rightarrow> ProbeResult \<Rightarrow> bool" where
  "hits target prResult \<longleftrightarrow>
     (case pr_responseSender prResult of Some a \<Rightarrow> addr_eq a target | None \<Rightarrow> False)"

definition target_seen :: "SocketAddress \<Rightarrow> TracerouteResult \<Rightarrow> bool" where
  "target_seen target tr \<longleftrightarrow> list_ex (hits target) (tr_probeResults tr)"

section \<open>The base class\<close>

type_synonym 'w ISystemClock = "'w \<Rightarrow> int \<times> 'w"

text \<open>\<open>SystemClock\<close> forwards to \<open>steady_clock\<close>.\<close>

definition SystemClock_now :: "'w os \<Rightarrow> 'w ISystemClock" where
  [simp]: "SystemClock_now os = sys_now os"

text \<open>
  The members of \<open>Traceroute\<close> but for the receive buffer, which the operations take and return.
\<close>

record 'w tracer =
  t_createPacket :: "'w IPacketFactory"
  t_trySending :: "'w trySending_method"
  t_tryReceiving :: "'w tryReceiving_method"
  t_now :: "'w ISystemClock"

definition Traceroute_ctor ::
    "'w IPacketFactory \<Rightarrow> 'w trySending_method \<Rightarrow> 'w tryReceiving_method \<Rightarrow> 'w ISystemClock
       \<Rightarrow> 'w tracer" where
  [simp]: "Traceroute_ctor create send recv clock =
     \<lparr>t_createPacket = create, t_trySending = send, t_tryReceiving = recv, t_now = clock\<rparr>"

definition BufferSize :: nat where "BufferSize = 4096"
definition MinTimeWaitForResponse :: int where "MinTimeWaitForResponse = 10"

text \<open>\<open>char mBuffer[BufferSize] = {0}\<close>\<close>

definition initial_buffer :: "byte list" where
  "initial_buffer = replicate BufferSize 0"

definition getTimePassedTillNow :: "'w tracer \<Rightarrow> int \<Rightarrow> 'w \<Rightarrow> int \<times> 'w" where
  "getTimePassedTillNow T start w =
     (let (n, w') = t_now T w in (tdiv (n - start) 1000, w'))"

definition getTimeLeft :: "'w tracer \<Rightarrow> int \<Rightarrow> int \<Rightarrow> 'w \<Rightarrow> int \<times> 'w" where
  "getTimeLeft T start timeout w =
     (let (timePassed, w') = getTimePassedTillNow T start w
      in (if timePassed > timeout then 0 else timeout - timePassed, w'))"

text \<open>\<open>duration_cast<milliseconds>\<close> of a number of microseconds.\<close>

definition to_milliseconds :: "int \<Rightarrow> int" where
  "to_milliseconds us = tdiv us 1000"

text \<open>The tracer that runs on the library's own sender, a factory and \<open>SystemClock\<close>.\<close>

definition tracer_of :: "'w os \<Rightarrow> DataSender \<Rightarrow> packet_factory \<Rightarrow> 'w tracer" where
  "tracer_of os ds f =
     Traceroute_ctor (createPacket os f) (trySending os ds) (tryReceiving os ds)
       (SystemClock_now os)"

text \<open>The interface a tracer needs: the contracts of its factory and of its sender together.\<close>

locale tracer_ports =
  packets: packet_source "t_createPacket T" target +
  channel: data_sender "t_trySending T" "t_tryReceiving T"
  for T :: "'w tracer" and target :: SocketAddress

interpretation real: tracer_ports "tracer_of os ds f" "factory_destination f" for os ds f
  unfolding tracer_ports_def tracer_of_def
  by (simp add: factory.packet_source_axioms sockets.data_sender_axioms)

section \<open>Facts about results and times\<close>

lemma probe_kinds [simp]:
  "pr_success (failedProbe t) = False" "pr_responseSender (failedProbe t) = None"
  "pr_waitedFor (failedProbe t) = t"
  "pr_success (successProbe t a) = True" "pr_responseSender (successProbe t a) = Some a"
  "pr_waitedFor (successProbe t a) = t"
  by (simp_all add: failedProbe_def successProbe_def)

text \<open>
  A result is \<open>accepted\<close> when it names the sender of a response that the validator of a probe to the
  target accepted.
\<close>

definition accepted :: "SocketAddress \<Rightarrow> ProbeResult \<Rightarrow> bool" where
  "accepted target r \<longleftrightarrow>
     (\<exists>packet info buf waited. getDestinationAddress packet = target \<and> wf_packet packet
          \<and> packet_isValid packet info buf = Inr True
          \<and> r = successProbe waited (ri_client info))"

lemma hits_simps [simp]:
  "\<not> hits target (failedProbe t)"
  "hits target (successProbe t a) \<longleftrightarrow> addr_eq a target"
  by (simp_all add: hits_def)

lemma target_seen_iff:
  "target_seen target r \<longleftrightarrow> (\<exists>pr \<in> set (tr_probeResults r). hits target pr)"
  by (simp add: target_seen_def list_ex_iff)

text \<open>The remaining time lies between zero and the timeout when the clock does not run back.\<close>

lemma getTimeLeft_bounds:
  assumes "getTimeLeft T start timeout w = (left, w')" "t_now T w = (n, w')" "start \<le> n"
    "0 \<le> timeout"
  shows "0 \<le> left \<and> left \<le> timeout"
  using assms by (auto simp: getTimeLeft_def getTimePassedTillNow_def pos_imp_zdiv_nonneg_iff
      split: if_splits)

lemma getTimeLeft_eq:
  "t_now T w = (n, w') \<Longrightarrow> start \<le> n \<Longrightarrow>
     getTimeLeft T start timeout w = (max 0 (timeout - (n - start) div 1000), w')"
  by (simp add: getTimeLeft_def getTimePassedTillNow_def max_def)

section \<open>The printed time\<close>

lemma digit_0: "digit 0 = CHR ''0''"
  by (simp add: digit_def char_of_def bit_0)

lemma digit_not_dot [simp]: "d < 10 \<Longrightarrow> digit d \<noteq> CHR ''.''"
proof
  assume "d < 10" "digit d = CHR ''.''"
  then have "(48 + d :: nat) = of_char CHR ''.''" by (metis of_char_digit)
  then show False by simp
qed

lemma dec_no_dot: "CHR ''.'' \<notin> set (dec n)"
proof
  assume "CHR ''.'' \<in> set (dec n)"
  then obtain d where "d < 10" "CHR ''.'' = digit d" using dec_chars by blast
  then show False using digit_not_dot by metis
qed

text \<open>The number of thousandths behind the dot, from their digits without the trailing zeros.\<close>

lemma removeTrailingZeros_dot:
  "removeTrailingZeros (xs @ CHR ''.'' # ys) = xs @ CHR ''.'' # removeTrailingZeros ys"
proof -
  have "dropWhile (\<lambda>c. c = CHR ''0'') (zs @ CHR ''.'' # us)
      = dropWhile (\<lambda>c. c = CHR ''0'') zs @ CHR ''.'' # us" for zs us
    by (induction zs) auto
  then show ?thesis by (simp add: removeTrailingZeros_def)
qed

lemma removeTrailingZeros_zeros:
  "removeTrailingZeros xs = removeTrailingZeros ys \<Longrightarrow> length xs = length ys \<Longrightarrow> xs = ys"
proof -
  have split: "\<exists>k. zs = removeTrailingZeros zs @ replicate k CHR ''0''" for zs
  proof -
    have "rev zs = takeWhile (\<lambda>c. c = CHR ''0'') (rev zs) @ dropWhile (\<lambda>c. c = CHR ''0'') (rev zs)"
      by simp
    moreover have "takeWhile (\<lambda>c. c = CHR ''0'') (rev zs)
        = replicate (length (takeWhile (\<lambda>c. c = CHR ''0'') (rev zs))) CHR ''0''"
      by (auto simp: list_eq_iff_nth_eq dest: nth_mem set_takeWhileD)
    ultimately have "zs = rev (dropWhile (\<lambda>c. c = CHR ''0'') (rev zs))
        @ replicate (length (takeWhile (\<lambda>c. c = CHR ''0'') (rev zs))) CHR ''0''"
      by (metis rev_append rev_replicate rev_rev_ident)
    then show ?thesis unfolding removeTrailingZeros_def by blast
  qed
  assume same: "removeTrailingZeros xs = removeTrailingZeros ys" "length xs = length ys"
  from split [of xs] split [of ys] obtain k l where
    "xs = removeTrailingZeros xs @ replicate k CHR ''0''"
    "ys = removeTrailingZeros ys @ replicate l CHR ''0''" by blast
  with same show "xs = ys" by (metis add_left_cancel length_append length_replicate)
qed

text \<open>Three decimals of a number of milliseconds.\<close>

definition pad3 :: "nat \<Rightarrow> string" where
  "pad3 n = [digit (n div 100 mod 10), digit (n div 10 mod 10), digit (n mod 10)]"

lemma pad3_inject:
  assumes "a < 1000" "b < 1000" "pad3 a = pad3 b"
  shows "a = b"
proof -
  have digits: "n = 100 * (n div 100 mod 10) + 10 * (n div 10 mod 10) + n mod 10"
    if "n < 1000" for n :: nat
  proof -
    have "n div 100 = n div 10 div 10" by (simp add: div_mult2_eq [symmetric])
    moreover have "n div 100 mod 10 = n div 100" using that by simp
    moreover have "n = 10 * (n div 10) + n mod 10" "n div 10 = 10 * (n div 10 div 10) + n div 10 mod 10"
      by simp_all
    ultimately show ?thesis by linarith
  qed
  have "a div 100 mod 10 = b div 100 mod 10" "a div 10 mod 10 = b div 10 mod 10"
    "a mod 10 = b mod 10"
    using assms(3) by (simp_all add: pad3_def digit_inject)
  with digits [OF assms(1)] digits [OF assms(2)] show ?thesis by linarith
qed

text \<open>Below \<open>2 ^ 42\<close> microseconds (fifty days) a time prints as its exact decimal value.\<close>

lemma ms_text:
  assumes "0 \<le> t" "t < 2 ^ 42"
  shows "removeTrailingZeros (to_string_ms t)
     = dec (nat t div 1000) @ CHR ''.'' # removeTrailingZeros (pad3 (nat t mod 1000) @ ''000'')"
proof -
  have "nat t < 2 ^ 42" using assms by (simp add: nat_less_iff)
  then show ?thesis
    using removeTrailingZeros_dot [of "dec (nat t div 1000)" "pad3 (nat t mod 1000) @ ''000''"] assms
    by (simp add: to_string_ms_def to_string_milliseconds pad6_thousands pad3_def)
qed

lemma split_at:
  "xs @ c # us = ys @ c # vs \<Longrightarrow> c \<notin> set xs \<Longrightarrow> c \<notin> set ys \<Longrightarrow> xs = ys \<and> us = vs"
  by (induction xs arbitrary: ys) (auto simp: Cons_eq_append_conv)

text \<open>Two times that print the same are the same.\<close>

lemma ms_text_inject:
  assumes "0 \<le> s" "s < 2 ^ 42" "0 \<le> t" "t < 2 ^ 42"
    and "removeTrailingZeros (to_string_ms s) = removeTrailingZeros (to_string_ms t)"
  shows "s = t"
proof -
  have "dec (nat s div 1000) @ CHR ''.'' # removeTrailingZeros (pad3 (nat s mod 1000) @ ''000'')
      = dec (nat t div 1000) @ CHR ''.'' # removeTrailingZeros (pad3 (nat t mod 1000) @ ''000'')"
    using assms(5) by (simp only: ms_text [OF assms(1,2)] ms_text [OF assms(3,4)])
  from split_at [OF this dec_no_dot dec_no_dot]
  have whole: "dec (nat s div 1000) = dec (nat t div 1000)"
    and frac: "removeTrailingZeros (pad3 (nat s mod 1000) @ ''000'')
      = removeTrailingZeros (pad3 (nat t mod 1000) @ ''000'')"
    by (rule conjunct1, rule conjunct2)
  have "pad3 (nat s mod 1000) @ ''000'' = pad3 (nat t mod 1000) @ ''000''"
    using frac by (rule removeTrailingZeros_zeros) (simp add: pad3_def)
  then have "nat s mod 1000 = nat t mod 1000" by (intro pad3_inject) simp_all
  moreover have "nat s div 1000 = nat t div 1000" using whole by (simp only: dec_inject)
  ultimately have "nat s = nat t" by (metis div_mult_mod_eq)
  with assms(1,3) show ?thesis by (simp only: eq_nat_nat_iff)
qed

text \<open>A whole number of milliseconds keeps its dot.\<close>

lemma ms_text_whole:
  assumes "1000 * n < 2 ^ 42"
  shows "removeTrailingZeros (to_string_ms (1000 * int n)) = dec n @ ''.''"
proof -
  have "int (1000 * n) < int (2 ^ 42)" using assms by (simp only: of_nat_less_iff)
  then have "removeTrailingZeros (to_string_ms (1000 * int n))
      = dec n @ CHR ''.'' # removeTrailingZeros (pad3 0 @ ''000'')"
    by (subst ms_text) (simp_all add: nat_mult_distrib)
  then show ?thesis by (simp add: removeTrailingZeros_def pad3_def digit_0)
qed

section \<open>Time\<close>

text \<open>
  A clock that never runs back and that advances, by a nanosecond at least, whenever the program
  waits for a datagram.
\<close>

definition ticking :: "'w tracer \<Rightarrow> ('w \<Rightarrow> int) \<Rightarrow> bool" where
  "ticking T clk \<longleftrightarrow>
     (\<forall>w. fst (t_now T w) = clk w \<and> clk w \<le> clk (snd (t_now T w)))
     \<and> (\<forall>w. clk w \<le> clk (snd (t_createPacket T w)))
     \<and> (\<forall>p ttl t w. clk w \<le> clk (snd (t_trySending T p ttl t w)))
     \<and> (\<forall>buf n t w. clk w < clk (snd (t_tryReceiving T buf n t w)))"

text \<open>The same of the system: \<open>poll\<close> takes time, no other call turns the clock back.\<close>

definition steady_os :: "'w os \<Rightarrow> ('w \<Rightarrow> int) \<Rightarrow> bool" where
  "steady_os os clk \<longleftrightarrow>
     (\<forall>w. fst (sys_now os w) = clk w \<and> clk w \<le> clk (snd (sys_now os w)))
     \<and> (\<forall>fds t w. clk w < clk (snd (sys_poll os fds t w)))
     \<and> (\<forall>fd n w. clk w \<le> clk (snd (sys_recvfrom os fd n w)))
     \<and> (\<forall>fd d a n w. clk w \<le> clk (snd (sys_sendto os fd d a n w)))
     \<and> (\<forall>fd l opt v w. clk w \<le> clk (snd (sys_setsockopt os fd l opt v w)))
     \<and> (\<forall>w. clk w \<le> clk (snd (sys_rand os w)))
     \<and> (\<forall>w. clk w \<le> clk (snd (sys_uninit16 os w)))"

lemma steady_poll:
  assumes "steady_os os clk"
  shows "clk w < clk (snd (Poll_any os fds ev t w))" "clk w < clk (snd (Poll_one os fd ev t w))"
proof -
  have "clk w < clk (snd (sys_poll os fds t w))" for fds t
    using assms by (simp add: steady_os_def)
  then show "clk w < clk (snd (Poll_any os fds ev t w))"
    "clk w < clk (snd (Poll_one os fd ev t w))"
    by (auto simp: Poll_any_def Poll_one_def Let_def io_simps split: prod.splits option.splits)
qed

lemma steady_receive:
  assumes s: "steady_os os clk"
  shows "clk w < clk (snd (tryReceiving os ds buf n t w))"
proof -
  obtain r w1 where poll: "Poll_any os (mReceivingSockets ds) POLLIN t w = (r, w1)" by fastforce
  with steady_poll(1) [OF s] have "clk w < clk w1" by (metis snd_conv)
  moreover have "clk w1 \<le> clk (snd (sys_recvfrom os fd n w1))" for fd
    using s by (simp add: steady_os_def)
  ultimately show ?thesis
    using poll by (auto simp: tryReceiving_def getAnySocketReadyToReceive_def io_simps
        intro: less_le_trans split: prod.splits sum.splits option.splits)
qed

lemma steady_send:
  assumes s: "steady_os os clk"
  shows "clk w \<le> clk (snd (trySending os ds p ttl t w))"
proof -
  obtain r w1 where ttl: "setTtl os ds ttl w = (r, w1)" by fastforce
  obtain r2 w2 where poll: "Poll_one os (mSendingSocket ds) POLLOUT t w1 = (r2, w2)" by fastforce
  have "clk w \<le> clk w1"
    using ttl s by (auto simp: setTtl_def steady_os_def io_simps Let_def split: if_splits)
  moreover have "clk w1 < clk w2" using steady_poll(2) [OF s] poll by (metis snd_conv)
  moreover have "clk w2 \<le> clk (snd (sys_sendto os fd d a n w2))" for fd d a n
    using s by (simp add: steady_os_def)
  ultimately have "clk w \<le> clk (snd (sys_sendto os fd d a n w2))" "clk w \<le> clk w2" for fd d a n
    by (meson less_imp_le order_trans)+
  with \<open>clk w \<le> clk w1\<close> show ?thesis
    using ttl poll by (auto simp: trySending_def io_simps Let_def split: prod.splits sum.splits)
qed

lemma steady_create: "steady_os os clk \<Longrightarrow> clk w \<le> clk (snd (createPacket os f w))"
proof -
  assume "steady_os os clk"
  then have step: "clk w \<le> clk v \<Longrightarrow> clk w \<le> clk (snd (sys_rand os v))"
    "clk w \<le> clk v \<Longrightarrow> clk w \<le> clk (snd (sys_uninit16 os v))" for v
    unfolding steady_os_def by (meson order_trans)+
  show ?thesis
    by (cases f) (auto simp: ctor_defs io_simps Let_def intro!: step split: sum.splits prod.splits)
qed

lemma steady_ticking: "steady_os os clk \<Longrightarrow> ticking (tracer_of os ds f) clk"
  by (simp add: ticking_def tracer_of_def steady_receive steady_send steady_create)
    (simp add: steady_os_def)

lemma tdiv_late: "sentAt + timeout * 1000 \<le> n \<Longrightarrow> timeout \<le> tdiv (n - sentAt) 1000"
proof -
  assume "sentAt + timeout * 1000 \<le> n"
  then have "tdiv (timeout * 1000) 1000 \<le> tdiv (n - sentAt) 1000"
    by (intro tdiv_mono) simp_all
  moreover have "tdiv (timeout * 1000) 1000 = timeout"
    by (simp add: tdiv_def minus_mult_left del: mult_minus_left)
  ultimately show ?thesis by simp
qed

lemma no_time_left:
  assumes "ticking T clk" "sentAt + timeout * 1000 \<le> clk w"
  shows "fst (getTimeLeft T sentAt timeout w) \<le> 0"
proof -
  have "timeout \<le> tdiv (clk w - sentAt) 1000" using assms(2) by (rule tdiv_late)
  moreover have "fst (t_now T w) = clk w" using assms(1) by (simp add: ticking_def)
  ultimately show ?thesis
    by (auto simp: getTimeLeft_def getTimePassedTillNow_def split: prod.splits)
qed

lemma getTimeLeft_clock:
  "ticking T clk \<Longrightarrow> clk w \<le> clk (snd (getTimeLeft T sentAt timeout w))"
  by (auto simp: getTimeLeft_def getTimePassedTillNow_def ticking_def split: prod.splits)
    (metis snd_conv)

end
