(* ===== verification/Responses.thy ===== *)
theory Responses
  imports Validators
begin

text \<open>
  The answers the network gives, as the bytes the raw sockets deliver, and what the validators say
  of them. An IPv4 raw socket delivers the IP header (with its options) in front, an IPv6 one does
  not. \<open>stale\<close> is the rest of the receive buffer behind the datagram: bytes of earlier datagrams.
  The datagram shapes follow the response structs of \<open>tests/UnitTests/ResponseValidatorsTests\<close>.
\<close>

section \<open>Datagrams\<close>

definition ip4_ok :: "ipv4_header \<Rightarrow> byte list \<Rightarrow> bool" where
  "ip4_ok hdr opts \<longleftrightarrow> ip4_version hdr = 4 \<and> 20 + length opts = 4 * unat (ip4_ihl hdr)"

definition ip4_datagram :: "ipv4_header \<Rightarrow> byte list \<Rightarrow> byte list \<Rightarrow> byte list" where
  "ip4_datagram hdr opts payload = serialize_ipv4 hdr @ opts @ payload"

definition ip6_ok :: "byte list \<Rightarrow> bool" where
  "ip6_ok hdr \<longleftrightarrow> length hdr = sizeof_Ipv6Header \<and> high_nibble (hdr ! 0) = 6"

lemma ip4_opts_le: "ip4_ok hdr opts \<Longrightarrow> length opts \<le> 40"
  using unsigned_less [of "ip4_ihl hdr", where 'a = nat] by (simp add: ip4_ok_def)

lemma ip4_version [simp]:
  "ip4_ok hdr opts \<Longrightarrow> ip_version_at (ip4_datagram hdr opts pl @ r) = Inr 4"
  by (simp add: ip4_datagram_def ip4_ok_def read_serialized)

text \<open>The size of an IPv4 header with its options, as the code computes it.\<close>

definition hdr_len :: "byte list \<Rightarrow> u64" where
  "hdr_len opts = of_nat (20 + length opts)"

lemma unat_hdr_len [simp]: "ip4_ok hdr opts \<Longrightarrow> unat (hdr_len opts) = 20 + length opts"
  using ip4_opts_le [of hdr opts] unfolding hdr_len_def by (simp only: unat_of_nat) simp

lemma ip4_header_size [simp]:
  assumes "ip4_ok hdr opts"
  shows "getIpHeaderSize (ip4_datagram hdr opts pl @ r) = Inr (hdr_len opts)"
proof -
  have "unat (push_bit 2 (ucast (ip4_ihl hdr)) :: u64) = unat (hdr_len opts)"
    using assms unsigned_less [of "ip4_ihl hdr", where 'a = nat]
    by (simp add: unat_hdr_len [OF assms] push_bit_eq_mult unat_word_ariths unat_ucast_up)
      (simp add: ip4_ok_def)
  then have "push_bit 2 (ucast (ip4_ihl hdr)) = hdr_len opts"
    by (rule word_unat_eq_iff [THEN iffD2])
  with assms show ?thesis
    by (simp add: getIpHeaderSize_def ip4_datagram_def ip4_ok_def read_serialized)
qed

lemma drop_ip4 [simp]:
  "ip4_ok hdr opts \<Longrightarrow> drop (unat (hdr_len opts)) (ip4_datagram hdr opts pl @ r) = pl @ r"
  by (simp add: ip4_datagram_def sizeofs)

lemma length_ip4 [simp]:
  "length (ip4_datagram hdr opts pl) = 20 + length opts + length pl"
  by (simp add: ip4_datagram_def sizeofs)

lemma drop_icmp [simp]: "drop sizeof_IcmpHeader (serialize_icmp e @ r) = r"
  by (simp add: sizeofs)

lemma getIcmpType_serialized [simp]:
  "getIcmpType (serialize_icmp e @ r) = Inr (uint (icmp_type e))"
  by (simp add: getIcmpType_def read_serialized)

lemma ip6_header_size [simp]:
  "ip6_ok hdr \<Longrightarrow> getIpHeaderSize (hdr @ r) = Inr 40"
  by (auto simp: ip6_ok_def getIpHeaderSize_def ip_version_at_def load8_def nth_append sizeofs)

lemma advance_v4 [simp]:
  "ip4_ok i io \<Longrightarrow> advanceToTcpHeader (serialize_icmp e @ ip4_datagram i io q @ r) = Inr (q @ r)"
  by (simp add: advanceToTcpHeader_def Let_def del: unat_hdr_len drop_append)

lemma advance_v6 [simp]:
  "ip6_ok i \<Longrightarrow> advanceToTcpHeader (serialize_icmp e @ i @ q @ r) = Inr (q @ r)"
  by (simp add: advanceToTcpHeader_def Let_def) (simp add: ip6_ok_def sizeofs)

text \<open>A datagram of \<open>n\<close> bytes behind an IPv4 header, as \<open>recvfrom\<close> reports it.\<close>

definition received :: "SocketAddress \<Rightarrow> int \<Rightarrow> byte list \<Rightarrow> ResponseInfo" where
  "received client protocol datagram =
     \<lparr>ri_client = client, ri_protocol = protocol, ri_size = of_nat (length datagram)\<rparr>"

lemma received_simps [simp]:
  "ri_client (received c p d) = c" "ri_protocol (received c p d) = p"
  "ri_size (received c p d) = of_nat (length d)"
  by (simp_all add: received_def)

lemma received_size:
  "length d \<le> 65535 \<Longrightarrow> unat (of_nat (length d) :: u64) = length d"
  by (simp only: unat_of_nat) simp

text \<open>The template method on a datagram with an IPv4 header in front.\<close>

lemma isValid_ip4:
  assumes "ip4_ok o1 oo" "length pl \<le> 60000"
  shows "ResponseValidator_isValid vP vS vF
      (received c p (ip4_datagram o1 oo pl)) (ip4_datagram o1 oo pl @ stale) =
     (if vP p \<and> vS (of_nat (length pl))
      then vF (received c p pl) (pl @ stale) else Inr False)"
proof -
  have sz: "unat (of_nat (length (ip4_datagram o1 oo pl)) :: u64) = 20 + length oo + length pl"
    using assms ip4_opts_le [of o1 oo] by (simp only: unat_of_nat) simp
  then have "(of_nat (length (ip4_datagram o1 oo pl)) :: u64) \<noteq> 0"
    by (metis add_is_0 unat_0 zero_neq_numeral)
  moreover have "(of_nat (length (ip4_datagram o1 oo pl)) :: u64) - hdr_len oo
      = of_nat (length pl)"
    by (simp add: hdr_len_def)
  moreover have "drop (unat (hdr_len oo)) (ip4_datagram o1 oo pl @ stale) = pl @ stale"
    by (rule drop_ip4 [OF assms(1)])
  ultimately show ?thesis
    using assms(1)
    by (simp add: isValid_behind_header [where v = 4 and n = "hdr_len oo"] received_def
        del: length_ip4 of_nat_add unat_hdr_len)
qed

text \<open>
  Over IPv6 the segment comes first, and its first byte is the high byte of the answering port.
  The code takes a high nibble of 4 or 6 there for the version of an IP header.
\<close>

definition port_nibble :: "tcp_header \<Rightarrow> u4" where
  "port_nibble t = high_nibble (ucast (tcp_source t))"

section \<open>Samples\<close>

text \<open>Concrete addresses, headers and datagrams, to which the properties are applied.\<close>

definition v4 :: "u32 \<Rightarrow> SocketAddress" where
  "v4 n = \<lparr>ss_family = 2, ss_port = 0, ss_word4 = n, ss_word8 = 0, ss_word12 = 0,
           ss_word16 = 0, ss_word20 = 0, ss_word24 = 0\<rparr>"

definition v6 :: "u32 \<Rightarrow> SocketAddress" where
  "v6 n = \<lparr>ss_family = 10, ss_port = 0, ss_word4 = 0, ss_word8 = n, ss_word12 = 0,
           ss_word16 = 0, ss_word20 = 0, ss_word24 = 0\<rparr>"

abbreviation (input) home :: SocketAddress where "home \<equiv> v4 0x0100000A"
abbreviation (input) router :: SocketAddress where "router \<equiv> v4 0x01000001"
abbreviation (input) server :: SocketAddress where "server \<equiv> v4 0x08080808"
abbreviation (input) home6 :: SocketAddress where "home6 \<equiv> v6 1"
abbreviation (input) router6 :: SocketAddress where "router6 \<equiv> v6 2"
abbreviation (input) server6 :: SocketAddress where "server6 \<equiv> v6 3"

definition sample_ip4 :: ipv4_header where
  "sample_ip4 = \<lparr>ip4_ihl = 5, ip4_version = 4, ip4_tos = 0, ip4_tot_len = 0, ip4_id = 0,
     ip4_frag_off = 0, ip4_ttl = 64, ip4_protocol = 1, ip4_check = 0, ip4_saddr = 0, ip4_daddr = 0\<rparr>"

definition sample_ip6 :: "byte list" where
  "sample_ip6 = 0x60 # replicate 39 0"

definition sample_icmp :: "u8 \<Rightarrow> u16 \<Rightarrow> icmp_header" where
  "sample_icmp ty n = \<lparr>icmp_type = ty, icmp_code = 0, icmp_checksum = 0, icmp_id = n,
                       icmp_sequence = 0\<rparr>"

definition sample_tcp :: "u16 \<Rightarrow> u32 \<Rightarrow> u32 \<Rightarrow> tcp_header" where
  "sample_tcp port sq ack =
     \<lparr>tcp_source = htons port, tcp_dest = 0, tcp_seq = htonl sq, tcp_ack_seq = htonl ack, th_x2 = 0,
      th_off = 5, th_flags = 2, tcp_window = 0, tcp_check = 0, tcp_urg_ptr = 0\<rparr>"

definition sample_udp :: udp_header where
  "sample_udp = \<lparr>udp_source = 0, udp_dest = 0, udp_len = 0, udp_check = 0\<rparr>"

lemma samples [simp]:
  "ip4_ok sample_ip4 []" "ip6_ok sample_ip6" "isV4 (v4 n)" "\<not> isV4 (v6 n)"
  "addr_eq (v4 m) (v4 n) \<longleftrightarrow> m = n" "addr_eq (v6 m) (v6 n) \<longleftrightarrow> m = n"
  "icmp_type (sample_icmp ty k) = ty" "icmp_id (sample_icmp ty k) = k"
  "tcp_seq (sample_tcp p sq ack) = htonl sq" "tcp_ack_seq (sample_tcp p sq ack) = htonl ack"
  by (simp_all add: ip4_ok_def sample_ip4_def ip6_ok_def sample_ip6_def high_nibble_def sizeofs
      isV4_def family_def v4_def v6_def addr_eq_def s_addr_def u6_addr32_def sample_icmp_def
      sample_tcp_def)

lemma sample_ports [simp]:
  "port_nibble (sample_tcp 80 sq ack) = 0" "port_nibble (sample_tcp 0x6000 sq ack) = 6"
  by (code_simp, code_simp)

section \<open>Sizes the validators accept\<close>

lemma of_nat_size_le:
  "k \<le> n \<Longrightarrow> n \<le> 65535 \<Longrightarrow> (of_nat k :: u64) \<le> of_nat n"
  by (simp add: word_le_nat_alt unat_of_nat)

lemma validateSize_of_nat:
  assumes "n \<le> 65535"
  shows "Icmp_validateSize (of_nat n) \<longleftrightarrow> 8 \<le> n"
    and "IcmpToTcp_validateSize (of_nat n) \<longleftrightarrow> 28 \<le> n"
    and "TcpToTcp_validateSize (of_nat n) \<longleftrightarrow> 20 \<le> n"
    and "Udp_validateSize (of_nat n) \<longleftrightarrow> 16 \<le> n"
  using assms
  by (simp_all add: Icmp_validateSize_def IcmpToTcp_validateSize_def TcpToTcp_validateSize_def
      Udp_validateSize_def sizeofs word_le_nat_alt unat_of_nat)

lemma sizes_simps [simp]: "sizeof_IcmpHeader = 8" "sizeof_TcpHeader = 20"
  "sizeof_UdpHeader = 8" "sizeof_Ipv4Header = 20" "sizeof_Ipv6Header = 40"
  by (simp_all add: sizeofs)

section \<open>Verdicts on ICMP errors\<close>

text \<open>
  ICMP errors for a TCP probe over IPv4. An ICMP error that quotes an IP header (options
  included) and at least the first eight bytes of a TCP segment is accepted for a probe exactly when
  the quoted sequence number is the probe's and the error is a time exceeded, or a destination
  unreachable that the destination itself sent. What lies behind the datagram in the receive buffer
  does not matter.
\<close>

lemma error_quoting_tcp_v4:
  assumes "ip4_ok o1 oo" "ip4_ok i io" "isV4 client" "8 \<le> n"
  shows "packet_isValid (TcpPacket s d h)
      (received client IPPROTO_ICMP
         (ip4_datagram o1 oo (serialize_icmp e @ ip4_datagram i io (take n (serialize_tcp t)))))
      (ip4_datagram o1 oo (serialize_icmp e @ ip4_datagram i io (take n (serialize_tcp t))) @ stale)
    = Inr (tcp_seq t = tcp_seq h
        \<and> (uint (icmp_type e) = ICMP_TIME_EXCEEDED
           \<or> uint (icmp_type e) = ICMP_DEST_UNREACH \<and> addr_eq client d))"
proof -
  let ?q = "take n (serialize_tcp t)"
  let ?pl = "serialize_icmp e @ ip4_datagram i io ?q"
  have n: "28 \<le> length ?pl" "length ?pl \<le> 60000"
    using ip4_opts_le [OF assms(2)] assms(4) by auto
  then have sz: "IcmpToTcp_validateSize (of_nat (length ?pl))"
    by (subst validateSize_of_nat) auto
  have "IcmpToTcp_validateFields d h (received client IPPROTO_ICMP ?pl) (?pl @ stale)
    = Inr (tcp_seq t = tcp_seq h
        \<and> (uint (icmp_type e) = ICMP_TIME_EXCEEDED
           \<or> uint (icmp_type e) = ICMP_DEST_UNREACH \<and> addr_eq client d))"
    using assms
    by (auto simp: IcmpToTcp_validateFields_def Tcp_validateDestUnreach_def
        Tcp_validateTimeExceeded_def validateSameSequence_def tcp_seq_first8)
  then show ?thesis
    unfolding packet_isValid_cases
    by (simp add: isValid_ip4 [OF assms(1) n(2)] IcmpToTcp_validateProtocol_def sz
        del: length_append length_ip4)
qed

text \<open>
  ICMP errors for a TCP probe over IPv6. There is no outer IP header and the types are those of
  ICMPv6; the verdict is the same function of the quoted sequence number, the kind of the error and
  its sender.
\<close>

lemma error_quoting_tcp_v6:
  assumes "ip6_ok i" "\<not> isV4 client" "8 \<le> n"
    and "icmp_type e = 1 \<or> icmp_type e = 3"
  shows "packet_isValid (TcpPacket s d h)
      (received client IPPROTO_ICMPV6 (serialize_icmp e @ i @ take n (serialize_tcp t)))
      (serialize_icmp e @ i @ take n (serialize_tcp t) @ stale)
    = Inr (tcp_seq t = tcp_seq h
        \<and> (uint (icmp_type e) = ICMP6_TIME_EXCEEDED
           \<or> uint (icmp_type e) = ICMP6_DST_UNREACH \<and> addr_eq client d))"
proof -
  let ?q = "take n (serialize_tcp t)"
  let ?pl = "serialize_icmp e @ i @ ?q"
  have n: "28 \<le> length ?pl" "length ?pl \<le> 65535"
    using assms(1,3) by (auto simp: ip6_ok_def)
  then have sz: "IcmpToTcp_validateSize (of_nat (length ?pl))"
    by (subst validateSize_of_nat) auto
  have nz: "of_nat (length ?pl) \<noteq> (0 :: u64)"
    using received_size [of ?pl] n by (metis not_numeral_le_zero unat_0)
  have ver: "ip_version_at (?pl @ stale) = Inr 0"
    using assms(4) by (auto simp: ip_version_at_def serialize_icmp_def load8_def high_nibble_def)
  have "IcmpToTcp_validateFields d h (received client IPPROTO_ICMPV6 ?pl) (?pl @ stale)
    = Inr (tcp_seq t = tcp_seq h
        \<and> (uint (icmp_type e) = ICMP6_TIME_EXCEEDED
           \<or> uint (icmp_type e) = ICMP6_DST_UNREACH \<and> addr_eq client d))"
    using assms
    by (auto simp: IcmpToTcp_validateFields_def Tcp_validateDestUnreach_def
        Tcp_validateTimeExceeded_def validateSameSequence_def tcp_seq_first8)
  with ver nz sz show ?thesis
    unfolding packet_isValid_cases
    by (simp add: isValid_bare [where v = 0] IcmpToTcp_validateProtocol_def del: length_append)
qed

text \<open>
  ICMP errors for an echo request over IPv4. A time exceeded, and a destination unreachable
  too (its type 3 is the number of the ICMPv6 time exceeded), is accepted exactly when the quoted
  identifier is the probe's.
\<close>

lemma error_quoting_echo_v4:
  assumes "ip4_ok o1 oo" "ip4_ok i io" "icmp_type e = 3 \<or> icmp_type e = 11"
  shows "packet_isValid (IcmpPacket s d h)
      (received client IPPROTO_ICMP
         (ip4_datagram o1 oo (serialize_icmp e @ ip4_datagram i io (serialize_icmp t))))
      (ip4_datagram o1 oo (serialize_icmp e @ ip4_datagram i io (serialize_icmp t)) @ stale)
    = Inr (icmp_id t = icmp_id h)"
proof -
  let ?pl = "serialize_icmp e @ ip4_datagram i io (serialize_icmp t)"
  have n: "8 \<le> length ?pl" "length ?pl \<le> 60000"
    using ip4_opts_le [OF assms(2)] by auto
  then have sz: "Icmp_validateSize (of_nat (length ?pl))"
    by (subst validateSize_of_nat) auto
  have d: "drop 8 (serialize_icmp e @ r) = r" for r
    using drop_icmp [of e r] by simp
  have "Icmp_validateFields d h (received client IPPROTO_ICMP ?pl) (?pl @ stale)
    = Inr (icmp_id t = icmp_id h)"
    using assms
    by (auto simp: Icmp_validateFields_def Icmp_validateTimeExceeded_def validateSession_def
        read_serialized d simp del: unat_hdr_len drop_append)
  then show ?thesis
    unfolding packet_isValid_cases
    by (simp add: isValid_ip4 [OF assms(1) n(2)] Icmp_validateProtocol_def sz
        del: length_append length_ip4)
qed

text \<open>
  ICMP errors for an echo request over IPv6: a time exceeded is accepted exactly when the quoted
  identifier is the probe's.
\<close>

lemma error_quoting_echo_v6:
  assumes "ip6_ok i" "icmp_type e = 3"
  shows "packet_isValid (IcmpPacket s d h)
      (received client IPPROTO_ICMPV6 (serialize_icmp e @ i @ serialize_icmp t))
      (serialize_icmp e @ i @ serialize_icmp t @ stale)
    = Inr (icmp_id t = icmp_id h)"
proof -
  let ?pl = "serialize_icmp e @ i @ serialize_icmp t"
  have n: "8 \<le> length ?pl" "length ?pl \<le> 65535"
    using assms(1) by (auto simp: ip6_ok_def)
  then have sz: "Icmp_validateSize (of_nat (length ?pl))"
    by (subst validateSize_of_nat) auto
  have nz: "of_nat (length ?pl) \<noteq> (0 :: u64)"
    using received_size [of ?pl] n by (metis not_numeral_le_zero unat_0)
  have ver: "ip_version_at (?pl @ stale) = Inr 0"
    using assms(2) by (auto simp: ip_version_at_def serialize_icmp_def load8_def high_nibble_def)
  have d: "drop 8 (serialize_icmp e @ r) = r" for r
    using drop_icmp [of e r] by simp
  have l: "length i = 40" using assms(1) by (simp add: ip6_ok_def)
  have "Icmp_validateFields d h (received client IPPROTO_ICMPV6 ?pl) (?pl @ stale)
    = Inr (icmp_id t = icmp_id h)"
    using assms
    by (simp add: Icmp_validateFields_def Icmp_validateTimeExceeded_def validateSession_def
        read_serialized d l)
  with ver nz sz show ?thesis
    unfolding packet_isValid_cases
    by (simp add: isValid_bare [where v = 0] Icmp_validateProtocol_def del: length_append)
qed

section \<open>Verdicts on answers of the destination\<close>

text \<open>
  Echo replies over IPv4, with any payload: accepted exactly when the sender is the destination
  and the identifier is the probe's.
\<close>

lemma echo_reply_v4:
  assumes "ip4_ok o1 oo" "icmp_type e = 0" "length payload \<le> 50000"
  shows "packet_isValid (IcmpPacket s d h)
      (received client IPPROTO_ICMP (ip4_datagram o1 oo (serialize_icmp e @ payload)))
      (ip4_datagram o1 oo (serialize_icmp e @ payload) @ stale)
    = Inr (addr_eq client d \<and> icmp_id e = icmp_id h)"
proof -
  let ?pl = "serialize_icmp e @ payload"
  have n: "8 \<le> length ?pl" "length ?pl \<le> 60000" using assms(3) by auto
  then have sz: "Icmp_validateSize (of_nat (length ?pl))"
    by (subst validateSize_of_nat) auto
  have "Icmp_validateFields d h (received client IPPROTO_ICMP ?pl) (?pl @ stale)
    = Inr (addr_eq client d \<and> icmp_id e = icmp_id h)"
    using assms
    by (auto simp: Icmp_validateFields_def Icmp_validateEchoReply_def validateSession_def
        read_serialized)
  then show ?thesis
    unfolding packet_isValid_cases
    by (simp add: isValid_ip4 [OF assms(1) n(2)] Icmp_validateProtocol_def sz
        del: length_append length_ip4)
qed

text \<open>
  Echo replies over IPv6: accepted exactly when the sender is the destination and the identifier
  is the probe's.
\<close>

lemma echo_reply_v6:
  assumes "icmp_type e = 129" "length payload \<le> 50000"
  shows "packet_isValid (IcmpPacket s d h)
      (received client IPPROTO_ICMPV6 (serialize_icmp e @ payload))
      (serialize_icmp e @ payload @ stale)
    = Inr (addr_eq client d \<and> icmp_id e = icmp_id h)"
proof -
  let ?pl = "serialize_icmp e @ payload"
  have n: "8 \<le> length ?pl" "length ?pl \<le> 65535" using assms(2) by auto
  then have sz: "Icmp_validateSize (of_nat (length ?pl))"
    by (subst validateSize_of_nat) auto
  have nz: "of_nat (length ?pl) \<noteq> (0 :: u64)"
    using received_size [of ?pl] n by (metis not_numeral_le_zero unat_0)
  have ver: "ip_version_at (serialize_icmp e @ r) = Inr 8" for r
    using assms(1) by (auto simp: ip_version_at_def serialize_icmp_def load8_def high_nibble_def)
  have "Icmp_validateFields d h (received client IPPROTO_ICMPV6 ?pl)
      (serialize_icmp e @ payload @ stale)
    = Inr (addr_eq client d \<and> icmp_id e = icmp_id h)"
    using assms
    by (auto simp: Icmp_validateFields_def Icmp_validateEchoReply_def validateSession_def
        read_serialized)
  with ver nz sz show ?thesis
    unfolding packet_isValid_cases
    by (simp add: isValid_bare [where v = 8] Icmp_validateProtocol_def del: length_append)
qed

text \<open>
  TCP answers over IPv4 (a SYN+ACK or a RST), with any options and payload: accepted exactly when
  the destination sent it and it acknowledges the probe's sequence number, as 32-bit numbers in host
  order, so also across the wrap-around.
\<close>

lemma tcp_answer_v4:
  assumes "ip4_ok o1 oo" "length payload \<le> 50000"
  shows "packet_isValid (TcpPacket s d h)
      (received client IPPROTO_TCP (ip4_datagram o1 oo (serialize_tcp t @ payload)))
      (ip4_datagram o1 oo (serialize_tcp t @ payload) @ stale)
    = Inr (addr_eq d client \<and> ntohl (tcp_ack_seq t) = ntohl (tcp_seq h) + 1)"
proof -
  let ?pl = "serialize_tcp t @ payload"
  have n: "20 \<le> length ?pl" "length ?pl \<le> 60000" using assms(2) by auto
  then have sz: "TcpToTcp_validateSize (of_nat (length ?pl))"
    by (subst validateSize_of_nat) auto
  have "TcpToTcp_validateFields d h (received client IPPROTO_TCP ?pl) (?pl @ stale)
    = Inr (addr_eq d client \<and> ntohl (tcp_ack_seq t) = ntohl (tcp_seq h) + 1)"
    by (auto simp: TcpToTcp_validateFields_def read_serialized Let_def diff_eq_eq)
  then show ?thesis
    unfolding packet_isValid_cases
    by (simp add: isValid_ip4 [OF assms(1) n(2)] TcpToTcp_validateProtocol_def sz
        del: length_append length_ip4)
qed

lemma tcp_version_nibble: "ip_version_at (serialize_tcp t @ r) = Inr (port_nibble t)"
  by (simp add: ip_version_at_def serialize_tcp_def le16_def load8_def port_nibble_def)

text \<open>
  TCP answers over IPv6, from a port whose high nibble is neither 4 nor 6: the verdict is the one
  over IPv4.
\<close>

lemma tcp_answer_v6:
  assumes "port_nibble t \<noteq> 4" "port_nibble t \<noteq> 6" "length payload \<le> 50000"
  shows "packet_isValid (TcpPacket s d h)
      (received client IPPROTO_TCP (serialize_tcp t @ payload))
      (serialize_tcp t @ payload @ stale)
    = Inr (addr_eq d client \<and> ntohl (tcp_ack_seq t) = ntohl (tcp_seq h) + 1)"
proof -
  let ?pl = "serialize_tcp t @ payload"
  have n: "20 \<le> length ?pl" "length ?pl \<le> 65535" using assms(3) by auto
  then have sz: "TcpToTcp_validateSize (of_nat (length ?pl))"
    by (subst validateSize_of_nat) auto
  have nz: "of_nat (length ?pl) \<noteq> (0 :: u64)"
    using received_size [of ?pl] n by (metis not_numeral_le_zero unat_0)
  have "TcpToTcp_validateFields d h (received client IPPROTO_TCP ?pl)
      (serialize_tcp t @ payload @ stale)
    = Inr (addr_eq d client \<and> ntohl (tcp_ack_seq t) = ntohl (tcp_seq h) + 1)"
    by (auto simp: TcpToTcp_validateFields_def read_serialized Let_def diff_eq_eq)
  with nz sz assms show ?thesis
    unfolding packet_isValid_cases
    by (simp add: isValid_bare [OF _ tcp_version_nibble] TcpToTcp_validateProtocol_def
        del: length_append)
qed

section \<open>Verdicts on answers to a UDP probe\<close>

text \<open>
  ICMP errors for a UDP probe over IPv4. The destination must answer with a destination
  unreachable, any other host with a time exceeded; the quoted datagram is not looked at.
\<close>

lemma udp_verdict_v4:
  assumes "ip4_ok o1 oo" "isV4 client" "8 \<le> length rest" "length rest \<le> 50000"
  shows "packet_isValid (UdpPacket s d h)
      (received client IPPROTO_ICMP (ip4_datagram o1 oo (serialize_icmp e @ rest)))
      (ip4_datagram o1 oo (serialize_icmp e @ rest) @ stale)
    = Inr (uint (icmp_type e) =
        (if addr_eq d client then ICMP_DEST_UNREACH else ICMP_TIME_EXCEEDED))"
proof -
  let ?pl = "serialize_icmp e @ rest"
  have n: "16 \<le> length ?pl" "length ?pl \<le> 60000" using assms(3,4) by auto
  then have sz: "Udp_validateSize (of_nat (length ?pl))"
    by (subst validateSize_of_nat) auto
  have "Udp_validateFields d (received client IPPROTO_ICMP ?pl) (?pl @ stale)
    = Inr (uint (icmp_type e) =
        (if addr_eq d client then ICMP_DEST_UNREACH else ICMP_TIME_EXCEEDED))"
    using assms(2) by (simp add: Udp_validateFields_def read_serialized Let_def)
  then show ?thesis
    unfolding packet_isValid_cases
    by (simp add: isValid_ip4 [OF assms(1) n(2)] Udp_validateProtocol_def sz
        del: length_append length_ip4)
qed

text \<open>
  ICMPv6 errors for a UDP probe: the same with the types of ICMPv6.
\<close>

lemma udp_verdict_v6:
  assumes "\<not> isV4 client" "8 \<le> length rest" "length rest \<le> 50000"
    and "icmp_type e = 1 \<or> icmp_type e = 3"
  shows "packet_isValid (UdpPacket s d h)
      (received client IPPROTO_ICMPV6 (serialize_icmp e @ rest))
      (serialize_icmp e @ rest @ stale)
    = Inr (uint (icmp_type e) =
        (if addr_eq d client then ICMP6_DST_UNREACH else ICMP6_TIME_EXCEEDED))"
proof -
  let ?pl = "serialize_icmp e @ rest"
  have n: "16 \<le> length ?pl" "length ?pl \<le> 65535" using assms(2,3) by auto
  then have sz: "Udp_validateSize (of_nat (length ?pl))"
    by (subst validateSize_of_nat) auto
  have nz: "of_nat (length ?pl) \<noteq> (0 :: u64)"
    using received_size [of ?pl] n by (metis not_numeral_le_zero unat_0)
  have ver: "ip_version_at (serialize_icmp e @ r) = Inr 0" for r
    using assms(4) by (auto simp: ip_version_at_def serialize_icmp_def load8_def high_nibble_def)
  have "Udp_validateFields d (received client IPPROTO_ICMPV6 ?pl) (serialize_icmp e @ rest @ stale)
    = Inr (uint (icmp_type e) =
        (if addr_eq d client then ICMP6_DST_UNREACH else ICMP6_TIME_EXCEEDED))"
    using assms(1) by (simp add: Udp_validateFields_def read_serialized Let_def)
  with ver nz sz show ?thesis
    unfolding packet_isValid_cases
    by (simp add: isValid_bare [where v = 0] Udp_validateProtocol_def del: length_append)
qed

section \<open>A size that wraps around\<close>

lemma size_underflow:
  assumes "ip4_ok o1 oo" "n < 20 + length oo"
  shows "(of_nat n :: u64) - hdr_len oo \<ge> 16"
proof -
  have oo: "length oo \<le> 40" using assms(1) by (rule ip4_opts_le)
  have n: "unat (of_nat n :: u64) = n" using assms(2) oo by (simp add: unat_of_nat)
  have "unat ((of_nat n :: u64) - hdr_len oo) = n + 2 ^ 64 - (20 + length oo)"
    using assms n by (simp add: unat_sub_if' unat_hdr_len [OF assms(1)])
  then show ?thesis using oo by (simp add: word_le_nat_alt)
qed

end
