(* ===== verification/Scenario.thy ===== *)
theory Scenario
  imports Tracer Responses "HOL-Library.Code_Target_Nat"
begin

text \<open>
  A scripted system, on which the properties are applied to concrete runs: datagrams that arrive one
  after the other, a clock that only \<open>poll\<close> advances (by a millisecond when a datagram is there, by
  its timeout otherwise), descriptors that are numbered from 3. An event on descriptor 0 and the
  result of \<open>connect\<close> are part of the script.
\<close>

record world =
  wd_time :: int
  wd_open :: "int list"
  wd_inbox :: "(byte list \<times> SocketAddress) list"
  wd_stdin :: u16
  wd_connect :: int

definition scripted_poll :: "pollfd list \<Rightarrow> int \<Rightarrow> world \<Rightarrow> (int \<times> u16 list) \<times> world" where
  "scripted_poll fds t w =
     (let none = replicate (length fds div 2) 0 in
      if pfd_events (last fds) = POLLOUT then ((1, [POLLOUT]), w\<lparr>wd_time := wd_time w + 1\<rparr>)
      else if wd_stdin w \<noteq> 0
      then ((1, wd_stdin w # drop 1 none @ none), w\<lparr>wd_time := wd_time w + 1\<rparr>)
      else if wd_inbox w = []
      then ((0, none @ none), w\<lparr>wd_time := wd_time w + 1000000 * max 0 t + 1\<rparr>)
      else ((1, none @ POLLIN # drop 1 none), w\<lparr>wd_time := wd_time w + 1000000\<rparr>))"

definition nobody :: sockaddr_storage where
  "nobody = \<lparr>ss_family = 0, ss_port = 0, ss_word4 = 0, ss_word8 = 0, ss_word12 = 0,
             ss_word16 = 0, ss_word20 = 0, ss_word24 = 0\<rparr>"

text \<open>Numeric text: a character for the family and one for every byte.\<close>

definition scripted_ntop :: "int \<Rightarrow> u32 list \<Rightarrow> string" where
  "scripted_ntop fam parts =
     (if fam = AF_INET then CHR ''4'' else CHR ''6'') # map (\<lambda>b. char_of (unat b)) (concat (map le32 parts))"

fun read_parts :: "string \<Rightarrow> u32 list" where
  "read_parts (a # b # c # d # s) =
     rd32 (of_nat (of_char a)) (of_nat (of_char b)) (of_nat (of_char c)) (of_nat (of_char d))
       # read_parts s"
| "read_parts _ = []"

definition scripted_resolver :: resolver where
  "scripted_resolver =
     \<lparr>getaddrinfo = (\<lambda>s. if s \<noteq> [] \<and> hd s = CHR ''4'' then (0, AF_INET)
        else if s \<noteq> [] \<and> hd s = CHR ''6'' then (0, AF_INET6) else (- 2, 0)),
      inet_pton4 = (\<lambda>s. case read_parts (tl s) of [x] \<Rightarrow> (1, x) | _ \<Rightarrow> (0, 0)),
      inet_pton6 = (\<lambda>s. case read_parts (tl s) of
          [a, b, c, d] \<Rightarrow> (1, (a, b, c, d)) | _ \<Rightarrow> (0, (0, 0, 0, 0))),
      inet_ntop = scripted_ntop\<rparr>"

lemma scripted_resolver_ok: "resolver_ok scripted_resolver"
proof -
  have byte: "of_nat (of_char (char_of (unat (b :: byte)))) = b" for b
    using unsigned_less [of b, where 'a = nat] by simp
  then show ?thesis
    by (simp add: resolver_ok_def scripted_resolver_def scripted_ntop_def le32_def rd32_le32)
qed

definition scripted :: "world os" where
  "scripted =
     \<lparr>sys_rand = (\<lambda>w. (7, w)), sys_uninit16 = (\<lambda>w. (0, w)), sys_uninit32 = (\<lambda>w. (128, w)),
      sys_now = (\<lambda>w. (wd_time w, w)), sys_errno = (\<lambda>w. 0), sys_strerror = (\<lambda>n. ''error''),
      sys_resolver = scripted_resolver,
      sys_socket = (\<lambda>d ty p w.
        (let fd = foldr max (wd_open w) 2 + 1 in (fd, w\<lparr>wd_open := fd # wd_open w\<rparr>))),
      sys_setsockopt = (\<lambda>fd l opt v w. (0, w)), sys_bind = (\<lambda>fd a n w. (0, w)),
      sys_connect = (\<lambda>fd a n w. (wd_connect w, w)),
      sys_getsockname = (\<lambda>fd n w. ((0, home), w)),
      sys_close = (\<lambda>fd w. (0, w\<lparr>wd_open := filter (\<lambda>d. d \<noteq> fd) (wd_open w)\<rparr>)),
      sys_poll = scripted_poll, sys_sendto = (\<lambda>fd d a n w. (int (length d), w)),
      sys_recvfrom = (\<lambda>fd n w. case wd_inbox w of
          [] \<Rightarrow> ((- 1, [], nobody), w)
        | (d, a) # rest \<Rightarrow> ((int (length d), d, a), w\<lparr>wd_inbox := rest\<rparr>))\<rparr>"

definition start_world :: "(byte list \<times> SocketAddress) list \<Rightarrow> world" where
  "start_world inbox = \<lparr>wd_time = 0, wd_open = [4, 3], wd_inbox = inbox, wd_stdin = 0,
     wd_connect = 0\<rparr>"

section \<open>What the scripted system keeps\<close>

lemma scripted_steady: "steady_os scripted wd_time"
  by (auto simp: steady_os_def scripted_def scripted_poll_def Let_def split: list.splits)

lemma fresh_descriptor: "foldr max xs (2 :: int) + 1 \<notin> set xs \<and> 2 \<le> foldr max xs 2"
proof -
  have "x \<in> set xs \<Longrightarrow> x \<le> foldr max xs 2" for x by (induction xs) auto
  then have "foldr max xs 2 + 1 \<notin> set xs" by fastforce
  moreover have "2 \<le> foldr max xs (2 :: int)" by (induction xs) auto
  ultimately show ?thesis by simp
qed

lemma scripted_tracks: "tracks_descriptors scripted (\<lambda>w. set (wd_open w))"
proof -
  have "0 \<le> foldr max xs (2 :: int) + 1" for xs using fresh_descriptor [of xs] by linarith
  with fresh_descriptor show ?thesis
    by (auto simp: tracks_descriptors_def scripted_def Let_def)
qed

section \<open>A sender and its answers\<close>

text \<open>UDP over IPv6: one hop away answers a router, two hops away the destination.\<close>

definition udp_sender :: DataSender where
  "udp_sender = \<lparr>fdToProtocol = [3 \<mapsto> IPPROTO_ICMPV6], mReceivingSockets = [3],
                 mSendingSocket = 4, mFamily = AF_INET6\<rparr>"

definition udp_factory :: packet_factory where
  "udp_factory = UdpPacketFactory home6 server6 33434"

definition udp_error :: "u8 \<Rightarrow> byte list" where
  "udp_error ty = serialize_icmp (sample_icmp ty 0) @ replicate 8 0"

definition two_hops :: world where
  "two_hops = start_world [(udp_error 3, router6), (udp_error 1, server6)]"

definition sample_buffer :: "byte list" where
  "sample_buffer = replicate 136 0"

lemma udp_factory_destination [simp]: "factory_destination udp_factory = server6"
  by (simp add: udp_factory_def)

end
