(* ===== verification/Texts.thy ===== *)
theory Texts
  imports Tracer
begin

text \<open>
  The text of a result (\<open>toString\<close> in \<open>Probe.cpp\<close>) can be read back: lines end with a newline, the
  fields of a line with a blank, and no field has one inside.
\<close>

text \<open>What a line shows of a probe result: the text of the sender and the time, or that it failed.\<close>

definition sight_of :: "resolver \<Rightarrow> ProbeResult \<Rightarrow> (string \<times> int) option" where
  "sight_of R pr =
     (if pr_success pr
      then Some (case pr_responseSender pr of Some a \<Rightarrow> addr_toString R a | None \<Rightarrow> '''',
                 pr_waitedFor pr)
      else None)"

definition plain :: "string \<Rightarrow> bool" where
  "plain s \<longleftrightarrow> CHR '' '' \<notin> set s \<and> CHR 0x0A \<notin> set s"

definition plain_texts :: "resolver \<Rightarrow> bool" where
  "plain_texts R \<longleftrightarrow> (\<forall>fam ws. plain (inet_ntop R fam ws))"

lemma plain_append [simp]: "plain (s @ t) \<longleftrightarrow> plain s \<and> plain t"
  by (auto simp: plain_def)

lemma plain_address: "plain_texts R \<Longrightarrow> plain (addr_toString R a)"
  by (simp add: plain_texts_def addr_toString_def)

lemma digit_plain: "d < 10 \<Longrightarrow> CHR '' '' \<noteq> digit d \<and> CHR 0x0A \<noteq> digit d"
proof -
  assume d: "d < 10"
  have "c \<noteq> digit d" if "of_char c < (48 :: nat)" for c
    using of_char_digit [OF d] that by auto
  from this [of "CHR '' ''"] this [of "CHR 0x0A"] show ?thesis by simp
qed

lemma plain_dec: "plain (dec n)"
  unfolding plain_def by (metis dec_chars digit_plain)

lemma plain_time: "plain (removeTrailingZeros (to_string_ms t))"
proof -
  have "plain (to_string_ms t)"
    using plain_dec by (simp add: to_string_ms_def to_string_double_def Let_def pad6_def plain_def digit_plain
        split: prod.split)
  moreover have "set (removeTrailingZeros s) \<subseteq> set s" for s
    using set_dropWhileD by (fastforce simp: removeTrailingZeros_def)
  ultimately show ?thesis unfolding plain_def by blast
qed

text \<open>A time whose text is its exact value: not negative, and below fifty days.\<close>

definition printable :: "int \<Rightarrow> bool" where
  "printable t \<longleftrightarrow> 0 \<le> t \<and> t < 2 ^ 42"

text \<open>Above, a double no longer tells the microseconds apart.\<close>

lemma long_times_collide: "to_string_ms (2 ^ 60) = to_string_ms (2 ^ 60 + 1)"
proof -
  have "Suc 60 \<le> bits (2 ^ 60)" "Suc 60 \<le> bits (2 ^ 60 + 1)" "Suc 0 \<le> bits 1"
    by (rule bits_ge, simp)+
  moreover have "bits (2 ^ 60) \<le> 61" "bits (2 ^ 60 + 1) \<le> 61" "bits 1 \<le> 1"
    by (rule bits_le, simp)+
  ultimately have bits: "bits (2 ^ 60) = 61" "bits (2 ^ 60 + 1) = 61" "bits 1 = 1"
    by simp_all
  have "double_of_int (2 ^ 60) = double_of_int (2 ^ 60 + 1)"
    unfolding double_of_int_def to_double_def double_exponent_def Let_def prod.case bits
    by (simp add: scaled_def round_even_def)
  then show ?thesis by (simp add: to_string_ms_def)
qed

section \<open>One line\<close>

definition line :: "(string \<times> int) option \<Rightarrow> string" where
  "line v = (case v of
       None \<Rightarrow> '' *''
     | Some (a, t) \<Rightarrow> a @ ''  '' @ removeTrailingZeros (to_string_ms t) @ '' ms'')"

lemma probe_toString_line: "probe_toString R = (\<lambda>pr. line (sight_of R pr) @ [CHR 0x0A])"
  by (auto simp: fun_eq_iff probe_toString_def line_def sight_of_def)

lemma plain_sight:
  assumes "plain_texts R" "sight_of R pr = Some (a, t)"
  shows "plain a"
  using assms plain_address [OF assms(1)]
  by (auto simp: sight_of_def plain_def split: if_splits option.splits)

lemma line_no_newline:
  assumes "\<And>a t. v = Some (a, t) \<Longrightarrow> plain a"
  shows "CHR 0x0A \<notin> set (line v)"
  using assms plain_time by (auto simp: line_def plain_def split: option.splits)

lemma line_not_failed:
  assumes "plain a"
  shows "a @ ''  '' @ time @ '' ms'' \<noteq> '' *''"
proof
  assume "a @ ''  '' @ time @ '' ms'' = '' *''"
  then have "a @ CHR '' '' # CHR '' '' # time @ '' ms'' = [] @ CHR '' '' # ''*''" by simp
  from split_at [OF this] assms show False by (simp add: plain_def)
qed

lemma line_inject:
  assumes "line v = line v'"
    and "\<And>a t. v = Some (a, t) \<Longrightarrow> plain a \<and> printable t" "\<And>a t. v' = Some (a, t) \<Longrightarrow> plain a \<and> printable t"
  shows "v = v'"
proof (cases "v = None \<or> v' = None")
  case True
  with assms line_not_failed show ?thesis
    by (cases v; cases v') (auto simp: line_def dest!: sym [of "'' *''"])
next
  case False
  then obtain a t a' t' where v: "v = Some (a, t)" "v' = Some (a', t')" by auto
  let ?time = "\<lambda>t. removeTrailingZeros (to_string_ms t)"
  have plains: "CHR '' '' \<notin> set a" "CHR '' '' \<notin> set a'"
    and times: "0 \<le> t" "t < 2 ^ 42" "0 \<le> t'" "t' < 2 ^ 42"
    using assms(2) [OF v(1)] assms(3) [OF v(2)] by (simp_all add: plain_def printable_def)
  have "a @ CHR '' '' # CHR '' '' # ?time t @ '' ms'' = a' @ CHR '' '' # CHR '' '' # ?time t' @ '' ms''"
    using assms(1) by (simp add: v line_def)
  from split_at [OF this plains]
  have parts: "a = a'" "?time t @ CHR '' '' # ''ms'' = ?time t' @ CHR '' '' # ''ms''" by simp_all
  have "CHR '' '' \<notin> set (?time t)" "CHR '' '' \<notin> set (?time t')"
    using plain_time by (simp_all add: plain_def)
  with split_at [OF parts(2)] have "?time t = ?time t'" by simp
  with parts(1) ms_text_inject [OF times] v show ?thesis by simp
qed

section \<open>All lines\<close>

lemma lines_inject:
  assumes "concat (map (\<lambda>v. line v @ [CHR 0x0A]) vs) = concat (map (\<lambda>v. line v @ [CHR 0x0A]) vs')"
    and "\<And>a t. Some (a, t) \<in> set vs \<union> set vs' \<Longrightarrow> plain a \<and> printable t"
  shows "vs = vs'"
  using assms
proof (induction vs arbitrary: vs')
  case Nil
  then show ?case by (cases vs') auto
next
  case (Cons v vs)
  then obtain v' rest where vs': "vs' = v' # rest" by (cases vs') auto
  have plains: "\<And>a t. v = Some (a, t) \<Longrightarrow> plain a \<and> printable t" "\<And>a t. v' = Some (a, t) \<Longrightarrow> plain a \<and> printable t"
    using Cons.prems(2) by (auto simp: vs')
  have "line v @ CHR 0x0A # concat (map (\<lambda>v. line v @ [CHR 0x0A]) vs)
      = line v' @ CHR 0x0A # concat (map (\<lambda>v. line v @ [CHR 0x0A]) rest)"
    using Cons.prems(1) by (simp add: vs')
  from split_at [OF this line_no_newline line_no_newline] plains
  have "line v = line v'" and rest: "concat (map (\<lambda>v. line v @ [CHR 0x0A]) vs)
      = concat (map (\<lambda>v. line v @ [CHR 0x0A]) rest)"
    by blast+
  from line_inject [OF this(1)] plains have "v = v'" by blast
  moreover have "vs = rest" using Cons.prems(2) by (intro Cons.IH [OF rest]) (auto simp: vs')
  ultimately show ?case by (simp add: vs')
qed

text \<open>The TTL is the text before the first blank.\<close>

lemma result_text_inject:
  assumes "result_toString R r = result_toString R r'" "plain_texts R"
    and "\<forall>pr \<in> set (tr_probeResults r) \<union> set (tr_probeResults r'). printable (pr_waitedFor pr)"
  shows "tr_ttl r = tr_ttl r'
    \<and> map (sight_of R) (tr_probeResults r) = map (sight_of R) (tr_probeResults r')"
proof -
  let ?lines = "\<lambda>r. concat (map (\<lambda>v. line v @ [CHR 0x0A]) (map (sight_of R) (tr_probeResults r)))"
  have shows_as: "result_toString R x
      = dec (nat (uint (tr_ttl x))) @ CHR '' '' # CHR '' '' # ?lines x" for x
    by (simp add: result_toString_def to_string_def probe_toString_line comp_def)
  have blank: "CHR '' '' \<notin> set (dec n)" for n using plain_dec by (simp add: plain_def)
  note parts = split_at [OF assms(1) [unfolded shows_as] blank blank]
  then have "unat (tr_ttl r) = unat (tr_ttl r')" by simp
  then have "tr_ttl r = tr_ttl r'" by (rule word_unat_eq_iff [THEN iffD2])
  moreover have "map (sight_of R) (tr_probeResults r) = map (sight_of R) (tr_probeResults r')"
  proof (rule lines_inject)
    show "?lines r = ?lines r'" using parts by simp
    show "plain a \<and> printable t"
      if shown: "Some (a, t) \<in> set (map (sight_of R) (tr_probeResults r))
        \<union> set (map (sight_of R) (tr_probeResults r'))" for a t
    proof -
      obtain pr where pr: "pr \<in> set (tr_probeResults r) \<union> set (tr_probeResults r')"
        "sight_of R pr = Some (a, t)"
        using shown by fastforce
      from pr(2) have "pr_waitedFor pr = t" by (simp add: sight_of_def split: if_splits)
      with plain_sight [OF assms(2) pr(2)] assms(3) pr(1) show ?thesis by blast
    qed
  qed
  ultimately show ?thesis ..
qed

end
