(* ===== verification/PacketClaims.thy ===== *)
theory PacketClaims
  imports Scenario Texts
begin

text \<open>
  The properties of addresses, checksums and packets, and of the text of results, each applied to a
  concrete input.
\<close>

section \<open>Addresses\<close>

text \<open>
  C32. Addresses and their text. The text of an address parses to an address of the same family with
  the same number and port 0, when the library's \<open>inet_ntop\<close>, \<open>getaddrinfo\<close> and \<open>inet_pton\<close> agree
  with each other.
\<close>

theorem address_roundtrip:
  assumes "resolver_ok R"
  shows "\<exists>b. SocketAddress_of_string R uninit (addr_toString R a) = Inr b
    \<and> isV4 b = isV4 a \<and> addr_eq b a \<and> addr_eq a b \<and> ss_port b = 0"
  using assms by (rule addr_toString_parse)

theorem address_roundtrip_witness:
  "\<exists>b. SocketAddress_of_string scripted_resolver nobody (addr_toString scripted_resolver server)
      = Inr b \<and> isV4 b = isV4 server \<and> addr_eq b server \<and> addr_eq server b \<and> ss_port b = 0"
  by (rule address_roundtrip [OF scripted_resolver_ok])

text \<open>
  C33. Comparing addresses. Within a family two addresses compare equal exactly when they have the same
  text. Across families the comparison reads the right operand as the left one, and so bytes the
  constructor has not set: whatever the two addresses are, when they are constructed from their texts they
  can compare equal or not, each way round independently of the other, depending on what was in the
  storage before.
\<close>

theorem address_comparison:
  assumes "resolver_ok R"
  shows "if isV4 a = isV4 b then addr_eq a b \<longleftrightarrow> addr_toString R a = addr_toString R b
    else \<forall>equal equal_back. \<exists>u v x y. SocketAddress_of_string R u (addr_toString R a) = Inr x
      \<and> SocketAddress_of_string R v (addr_toString R b) = Inr y
      \<and> addr_eq x y = equal \<and> addr_eq y x = equal_back"
proof (cases "isV4 a = isV4 b")
  case True
  have "inet_ntop R AF_INET [x] = inet_ntop R AF_INET [y] \<Longrightarrow> x = y" for x y
    using assms unfolding resolver_ok_def by (metis prod.inject)
  moreover have "inet_ntop R AF_INET6 [x0, x1, x2, x3] = inet_ntop R AF_INET6 [y0, y1, y2, y3] \<Longrightarrow>
      [x0, x1, x2, x3] = [y0, y1, y2, y3]" for x0 x1 x2 x3 y0 y1 y2 y3
    using assms unfolding resolver_ok_def by (metis prod.inject)
  ultimately show ?thesis
    using True by (auto simp: addr_toString_def addr_eq_v4 addr_eq_v6 isV6_def u6_addr32_def)
next
  case False
  then consider "isV4 a" "\<not> isV4 b" | "isV4 b" "\<not> isV4 a" by blast
  then show ?thesis
  proof cases
    case 1
    then show ?thesis using mixed_comparison [OF assms 1] by simp
  next
    case 2
    with mixed_comparison [OF assms 2] show ?thesis by simp blast
  qed
qed

theorem address_comparison_witness:
  "(\<exists>u v x y. SocketAddress_of_string scripted_resolver u (addr_toString scripted_resolver server) = Inr x
     \<and> SocketAddress_of_string scripted_resolver v (addr_toString scripted_resolver server6) = Inr y
     \<and> addr_eq x y \<and> \<not> addr_eq y x)
   \<and> addr_toString scripted_resolver router6 \<noteq> addr_toString scripted_resolver server6"
proof -
  have families: "\<not> isV4 server6" "isV4 server" "isV4 router6 = isV4 server6" by simp_all
  then have "\<forall>equal equal_back. \<exists>u v x y.
      SocketAddress_of_string scripted_resolver u (addr_toString scripted_resolver server) = Inr x
      \<and> SocketAddress_of_string scripted_resolver v (addr_toString scripted_resolver server6) = Inr y
      \<and> addr_eq x y = equal \<and> addr_eq y x = equal_back"
    using address_comparison [OF scripted_resolver_ok, of server server6] by simp
  from this [rule_format, of True False]
    address_comparison [OF scripted_resolver_ok, of router6 server6] families
  show ?thesis by simp
qed

section \<open>Checksums\<close>

text \<open>
  C23. The checksums. For every header the ICMP checksum is, in network byte order, the checksum of
  RFC 1071 of the header's bytes with a zero checksum field; over IPv4 the TCP and the UDP checksum
  are those of the pseudo-header of RFC 793 (source, destination, protocol, length) followed by the
  header with a zero checksum field. (A UDP sum of zero is stored as it is, which a receiver reads as
  \<open>no checksum\<close>; RFC 768 wants all ones there.)
\<close>

theorem checksums_rfc1071:
  assumes "isV4 src"
  shows "\<exists>ic tc uc. computeICMPHeaderChecksum ih = Inr ic
     \<and> computeTCPHeaderChecksum th src dst = Inr tc
     \<and> computeUdpHeaderChecksum uh src dst = Inr uc
     \<and> unat (htons ic) = rfc1071 (serialize_icmp (ih\<lparr>icmp_checksum := 0\<rparr>))
     \<and> unat (htons tc)
         = rfc1071 (pseudo_header4 src dst 6 20 @ serialize_tcp (th\<lparr>tcp_check := 0\<rparr>))
     \<and> unat (htons uc)
         = rfc1071 (pseudo_header4 src dst 17 8 @ serialize_udp (uh\<lparr>udp_check := 0\<rparr>))"
proof -
  obtain ic tc uc where ic: "computeICMPHeaderChecksum ih = Inr ic"
      "unat ic = 65535 - oc16 (word_sum (serialize_icmp (ih\<lparr>icmp_checksum := 0\<rparr>)))"
    and tc: "computeTCPHeaderChecksum th src dst = Inr tc"
      "unat tc = 65535 - oc16 (pseudo_sum 6 20 src dst + word_sum (serialize_tcp (th\<lparr>tcp_check := 0\<rparr>)))"
    and uc: "computeUdpHeaderChecksum uh src dst = Inr uc"
      "unat uc = 65535 - oc16 (pseudo_sum 17 8 src dst + word_sum (serialize_udp (uh\<lparr>udp_check := 0\<rparr>)))"
    using icmp_checksum_value [of ih] tcp_checksum_value [OF assms, of th dst]
      udp_checksum_value [OF assms, of uh dst] by blast
  have "unat (htons ic) = rfc1071 (serialize_icmp (ih\<lparr>icmp_checksum := 0\<rparr>))"
    using ic(2) by (rule host_order_checksum) simp
  moreover have "unat (htons tc)
      = rfc1071 (pseudo_header4 src dst 6 20 @ serialize_tcp (th\<lparr>tcp_check := 0\<rparr>))"
    by (rule host_order_checksum) (simp_all add: tc(2) word_sum_append word_sum_pseudo_header4 [OF assms])
  moreover have "unat (htons uc)
      = rfc1071 (pseudo_header4 src dst 17 8 @ serialize_udp (uh\<lparr>udp_check := 0\<rparr>))"
    by (rule host_order_checksum) (simp_all add: uc(2) word_sum_append word_sum_pseudo_header4 [OF assms])
  ultimately show ?thesis
    using ic(1) tc(1) uc(1) by blast
qed

theorem checksums_rfc1071_witness:
  "\<exists>c. computeTCPHeaderChecksum (sample_tcp 50001 5 0) home server = Inr c
     \<and> unat (htons c) = rfc1071 (pseudo_header4 home server 6 20
         @ serialize_tcp (sample_tcp 50001 5 0\<lparr>tcp_check := 0\<rparr>))"
  using checksums_rfc1071 [of home] by (metis samples(3))

text \<open>
  The sum over an IPv6 pseudo-header takes the destination's words from the source address, so it
  is the sum RFC 8200 prescribes for a packet from the source to itself.
\<close>

lemma pseudoheader_v6_ignores_destination:
  assumes "isV6 src"
  shows "unat (computePseudoheaderChecksum p l src dst) = pseudo_sum p l src src"
  using assms by (simp add: unat_pseudoheader isV6_def)

lemma pseudoheader_v6_example:
  "unat (computePseudoheaderChecksum 6 20 home6 server6) = pseudo_sum 6 20 home6 home6
   \<and> pseudo_sum 6 20 home6 home6 \<noteq> pseudo_sum 6 20 home6 server6"
proof -
  have "pseudo_sum 6 20 home6 home6 \<noteq> pseudo_sum 6 20 home6 server6" by code_simp
  moreover have "isV6 home6" by (simp add: isV6_def)
  ultimately show ?thesis using pseudoheader_v6_ignores_destination by blast
qed

section \<open>Packets\<close>

text \<open>
  C24. What a factory creates. It fails exactly when the families of its two addresses differ, before
  it has done anything; otherwise the packet is addressed as the factory was told and is a well-formed
  probe: an echo request, or a SYN segment or an empty datagram from a port between 50000 and 65000;
  over IPv4 a receiver verifies its checksum, over IPv6 the field is zero for the kernel to fill.
\<close>

theorem created_packet:
  "(family (factory_destination f) = family (factory_source f)
     \<longrightarrow> (\<exists>p w'. createPacket os f w = (Inr p, w')
        \<and> getDestinationAddress p = factory_destination f \<and> getSourceAddress p = factory_source f
        \<and> wf_packet p))
   \<and> (family (factory_destination f) \<noteq> family (factory_source f)
     \<longrightarrow> createPacket os f w
        = (Inl (Runtime_error ''source address family doesnt match destination''), w))"
proof (cases "family (factory_destination f) = family (factory_source f)")
  case True
  obtain r w' where run: "createPacket os f w = (r, w')" by fastforce
  have "r \<noteq> Inl e" for e using run True createPacket_Inl [of os f w e w'] by auto
  then obtain p where "r = Inr p" by (cases r) auto
  with run have "createPacket os f w = (Inr p, w')" by simp
  with True createPacket_addresses [OF this] factory.create_wf [OF this] show ?thesis by blast
next
  case False
  then show ?thesis by (simp add: createPacket_mismatch)
qed

theorem created_packet_witness:
  "\<exists>p w'. createPacket scripted (TcpPacketFactory home server 80) two_hops = (Inr p, w')
     \<and> getDestinationAddress p = server \<and> getSourceAddress p = home \<and> wf_packet p"
  using created_packet [of "TcpPacketFactory home server 80" scripted two_hops]
  by (simp add: family_def v4_def)

section \<open>Result texts\<close>

text \<open>
  C28. The text of a result can be read back. Two results that print the same have the same TTL and the
  same probe results as far as they are printed: each failed in both, or succeeded in both, with the
  same address text and the same number of microseconds, although the text goes through a \<open>double\<close> and
  loses its trailing zeros, when no address text has a blank or a newline, no time is negative and all are
  below \<open>2 ^ 42\<close> microseconds (fifty days). Two longer times can have the same text.
\<close>

theorem printed_result:
  assumes "result_toString R r = result_toString R r'" "plain_texts R"
    and "\<forall>pr \<in> set (tr_probeResults r) \<union> set (tr_probeResults r'). printable (pr_waitedFor pr)"
  shows "tr_ttl r = tr_ttl r'
    \<and> map (sight_of R) (tr_probeResults r) = map (sight_of R) (tr_probeResults r')"
  using assms by (rule result_text_inject)

definition decimal :: resolver where
  "decimal = scripted_resolver\<lparr>inet_ntop := (\<lambda>fam ws. concat (map (\<lambda>x. ''.'' @ dec (unat x)) ws))\<rparr>"

lemma decimal_plain: "plain_texts decimal"
proof -
  have "plain (concat (map (\<lambda>x. ''.'' @ dec (unat (x :: u32))) ws))" for ws
    using plain_dec by (induction ws) (auto simp: plain_def)
  then show ?thesis by (simp add: plain_texts_def decimal_def)
qed

definition printed :: "int \<Rightarrow> TracerouteResult" where
  "printed t = \<lparr>tr_ttl = 3, tr_probeResults = [successProbe t server, failedProbe 5000000]\<rparr>"

theorem printed_result_witness:
  "result_toString decimal (printed 12340) \<noteq> result_toString decimal (printed 12341)"
proof
  assume "result_toString decimal (printed 12340) = result_toString decimal (printed 12341)"
  from printed_result [OF this decimal_plain]
  have "sight_of decimal (successProbe 12340 server) = sight_of decimal (successProbe 12341 server)"
    by (auto simp: printed_def printable_def)
  then show False by (simp add: sight_of_def)
qed

text \<open>
  C29. The text of a success. Below \<open>2 ^ 42\<close> microseconds the time is printed in milliseconds with its exact
  decimals, without the zeros at their end: no digit is lost in the \<open>double\<close>. The dot stays when there is
  no decimal left: a whole number of milliseconds is printed as \<open>5. ms\<close>.
\<close>

theorem printed_time:
  assumes "0 \<le> t" "t < 2 ^ 42"
  shows "probe_toString R (successProbe t a) = addr_toString R a @ ''  '' @ dec (nat t div 1000) @ ''.''
      @ removeTrailingZeros (pad3 (nat t mod 1000)) @ '' ms'' @ [CHR 0x0A]
    \<and> (1000 dvd t \<longrightarrow> probe_toString R (successProbe t a)
        = addr_toString R a @ ''  '' @ dec (nat t div 1000) @ ''. ms'' @ [CHR 0x0A])"
proof -
  have "removeTrailingZeros (pad3 n @ ''000'') = removeTrailingZeros (pad3 n)" for n
    by (simp add: removeTrailingZeros_def)
  with ms_text [OF assms]
  have "probe_toString R (successProbe t a) = addr_toString R a @ ''  '' @ dec (nat t div 1000) @ ''.''
      @ removeTrailingZeros (pad3 (nat t mod 1000)) @ '' ms'' @ [CHR 0x0A]"
    by (simp add: probe_toString_def successProbe_def)
  moreover have "removeTrailingZeros (pad3 (nat t mod 1000)) = []" if "1000 dvd t"
  proof -
    have "nat t mod 1000 = 0" using that assms(1) by (auto simp: nat_mult_distrib elim!: dvdE)
    then show ?thesis by (simp add: removeTrailingZeros_def pad3_def digit_0)
  qed
  ultimately show ?thesis by simp
qed

theorem printed_time_witness:
  "probe_toString decimal (successProbe 5000 server) = addr_toString decimal server @ ''  5. ms'' @ [CHR 0x0A]
   \<and> probe_toString decimal (successProbe 12340 server)
      = addr_toString decimal server @ ''  12.34 ms'' @ [CHR 0x0A]"
proof -
  have five: "dec (nat 5000 div 1000) = ''5''" and twelve: "dec (nat 12340 div 1000) = ''12''"
    and rest: "removeTrailingZeros (pad3 (nat 12340 mod 1000)) = ''34''"
    by code_simp+
  show ?thesis
    using printed_time [of 5000 decimal server] printed_time [of 12340 decimal server]
    by (simp only: five twelve rest) (simp add: removeTrailingZeros_def pad3_def digit_0)
qed

end
