(* ===== verification/SocketClaims.thy ===== *)
theory SocketClaims
  imports Scenario
begin

text \<open>
  The properties of the sockets, of waiting on them, of the sender built from them and of the source
  address lookup, each applied to a concrete input.
\<close>

section \<open>Sockets\<close>

text \<open>
  C31. The ICMPv6 filter lets exactly the answers a tracer can use through: destination unreachable
  (1), time exceeded (3) and echo reply (129).
\<close>

theorem icmp6_filter_passes:
  assumes "ty < 256"
  shows "filter_will_pass ty icmp6_filter \<longleftrightarrow> ty \<in> {1, 3, 129}"
  using assms by (rule icmp6_filter_types)

theorem icmp6_filter_passes_witness:
  "filter_will_pass 129 icmp6_filter \<and> \<not> filter_will_pass 128 icmp6_filter"
  using icmp6_filter_passes [of 129] icmp6_filter_passes [of 128] by simp

text \<open>
  C26. A sender of the sockets of any provider. The constructor accepts them, receives on those with
  the role to receive, sends on the last one, and knows the protocol of each.
\<close>

theorem provider_gives_sender:
  assumes "createSockets os prov a iface w = (Inr socks, w')"
  shows "\<exists>ds. DataSender_ctor socks fam = Inr ds \<and> mFamily ds = fam
    \<and> mReceivingSockets ds
        = map socket_fd (filter (\<lambda>s. role_and (se_role s) Role_Receive) socks)
    \<and> mSendingSocket ds = socket_fd (last socks)
    \<and> (distinct (map socket_fd socks) \<longrightarrow>
         map (fdToProtocol ds) (map socket_fd socks) = map Some (provider_protocols prov a))"
  using assms by (rule DataSender_of_provider)

theorem provider_gives_sender_witness:
  "\<exists>ds. DataSender_ctor
        [\<lparr>se_socket = \<lparr>sock_fd = 5, sock_protocol = IPPROTO_ICMP\<rparr>, se_role = Role_Receive\<rparr>,
         \<lparr>se_socket = \<lparr>sock_fd = 6, sock_protocol = IPPROTO_UDP\<rparr>, se_role = Role_Send\<rparr>] AF_INET
      = Inr ds
    \<and> mReceivingSockets ds = [5] \<and> mSendingSocket ds = 6
    \<and> map (fdToProtocol ds) [5, 6] = [Some IPPROTO_ICMP, Some IPPROTO_UDP]"
proof -
  have "createSockets scripted UdpSocketProvider home (Some ''eth0'') two_hops
      = (Inr [\<lparr>se_socket = \<lparr>sock_fd = 5, sock_protocol = IPPROTO_ICMP\<rparr>, se_role = Role_Receive\<rparr>,
         \<lparr>se_socket = \<lparr>sock_fd = 6, sock_protocol = IPPROTO_UDP\<rparr>, se_role = Role_Send\<rparr>],
       two_hops\<lparr>wd_open := [6, 5, 4, 3]\<rparr>)"
    by (simp add: UdpSocketProvider_createSockets_def setupIcmpRawSocket_def
        setupUdpRawSocket_def bindToIpAddressAndInterface_def bindInterface_def bindIpAddress_def
        io_simps scripted_def two_hops_def start_world_def isV6_def Let_def)
  from provider_gives_sender [OF this, of AF_INET] show ?thesis
    by (auto simp: socket_fd_def)
qed

section \<open>Waiting\<close>

text \<open>
  \<open>Poll\<close> on several descriptors. When the doubled entries for descriptor 0 report nothing, the
  result is the first descriptor of the list with an event, or nothing after the timeout.
\<close>

theorem poll_first_ready:
  assumes "sys_poll os (poll_entries fds ev) (to_int t) w
      = ((n, replicate (length fds) 0 @ rs), w')"
    and "length rs = length fds" "0 \<le> n"
  shows "Poll_any os fds ev t w
    = (Inr (if n = 0 then None else map_option fst (find (\<lambda>(fd, r). r \<noteq> 0) (zip fds rs))), w')"
  using assms by (rule Poll_any_ready)

theorem poll_first_ready_witness:
  "Poll_any scripted [3, 5] POLLIN 20 two_hops = (Inr (Some 3), two_hops\<lparr>wd_time := 1000000\<rparr>)"
proof -
  have "sys_poll scripted (poll_entries [3, 5] POLLIN) (to_int 20) two_hops
      = ((1, [0, 0, 1, 0]), two_hops\<lparr>wd_time := 1000000\<rparr>)"
    by code_simp
  then show ?thesis
    using poll_first_ready [of scripted "[3, 5]" 1 20 two_hops 1 "[1, 0]"] by simp
qed

text \<open>
  C30. The entries of descriptor 0 that the code adds by mistake decide the outcome as soon as they
  report anything, which \<open>poll\<close> does for a closed standard input without being asked: the receive is
  tried on descriptor 0 and always ends in an exception, although answers may be waiting.
\<close>

theorem stdin_breaks_receiving:
  assumes "sys_poll os (poll_entries (mReceivingSockets ds) POLLIN) (to_int t) w
      = ((n, r # rs), w1)" "r \<noteq> 0" "0 < n" "mReceivingSockets ds \<noteq> []"
    and "fdToProtocol ds 0 = None" "sys_recvfrom os 0 m w1 = ((len, data, a), w2)"
  shows "tryReceiving os ds buf m t w
    = (Inl (if len < 0 then Runtime_error (''Error occured on recvfrom: '' @ errno_string os w2)
            else Out_of_range ''map::at''), w2)"
  using assms by (rule tryReceiving_stdin)

theorem stdin_breaks_receiving_witness:
  "fst (tryReceiving scripted udp_sender [0] 1 20 (two_hops\<lparr>wd_stdin := 32\<rparr>))
    = Inl (Out_of_range ''map::at'')"
proof -
  let ?w = "two_hops\<lparr>wd_stdin := 32\<rparr>"
  have "sys_poll scripted (poll_entries (mReceivingSockets udp_sender) POLLIN) (to_int 20) ?w
      = ((1, [32, 0]), ?w\<lparr>wd_time := 1\<rparr>)"
    by code_simp
  moreover have "sys_recvfrom scripted 0 1 (?w\<lparr>wd_time := 1\<rparr>) = ((16, udp_error 3, router6),
      ?w\<lparr>wd_time := 1, wd_inbox := [(udp_error 1, server6)]\<rparr>)"
    by code_simp
  ultimately show ?thesis
    using stdin_breaks_receiving [of scripted udp_sender 20 ?w 1 32 "[0]"]
    by (simp add: udp_sender_def)
qed

text \<open>
  What a receive returns. The description is that of the datagram the kernel delivered on the
  socket that was ready: its sender, its size, the protocol the socket was registered with; its bytes
  are at the start of the buffer, and behind them the buffer is as it was.
\<close>

theorem received_datagram:
  assumes "tryReceiving os ds buf n t w = (Inr (Some info, buf'), w')"
  shows "\<exists>fd len data w1. Poll_any os (mReceivingSockets ds) POLLIN t w = (Inr (Some fd), w1)
    \<and> sys_recvfrom os fd n w1 = ((len, data, ri_client info), w') \<and> 0 \<le> len
    \<and> fdToProtocol ds fd = Some (ri_protocol info) \<and> ri_size info = word_of_int len
    \<and> (length data \<le> length buf \<longrightarrow> take (length data) buf' = data
         \<and> drop (length data) buf' = drop (length data) buf)"
  using tryReceiving_Some [OF assms] write_front_parts by blast

theorem received_datagram_witness:
  "\<exists>fd len data w1. Poll_any scripted (mReceivingSockets udp_sender) POLLIN 20 two_hops
      = (Inr (Some fd), w1)
    \<and> sys_recvfrom scripted fd 136 w1
        = ((len, data, router6), two_hops\<lparr>wd_time := 1000000, wd_inbox := [(udp_error 1, server6)]\<rparr>)
    \<and> fdToProtocol udp_sender fd = Some IPPROTO_ICMPV6"
proof -
  have "tryReceiving scripted udp_sender sample_buffer 136 20 two_hops
      = (Inr (Some \<lparr>ri_client = router6, ri_protocol = IPPROTO_ICMPV6, ri_size = 16\<rparr>,
              write_front (udp_error 3) sample_buffer),
         two_hops\<lparr>wd_time := 1000000, wd_inbox := [(udp_error 1, server6)]\<rparr>)"
    by code_simp
  from received_datagram [OF this] show ?thesis by fastforce
qed

section \<open>The source address\<close>

text \<open>
  C40. The lookup of the source address closes its socket when it returns an address, and only then:
  every exception leaves the descriptor open.
\<close>

theorem lookup_leaks_on_error:
  assumes "tracks_descriptors os opened"
    and "sys_socket os (family destination) 2 IPPROTO_UDP w = (fd, w1)" "0 \<le> fd"
    and "resolveSourceAddress os destination iface w = (r, w')"
  shows "opened w' = (case r of Inl e \<Rightarrow> insert fd (opened w) | Inr a \<Rightarrow> opened w)"
  using assms by (rule resolveSourceAddress_descriptors)

theorem lookup_leaks_on_error_witness:
  "set (wd_open (snd (resolveSourceAddress scripted server None (two_hops\<lparr>wd_connect := - 1\<rparr>))))
    = {3, 4, 5}"
proof -
  let ?w = "two_hops\<lparr>wd_connect := - 1\<rparr>"
  have "sys_socket scripted (family server) 2 IPPROTO_UDP ?w = (5, ?w\<lparr>wd_open := [5, 4, 3]\<rparr>)"
    by (simp add: scripted_def two_hops_def start_world_def)
  moreover have "resolveSourceAddress scripted server None ?w
      = (Inl (Runtime_error ''Failed to resolve source address. Error: connect() failed''),
         ?w\<lparr>wd_open := [5, 4, 3]\<rparr>)"
    by (simp add: resolveSourceAddress_def io_simps scripted_def two_hops_def start_world_def)
  ultimately have "set (wd_open (?w\<lparr>wd_open := [5, 4, 3]\<rparr>)) = insert 5 (set (wd_open ?w))"
    using lookup_leaks_on_error [OF scripted_tracks, of server ?w 5 "?w\<lparr>wd_open := [5, 4, 3]\<rparr>" None
        "Inl (Runtime_error ''Failed to resolve source address. Error: connect() failed'')"
        "?w\<lparr>wd_open := [5, 4, 3]\<rparr>"] by simp
  moreover have "set (wd_open ?w) = {3, 4}" by (auto simp: two_hops_def start_world_def)
  ultimately show ?thesis
    using \<open>resolveSourceAddress scripted server None ?w = _\<close> by auto
qed

end
