(* ===== verification/Verdicts.thy ===== *)
theory Verdicts
  imports Responses
begin

text \<open>
  What the validators say of a datagram, over IPv4 and over IPv6 at once: the properties of
  \<open>ResponseValidators/\<close>, each applied to concrete datagrams.
\<close>

section \<open>Datagrams of either version\<close>

text \<open>
  A raw socket delivers a payload behind its IPv4 header or, over IPv6, bare. An ICMP error quotes an
  IP header of its own version.
\<close>

datatype envelope = Over4 ipv4_header "byte list" | Over6

fun enveloped :: "envelope \<Rightarrow> byte list \<Rightarrow> byte list" where
  "enveloped (Over4 hdr opts) payload = ip4_datagram hdr opts payload"
| "enveloped Over6 payload = payload"

fun envelope_ok :: "envelope \<Rightarrow> bool" where
  "envelope_ok (Over4 hdr opts) \<longleftrightarrow> ip4_ok hdr opts"
| "envelope_ok Over6 \<longleftrightarrow> True"

fun over4 :: "envelope \<Rightarrow> bool" where
  "over4 (Over4 hdr opts) \<longleftrightarrow> True"
| "over4 Over6 \<longleftrightarrow> False"

definition icmp_protocol :: "envelope \<Rightarrow> int" where
  "icmp_protocol env = (if over4 env then IPPROTO_ICMP else IPPROTO_ICMPV6)"

definition quotable :: "envelope \<Rightarrow> byte list \<Rightarrow> bool" where
  "quotable env q \<longleftrightarrow>
     (if over4 env then \<exists>hdr opts. ip4_ok hdr opts \<and> q = ip4_datagram hdr opts [] else ip6_ok q)"

definition time_exceeded :: "envelope \<Rightarrow> int" where
  "time_exceeded env = (if over4 env then ICMP_TIME_EXCEEDED else ICMP6_TIME_EXCEEDED)"

definition dest_unreach :: "envelope \<Rightarrow> int" where
  "dest_unreach env = (if over4 env then ICMP_DEST_UNREACH else ICMP6_DST_UNREACH)"

text \<open>The verdict on a payload that arrived, in front of what earlier datagrams left in the buffer.\<close>

definition verdict ::
    "packet \<Rightarrow> SocketAddress \<Rightarrow> envelope \<Rightarrow> int \<Rightarrow> byte list \<Rightarrow> byte list \<Rightarrow> exn + bool" where
  "verdict p client env protocol payload stale =
     packet_isValid p (received client protocol (enveloped env payload)) (enveloped env payload @ stale)"

lemma ip4_datagram_append: "ip4_datagram hdr opts x = ip4_datagram hdr opts [] @ x"
  by (simp add: ip4_datagram_def)

lemma samples_quotable [simp]:
  "quotable Over6 sample_ip6" "quotable (Over4 h oo) (ip4_datagram sample_ip4 [] [])"
  by (auto simp: quotable_def intro!: exI [of _ sample_ip4] exI [of _ "[]"])

section \<open>Memory safety\<close>

text \<open>
  C17. No validator reads outside a buffer of 136 bytes, whatever they are: its answer is a verdict or
  one of the two exceptions about the IP header, the first of them for an empty datagram only.
\<close>

theorem validators_memory_safe:
  assumes "136 \<le> length resp"
  shows "packet_isValid p info resp \<in> {Inr True, Inr False,
      Inl (Runtime_error ''Response does not contain valid ipHeader'')}
    \<or> packet_isValid p info resp
        = Inl (Runtime_error ''Response does not contain an ipHeader'') \<and> ri_size info = 0"
proof (cases "packet_isValid p info resp")
  case (Inl e)
  with probe.check_error [OF Inl assms] show ?thesis by auto
qed auto

theorem validators_memory_safe_witness:
  "packet_isValid (UdpPacket home server sample_udp)
      \<lparr>ri_client = router, ri_protocol = IPPROTO_ICMP, ri_size = 20\<rparr> (0x45 # replicate 135 0)
    \<noteq> Inl Fault"
  using validators_memory_safe [of "0x45 # replicate 135 0" "UdpPacket home server sample_udp"
      "\<lparr>ri_client = router, ri_protocol = IPPROTO_ICMP, ri_size = 20\<rparr>"]
  by (auto simp del: packet_isValid_cases)

section \<open>ICMP errors\<close>

lemma quoted_tcp:
  assumes "envelope_ok env" "quotable env q" "isV4 client = over4 env" "8 \<le> n"
    and "over4 env \<or> icmp_type e \<in> {1, 3}"
  shows "verdict (TcpPacket s d h) client env (icmp_protocol env)
      (serialize_icmp e @ q @ take n (serialize_tcp t)) stale
    = Inr (tcp_seq t = tcp_seq h
        \<and> (uint (icmp_type e) = time_exceeded env
           \<or> uint (icmp_type e) = dest_unreach env \<and> addr_eq client d))"
proof (cases env)
  case (Over4 o1 oo)
  with assms(2) obtain i io where "ip4_ok i io" "q @ r = ip4_datagram i io r" for r
    by (auto simp: quotable_def ip4_datagram_append [symmetric])
  with Over4 assms error_quoting_tcp_v4 [of o1 oo i io client n s d h e t stale] show ?thesis
    by (simp add: verdict_def icmp_protocol_def time_exceeded_def dest_unreach_def
        del: packet_isValid_cases)
next
  case Over6
  with assms error_quoting_tcp_v6 [of q client n e s d h t stale] show ?thesis
    by (simp add: verdict_def icmp_protocol_def time_exceeded_def dest_unreach_def quotable_def
        del: packet_isValid_cases)
qed

text \<open>
  C18. ICMP errors for a TCP probe. An error that quotes an IP header (options included) and at least
  the first eight bytes of a TCP segment is accepted for a probe exactly when the quoted sequence
  number is the probe's and the error is a time exceeded, or a destination unreachable that the
  destination itself sent. What lies behind the datagram in the receive buffer does not matter.
\<close>

theorem error_quoting_tcp:
  assumes "envelope_ok env" "quotable env q" "isV4 client = over4 env" "8 \<le> n"
    and "over4 env \<or> icmp_type e \<in> {1, 3}"
  shows "verdict (TcpPacket s d h) client env (icmp_protocol env)
      (serialize_icmp e @ q @ take n (serialize_tcp t)) stale
    = Inr (tcp_seq t = tcp_seq h
        \<and> (uint (icmp_type e) = time_exceeded env
           \<or> uint (icmp_type e) = dest_unreach env \<and> addr_eq client d))"
  using assms by (rule quoted_tcp)

theorem error_quoting_tcp_witness:
  "verdict (TcpPacket home server (sample_tcp 50001 5 0)) router (Over4 sample_ip4 []) IPPROTO_ICMP
     (serialize_icmp (sample_icmp 11 0) @ ip4_datagram sample_ip4 [] []
       @ take 8 (serialize_tcp (sample_tcp 50001 5 0))) [1, 2] = Inr True
   \<and> verdict (TcpPacket home6 server6 (sample_tcp 50001 5 0)) router6 Over6 IPPROTO_ICMPV6
     (serialize_icmp (sample_icmp 1 0) @ sample_ip6
       @ take 20 (serialize_tcp (sample_tcp 50001 5 0))) [1, 2] = Inr False"
  using error_quoting_tcp [of "Over4 sample_ip4 []" "ip4_datagram sample_ip4 [] []" router 8
      "sample_icmp 11 0" home server "sample_tcp 50001 5 0" "sample_tcp 50001 5 0" "[1, 2]"]
    error_quoting_tcp [of Over6 sample_ip6 router6 20 "sample_icmp 1 0" home6 server6
      "sample_tcp 50001 5 0" "sample_tcp 50001 5 0" "[1, 2]"]
  by (simp add: icmp_protocol_def time_exceeded_def dest_unreach_def)

lemma quoted_echo:
  assumes "envelope_ok env" "quotable env q" "icmp_type e = 3 \<or> over4 env \<and> icmp_type e = 11"
  shows "verdict (IcmpPacket s d h) client env (icmp_protocol env)
      (serialize_icmp e @ q @ serialize_icmp t) stale = Inr (icmp_id t = icmp_id h)"
proof (cases env)
  case (Over4 o1 oo)
  with assms(2) obtain i io where "ip4_ok i io" "q @ r = ip4_datagram i io r" for r
    by (auto simp: quotable_def ip4_datagram_append [symmetric])
  with Over4 assms error_quoting_echo_v4 [of o1 oo i io e s d h client t stale] show ?thesis
    by (simp add: verdict_def icmp_protocol_def del: packet_isValid_cases)
next
  case Over6
  with assms error_quoting_echo_v6 [of q e s d h client t stale] show ?thesis
    by (simp add: verdict_def icmp_protocol_def quotable_def del: packet_isValid_cases)
qed

text \<open>
  C20. ICMP errors for an echo request. A time exceeded is accepted exactly when the quoted identifier
  is the probe's; over IPv4 so is a destination unreachable (its type 3 is the number of the ICMPv6
  time exceeded).
\<close>

theorem error_quoting_echo:
  assumes "envelope_ok env" "quotable env q" "icmp_type e = 3 \<or> over4 env \<and> icmp_type e = 11"
  shows "verdict (IcmpPacket s d h) client env (icmp_protocol env)
      (serialize_icmp e @ q @ serialize_icmp t) stale = Inr (icmp_id t = icmp_id h)"
  using assms by (rule quoted_echo)

theorem error_quoting_echo_witness:
  "verdict (IcmpPacket home server (sample_icmp 8 77)) router (Over4 sample_ip4 []) IPPROTO_ICMP
     (serialize_icmp (sample_icmp 3 0) @ ip4_datagram sample_ip4 [] []
       @ serialize_icmp (sample_icmp 8 77)) [1, 2] = Inr True
   \<and> verdict (IcmpPacket home6 server6 (sample_icmp 128 77)) router6 Over6 IPPROTO_ICMPV6
     (serialize_icmp (sample_icmp 3 0) @ sample_ip6 @ serialize_icmp (sample_icmp 128 78)) [1, 2]
     = Inr False"
  using error_quoting_echo [of "Over4 sample_ip4 []" "ip4_datagram sample_ip4 [] []"
      "sample_icmp 3 0" home server "sample_icmp 8 77" router "sample_icmp 8 77" "[1, 2]"]
    error_quoting_echo [of Over6 sample_ip6 "sample_icmp 3 0" home6 server6 "sample_icmp 128 77"
      router6 "sample_icmp 128 78" "[1, 2]"]
  by (simp add: icmp_protocol_def)

lemma quoted_udp:
  assumes "envelope_ok env" "isV4 client = over4 env" "8 \<le> length rest" "length rest \<le> 50000"
    and "over4 env \<or> icmp_type e \<in> {1, 3}"
  shows "verdict (UdpPacket s d h) client env (icmp_protocol env) (serialize_icmp e @ rest) stale
    = Inr (uint (icmp_type e) = (if addr_eq d client then dest_unreach env else time_exceeded env))"
proof (cases env)
  case (Over4 o1 oo)
  with assms udp_verdict_v4 [of o1 oo client rest s d h e stale] show ?thesis
    by (simp add: verdict_def icmp_protocol_def time_exceeded_def dest_unreach_def
        del: packet_isValid_cases)
next
  case Over6
  with assms udp_verdict_v6 [of client rest e s d h stale] show ?thesis
    by (simp add: verdict_def icmp_protocol_def time_exceeded_def dest_unreach_def
        del: packet_isValid_cases)
qed

text \<open>
  C22. ICMP errors for a UDP probe. The destination must answer with a destination unreachable, any
  other host with a time exceeded; the quoted datagram is not looked at.
\<close>

theorem udp_verdict:
  assumes "envelope_ok env" "isV4 client = over4 env" "8 \<le> length rest" "length rest \<le> 50000"
    and "over4 env \<or> icmp_type e \<in> {1, 3}"
  shows "verdict (UdpPacket s d h) client env (icmp_protocol env) (serialize_icmp e @ rest) stale
    = Inr (uint (icmp_type e) = (if addr_eq d client then dest_unreach env else time_exceeded env))"
  using assms by (rule quoted_udp)

theorem udp_verdict_witness:
  "verdict (UdpPacket home server sample_udp) router (Over4 sample_ip4 []) IPPROTO_ICMP
     (serialize_icmp (sample_icmp 11 0) @ replicate 8 9) [1, 2] = Inr True
   \<and> verdict (UdpPacket home6 server6 sample_udp) server6 Over6 IPPROTO_ICMPV6
     (serialize_icmp (sample_icmp 3 0) @ replicate 8 9) [1, 2] = Inr False"
  using udp_verdict [of "Over4 sample_ip4 []" router "replicate 8 9" "sample_icmp 11 0" home server
      sample_udp "[1, 2]"]
    udp_verdict [of Over6 server6 "replicate 8 9" "sample_icmp 3 0" home6 server6 sample_udp "[1, 2]"]
  by (simp add: icmp_protocol_def time_exceeded_def dest_unreach_def)

section \<open>Answers of the destination\<close>

text \<open>
  C21. Echo replies, with any payload: accepted exactly when the sender is the destination and the
  identifier is the probe's.
\<close>

theorem echo_reply:
  assumes "envelope_ok env" "icmp_type e = (if over4 env then 0 else 129)" "length payload \<le> 50000"
  shows "verdict (IcmpPacket s d h) client env (icmp_protocol env) (serialize_icmp e @ payload) stale
    = Inr (addr_eq client d \<and> icmp_id e = icmp_id h)"
proof (cases env)
  case (Over4 o1 oo)
  with assms echo_reply_v4 [of o1 oo e payload s d h client stale] show ?thesis
    by (simp add: verdict_def icmp_protocol_def del: packet_isValid_cases)
next
  case Over6
  with assms echo_reply_v6 [of e payload s d h client stale] show ?thesis
    by (simp add: verdict_def icmp_protocol_def del: packet_isValid_cases)
qed

theorem echo_reply_witness:
  "verdict (IcmpPacket home server (sample_icmp 8 77)) server (Over4 sample_ip4 []) IPPROTO_ICMP
     (serialize_icmp (sample_icmp 0 77) @ [9, 9]) [1, 2] = Inr True
   \<and> verdict (IcmpPacket home6 server6 (sample_icmp 128 77)) router6 Over6 IPPROTO_ICMPV6
     (serialize_icmp (sample_icmp 129 77) @ [9, 9]) [1, 2] = Inr False"
  using echo_reply [of "Over4 sample_ip4 []" "sample_icmp 0 77" "[9, 9]" home server
      "sample_icmp 8 77" server "[1, 2]"]
    echo_reply [of Over6 "sample_icmp 129 77" "[9, 9]" home6 server6 "sample_icmp 128 77" router6
      "[1, 2]"]
  by (simp add: icmp_protocol_def)

text \<open>
  C19. TCP answers (a SYN+ACK or a RST), with any options and payload: accepted exactly when the
  destination sent it and it acknowledges the probe's sequence number, as 32-bit numbers in host
  order, so also across the wrap-around. Over IPv6 the high nibble of the port it comes from must be
  neither 4 nor 6.
\<close>

theorem tcp_answer:
  assumes "envelope_ok env" "over4 env \<or> port_nibble t \<notin> {4, 6}" "length payload \<le> 50000"
  shows "verdict (TcpPacket s d h) client env IPPROTO_TCP (serialize_tcp t @ payload) stale
    = Inr (addr_eq d client \<and> ntohl (tcp_ack_seq t) = ntohl (tcp_seq h) + 1)"
proof (cases env)
  case (Over4 o1 oo)
  with assms tcp_answer_v4 [of o1 oo payload s d h client t stale] show ?thesis
    by (simp add: verdict_def del: packet_isValid_cases)
next
  case Over6
  with assms tcp_answer_v6 [of t payload s d h client stale] show ?thesis
    by (simp add: verdict_def del: packet_isValid_cases)
qed

theorem tcp_answer_witness:
  "verdict (TcpPacket home server (sample_tcp 50001 41 0)) server (Over4 sample_ip4 []) IPPROTO_TCP
     (serialize_tcp (sample_tcp 80 0 42) @ [9, 9]) [1, 2] = Inr True
   \<and> verdict (TcpPacket home6 server6 (sample_tcp 50001 41 0)) server6 Over6 IPPROTO_TCP
     (serialize_tcp (sample_tcp 80 0 42) @ [9, 9]) [1, 2] = Inr True"
  using tcp_answer [of "Over4 sample_ip4 []" "sample_tcp 80 0 42" "[9, 9]" home server
      "sample_tcp 50001 41 0" server "[1, 2]"]
    tcp_answer [of Over6 "sample_tcp 80 0 42" "[9, 9]" home6 server6 "sample_tcp 50001 41 0" server6
      "[1, 2]"]
  by simp

section \<open>Where the validators go wrong\<close>

text \<open>
  C39. A truncated response is accepted. The size left behind an IP header is an unsigned difference:
  when fewer bytes were received than the header says it has, the difference wraps around, the size
  check passes, and the ICMP type is read from what an earlier datagram left in the buffer.
\<close>

theorem truncated_accepted:
  assumes "ip4_ok o1 oo" "isV4 client" "\<not> addr_eq d client" "icmp_type e = 11"
    and "0 < n" "n < 20 + length oo"
  shows "packet_isValid (UdpPacket s d h)
      \<lparr>ri_client = client, ri_protocol = IPPROTO_ICMP, ri_size = of_nat n\<rparr>
      (ip4_datagram o1 oo (serialize_icmp e @ stale)) = Inr True"
proof -
  let ?buf = "ip4_datagram o1 oo (serialize_icmp e @ stale)"
  have "unat (of_nat n :: u64) = n"
    using assms(6) ip4_opts_le [OF assms(1)] by (simp add: unat_of_nat)
  then have nz: "(of_nat n :: u64) \<noteq> 0" using assms(5) by (metis less_irrefl unat_0)
  have v: "ip_version_at ?buf = Inr 4"
    using ip4_version [OF assms(1), of "serialize_icmp e @ stale" "[]"] by simp
  have hs: "getIpHeaderSize ?buf = Inr (hdr_len oo)"
    using ip4_header_size [OF assms(1), of "serialize_icmp e @ stale" "[]"] by simp
  have dr: "drop (unat (hdr_len oo)) ?buf = serialize_icmp e @ stale"
    using drop_ip4 [OF assms(1), of "serialize_icmp e @ stale" "[]"] by simp
  have sz: "Udp_validateSize (of_nat n - hdr_len oo)"
    using size_underflow [OF assms(1,6)] by (simp add: Udp_validateSize_def)
  have "Udp_validateFields d
      \<lparr>ri_client = client, ri_protocol = IPPROTO_ICMP, ri_size = of_nat n - hdr_len oo\<rparr>
      (serialize_icmp e @ stale) = Inr True"
    using assms(2-4) by (simp add: Udp_validateFields_def read_serialized Let_def)
  then show ?thesis
    unfolding packet_isValid_cases
    using nz v hs sz
    by (simp add: isValid_behind_header [where v = 4 and n = "hdr_len oo"] dr
        Udp_validateProtocol_def del: unat_hdr_len)
qed

theorem truncated_accepted_witness:
  "packet_isValid (UdpPacket home server sample_udp)
      \<lparr>ri_client = router, ri_protocol = IPPROTO_ICMP, ri_size = of_nat 1\<rparr>
      (ip4_datagram sample_ip4 [] (serialize_icmp (sample_icmp 11 0) @ [1, 2])) = Inr True"
  using truncated_accepted [of sample_ip4 "[]" router server "sample_icmp 11 0" 1 home sample_udp "[1, 2]"]
  by (simp del: packet_isValid_cases)

text \<open>
  Over IPv6 a TCP answer from a port whose high nibble is 6 is taken for an IPv6 header: forty
  bytes are skipped, the size wraps around, and with an empty buffer behind it the answer is refused
  even when it acknowledges the probe.
\<close>

lemma misread_port_v6:
  assumes "port_nibble t = 6" "unat (ntohl (tcp_seq h)) < 65001" "32 \<le> k"
  shows "packet_isValid (TcpPacket s d h) (received client IPPROTO_TCP (serialize_tcp t))
      (serialize_tcp t @ replicate k 0) = Inr False"
proof -
  let ?buf = "serialize_tcp t @ replicate k 0"
  have v: "ip_version_at ?buf = Inr 6" using tcp_version_nibble assms(1) by simp
  then have hs: "getIpHeaderSize ?buf = Inr 40" by (simp add: getIpHeaderSize_def)
  have dr: "drop 40 ?buf = replicate (k - 20) 0" by simp
  have "ntohl (tcp_seq h) \<noteq> - 1"
    using assms(2) by (auto simp: unsigned_minus_1_eq_mask mask_eq_exp_minus_1)
  moreover have "tcp_ack_seq_at (replicate (k - 20) 0) = Inr 0"
    using assms(3) by (simp add: tcp_ack_seq_at_def load32_def rd32_def)
  moreover have "ntohl 0 = 0" by (simp add: ntohl_def htonl_def rd32_def)
  ultimately have "TcpToTcp_validateFields d h info (replicate (k - 20) 0) = Inr False" for info
    by (auto simp: TcpToTcp_validateFields_def Let_def)
  then show ?thesis
    unfolding packet_isValid_cases
    using hs v dr by (simp add: isValid_behind_header [where v = 6 and n = 40])
qed

lemma misread_port_v6_example:
  "packet_isValid (TcpPacket home6 server6 (sample_tcp 50001 41 0))
      (received server6 IPPROTO_TCP (serialize_tcp (sample_tcp 0x6000 0 42)))
      (serialize_tcp (sample_tcp 0x6000 0 42) @ replicate 40 0) = Inr False"
  using misread_port_v6 [of "sample_tcp 0x6000 0 42" "sample_tcp 50001 41 0" 40 home6 server6 server6]
  by (simp del: packet_isValid_cases)

end
