(* ===== verification/Sequential.thy ===== *)
theory Sequential
  imports Tracer
begin

text \<open>
  \<open>src/SequentialTraceroute.cpp\<close>: one probe at a time, each waited for before the next is sent. The
  two loops that need not end (waiting for an answer; counting the TTL up to its bound) are partial
  functions whose result is \<open>None\<close> when they do not return.
\<close>

section \<open>Waiting for an answer\<close>

text \<open>\<open>while (true) \<dots>\<close>: the loop state is \<open>isResponseValid\<close>, \<open>respInfo\<close> and the buffer.\<close>

partial_function (option) await_response ::
    "'w tracer \<Rightarrow> packet \<Rightarrow> int \<Rightarrow> int \<Rightarrow> bool \<Rightarrow> ResponseInfo option \<Rightarrow> byte list
       \<Rightarrow> ('w, bool \<times> ResponseInfo option \<times> byte list) loop" where
  "await_response T packet sentAt timeout isResponseValid respInfo buf w =
     (let (timeLeft, w1) = getTimeLeft T sentAt timeout w in
      if isResponseValid \<or> timeLeft < MinTimeWaitForResponse
      then Some (Inr (isResponseValid, respInfo, buf), w1)
      else
        (case t_tryReceiving T buf BufferSize (to_milliseconds timeLeft) w1 of
           (Inl e, w2) \<Rightarrow> Some (Inl e, w2)
         | (Inr (None, buf'), w2) \<Rightarrow>
             await_response T packet sentAt timeout isResponseValid None buf' w2
         | (Inr (Some info, buf'), w2) \<Rightarrow>
             (case packet_isValid packet info buf' of
                Inl e \<Rightarrow> Some (Inl e, w2)
              | Inr valid \<Rightarrow>
                  await_response T packet sentAt timeout valid (Some info) buf' w2)))"

declare await_response.simps [code]

section \<open>One probe, the retries of one TTL, all TTLs\<close>

text \<open>
  The body of the retry loop: its result, whether the sender is the destination, the buffer.
  Dereferencing an empty \<open>respInfo\<close> would be undefined behaviour, hence \<open>Fault\<close>.
\<close>

definition probe_once ::
    "'w tracer \<Rightarrow> u32 \<Rightarrow> int \<Rightarrow> byte list \<Rightarrow> ('w, ProbeResult \<times> bool \<times> byte list) loop" where
  "probe_once T ttl timeout buf =
     bindL (liftL (t_createPacket T)) (\<lambda>packet.
     bindL (liftL (t_trySending T packet (sint ttl) 5000)) (\<lambda>sent.
       if \<not> sent then liftL (throwE (Runtime_error ''Failed to send a packet''))
       else
         bindL (liftL (callE (t_now T))) (\<lambda>sentAt.
         bindL (await_response T packet sentAt timeout False None buf)
           (\<lambda>(isResponseValid, respInfo, buf').
             if isResponseValid
             then (case respInfo of
                     None \<Rightarrow> liftL (throwE Fault)
                   | Some info \<Rightarrow>
                       bindL (liftL (callE (getTimePassedTillNow T sentAt))) (\<lambda>waited.
                         liftL (returnE (successProbe waited (ri_client info),
                           addr_eq (ri_client info) (getDestinationAddress packet), buf'))))
             else liftL (returnE (failedProbe timeout, False, buf'))))))"

text \<open>\<open>for (unsigned i = 0; i < retries; i++)\<close>, by the number of rounds that are left.\<close>

fun retry_loop ::
    "'w tracer \<Rightarrow> u32 \<Rightarrow> int \<Rightarrow> nat \<Rightarrow> ProbeResult list \<Rightarrow> bool \<Rightarrow> byte list
       \<Rightarrow> ('w, ProbeResult list \<times> bool \<times> byte list) loop" where
  "retry_loop T ttl timeout 0 probeResults destinationReached buf =
     liftL (returnE (probeResults, destinationReached, buf))"
| "retry_loop T ttl timeout (Suc n) probeResults destinationReached buf =
     bindL (probe_once T ttl timeout buf) (\<lambda>(result, fromDestination, buf').
       retry_loop T ttl timeout n (probeResults @ [result])
         (if fromDestination then True else destinationReached) buf')"

text \<open>\<open>for (unsigned ttl = ttlBegin; ttl <= ttlEnd; ++ttl)\<close>; \<open>++ttl\<close> wraps around.\<close>

partial_function (option) ttl_loop ::
    "'w tracer \<Rightarrow> u32 \<Rightarrow> u32 \<Rightarrow> u32 \<Rightarrow> int \<Rightarrow> TracerouteResult list \<Rightarrow> bool \<Rightarrow> byte list
       \<Rightarrow> ('w, TracerouteResult list \<times> byte list) loop" where
  "ttl_loop T ttl ttlEnd retries timeout probes destinationReached buf w =
     (if ttl \<le> ttlEnd
      then
        (case retry_loop T ttl timeout (unat retries) [] destinationReached buf w of
           None \<Rightarrow> None
         | Some (Inl e, w') \<Rightarrow> Some (Inl e, w')
         | Some (Inr (probeResults, reached, buf'), w') \<Rightarrow>
             (let probes' = probes @ [\<lparr>tr_ttl = ttl, tr_probeResults = probeResults\<rparr>] in
              if reached then Some (Inr (probes', buf'), w')
              else ttl_loop T (ttl + 1) ttlEnd retries timeout probes' reached buf' w'))
      else Some (Inr (probes, buf), w))"

declare ttl_loop.simps [code]

definition Sequential_beginProbing ::
    "'w tracer \<Rightarrow> u32 \<Rightarrow> u32 \<Rightarrow> u32 \<Rightarrow> int \<Rightarrow> byte list
       \<Rightarrow> ('w, TracerouteResult list \<times> byte list) loop" where
  "Sequential_beginProbing T ttlBegin ttlEnd retries timeout buf =
     ttl_loop T ttlBegin ttlEnd retries timeout [] False buf"

section \<open>Reasoning about the loops\<close>

text \<open>
  The rules by which properties of a returning loop are proved: one case for each way a turn of the
  loop ends or goes on.
\<close>

lemma await_induct [consumes 1, case_names stop throw bad silent heard]:
  assumes run: "await_response T packet sentAt timeout v ri buf w = Some out"
    and stop: "\<And>v ri buf w left w1. getTimeLeft T sentAt timeout w = (left, w1) \<Longrightarrow>
      v \<or> left < MinTimeWaitForResponse \<Longrightarrow> P v ri buf w (Inr (v, ri, buf), w1)"
    and throw: "\<And>ri buf w left w1 e w2. getTimeLeft T sentAt timeout w = (left, w1) \<Longrightarrow>
      \<not> left < MinTimeWaitForResponse \<Longrightarrow>
      t_tryReceiving T buf BufferSize (to_milliseconds left) w1 = (Inl e, w2) \<Longrightarrow>
      P False ri buf w (Inl e, w2)"
    and bad: "\<And>ri buf w left w1 info buf' e w2. getTimeLeft T sentAt timeout w = (left, w1) \<Longrightarrow>
      \<not> left < MinTimeWaitForResponse \<Longrightarrow>
      t_tryReceiving T buf BufferSize (to_milliseconds left) w1 = (Inr (Some info, buf'), w2) \<Longrightarrow>
      packet_isValid packet info buf' = Inl e \<Longrightarrow> P False ri buf w (Inl e, w2)"
    and silent: "\<And>ri buf w left w1 buf' w2 out. getTimeLeft T sentAt timeout w = (left, w1) \<Longrightarrow>
      \<not> left < MinTimeWaitForResponse \<Longrightarrow>
      t_tryReceiving T buf BufferSize (to_milliseconds left) w1 = (Inr (None, buf'), w2) \<Longrightarrow>
      P False None buf' w2 out \<Longrightarrow> P False ri buf w out"
    and heard: "\<And>ri buf w left w1 info buf' w2 v out. getTimeLeft T sentAt timeout w = (left, w1) \<Longrightarrow>
      \<not> left < MinTimeWaitForResponse \<Longrightarrow>
      t_tryReceiving T buf BufferSize (to_milliseconds left) w1 = (Inr (Some info, buf'), w2) \<Longrightarrow>
      packet_isValid packet info buf' = Inr v \<Longrightarrow> P v (Some info) buf' w2 out \<Longrightarrow>
      P False ri buf w out"
  shows "P v ri buf w out"
proof -
  let ?Q = "\<lambda>T' packet' sentAt' timeout' v ri buf w out.
    (T', packet', sentAt', timeout') = (T, packet, sentAt, timeout) \<longrightarrow> P v ri buf w out"
  have "?Q T packet sentAt timeout v ri buf w out"
  proof (rule await_response.raw_induct [OF _ run, where P = ?Q], rule impI)
    fix await T' packet' sentAt' timeout' v ri buf w out
    assume IH: "\<And>T packet sentAt timeout v ri buf w out.
        await T packet sentAt timeout v ri buf w = Some out \<Longrightarrow> ?Q T packet sentAt timeout v ri buf w out"
      and step: "(let (timeLeft, w1) = getTimeLeft T' sentAt' timeout' w in
      if v \<or> timeLeft < MinTimeWaitForResponse
      then Some (Inr (v, ri, buf), w1)
      else
        (case t_tryReceiving T' buf BufferSize (to_milliseconds timeLeft) w1 of
           (Inl e, w2) \<Rightarrow> Some (Inl e, w2)
         | (Inr (None, buf'), w2) \<Rightarrow>
             await T' packet' sentAt' timeout' v None buf' w2
         | (Inr (Some info, buf'), w2) \<Rightarrow>
             (case packet_isValid packet' info buf' of
                Inl e \<Rightarrow> Some (Inl e, w2)
              | Inr valid \<Rightarrow>
                  await T' packet' sentAt' timeout' valid (Some info) buf' w2))) = Some out"
      and same: "(T', packet', sentAt', timeout') = (T, packet, sentAt, timeout)"
    obtain left w1 where left: "getTimeLeft T sentAt timeout w = (left, w1)" by fastforce
    obtain r w2 where recv: "t_tryReceiving T buf BufferSize (to_milliseconds left) w1 = (r, w2)"
      by fastforce
    show "P v ri buf w out"
    proof (cases "v \<or> left < MinTimeWaitForResponse")
      case True
      with step same left stop [OF left True] show ?thesis by auto
    next
      case False
      then have going: "v = False" "\<not> left < MinTimeWaitForResponse" by simp_all
      note turn = left going(2) recv
      from step same left recv False show ?thesis
        unfolding going(1)
        by (auto split: sum.splits option.splits prod.splits dest!: IH
            intro: throw [OF left going(2)] bad [OF left going(2)] silent [OF left going(2)]
              heard [OF left going(2)])
    qed
  qed
  then show ?thesis by simp
qed

lemma ttl_induct [consumes 1, case_names past throw reached further]:
  assumes run: "ttl_loop T ttl ttlEnd retries timeout probes hit buf w = Some out"
    and past: "\<And>ttl probes hit buf w. \<not> ttl \<le> ttlEnd \<Longrightarrow> P ttl probes hit buf w (Inr (probes, buf), w)"
    and throw: "\<And>ttl probes hit buf w e w1. ttl \<le> ttlEnd \<Longrightarrow>
      retry_loop T ttl timeout (unat retries) [] hit buf w = Some (Inl e, w1) \<Longrightarrow>
      P ttl probes hit buf w (Inl e, w1)"
    and reached: "\<And>ttl probes hit buf w rs buf' w1. ttl \<le> ttlEnd \<Longrightarrow>
      retry_loop T ttl timeout (unat retries) [] hit buf w = Some (Inr (rs, True, buf'), w1) \<Longrightarrow>
      P ttl probes hit buf w
        (Inr (probes @ [\<lparr>tr_ttl = ttl, tr_probeResults = rs\<rparr>], buf'), w1)"
    and further: "\<And>ttl probes hit buf w rs buf' w1 out. ttl \<le> ttlEnd \<Longrightarrow>
      retry_loop T ttl timeout (unat retries) [] hit buf w = Some (Inr (rs, False, buf'), w1) \<Longrightarrow>
      P (ttl + 1) (probes @ [\<lparr>tr_ttl = ttl, tr_probeResults = rs\<rparr>]) False buf' w1 out \<Longrightarrow>
      P ttl probes hit buf w out"
  shows "P ttl probes hit buf w out"
proof -
  let ?Q = "\<lambda>T' ttl ttlEnd' retries' timeout' probes hit buf w out.
    (T', ttlEnd', retries', timeout') = (T, ttlEnd, retries, timeout) \<longrightarrow> P ttl probes hit buf w out"
  have "?Q T ttl ttlEnd retries timeout probes hit buf w out"
  proof (rule ttl_loop.raw_induct [OF _ run, where P = ?Q], rule impI)
    fix loop T' ttl ttlEnd' retries' timeout' probes hit buf w out
    assume IH: "\<And>T ttl ttlEnd retries timeout probes hit buf w out.
        loop T ttl ttlEnd retries timeout probes hit buf w = Some out \<Longrightarrow>
        ?Q T ttl ttlEnd retries timeout probes hit buf w out"
      and step: "(if ttl \<le> ttlEnd'
      then
        (case retry_loop T' ttl timeout' (unat retries') [] hit buf w of
           None \<Rightarrow> None
         | Some (Inl e, w') \<Rightarrow> Some (Inl e, w')
         | Some (Inr (probeResults, reached, buf'), w') \<Rightarrow>
             (let probes' = probes @ [\<lparr>tr_ttl = ttl, tr_probeResults = probeResults\<rparr>] in
              if reached then Some (Inr (probes', buf'), w')
              else loop T' (ttl + 1) ttlEnd' retries' timeout' probes' reached buf' w'))
      else Some (Inr (probes, buf), w)) = Some out"
      and same: "(T', ttlEnd', retries', timeout') = (T, ttlEnd, retries, timeout)"
    then show "P ttl probes hit buf w out"
      by (auto simp: Let_def split: if_splits option.splits sum.splits prod.splits dest!: IH
          intro: past throw reached further)
  qed
  then show ?thesis by simp
qed

section \<open>What waiting establishes\<close>

text \<open>
  A flag that is set was set by the validator on the bytes that are in the buffer; a flag that is not
  was given up on with less than \<open>MinTimeWaitForResponse\<close> left on the clock.
\<close>

definition answered :: "packet \<Rightarrow> bool \<Rightarrow> ResponseInfo option \<Rightarrow> byte list \<Rightarrow> bool" where
  "answered packet valid respInfo buf \<longleftrightarrow>
     (valid \<longrightarrow> (\<exists>info. respInfo = Some info \<and> packet_isValid packet info buf = Inr True))"

definition timed_out :: "'w tracer \<Rightarrow> int \<Rightarrow> int \<Rightarrow> 'w \<Rightarrow> bool" where
  "timed_out T sentAt timeout w' \<longleftrightarrow>
     (\<exists>w left. getTimeLeft T sentAt timeout w = (left, w') \<and> left < MinTimeWaitForResponse)"

lemma await_post:
  assumes "await_response T packet sentAt timeout v ri buf w = Some (Inr (v', ri', buf'), w')"
    and "answered packet v ri buf"
  shows "answered packet v' ri' buf' \<and> (\<not> v' \<longrightarrow> timed_out T sentAt timeout w')"
proof -
  have "\<forall>v' ri' buf' w'. out = (Inr (v', ri', buf'), w') \<longrightarrow> answered packet v ri buf
      \<longrightarrow> answered packet v' ri' buf' \<and> (\<not> v' \<longrightarrow> timed_out T sentAt timeout w')"
    if "await_response T packet sentAt timeout v ri buf w = Some out" for out
    using that by (induction rule: await_induct) (auto simp: answered_def timed_out_def)
  then show ?thesis using assms by blast
qed

section \<open>What a probe establishes\<close>

text \<open>A result is \<open>genuine\<close> when it is a failure after the whole timeout, or an accepted answer.\<close>

definition genuine :: "SocketAddress \<Rightarrow> int \<Rightarrow> ProbeResult \<Rightarrow> bool" where
  "genuine target timeout r \<longleftrightarrow> r = failedProbe timeout \<or> accepted target r"

text \<open>The parts of a probe that returned: packet, sending, waiting and the result drawn from it.\<close>

lemma probe_once_parts:
  assumes "probe_once T ttl timeout buf w = Some (Inr (r, hit, buf'), w')"
  obtains packet w1 w2 v ri w3 where "t_createPacket T w = (Inr packet, w1)"
    and "t_trySending T packet (sint ttl) 5000 w1 = (Inr True, w2)"
    and "await_response T packet (fst (t_now T w2)) timeout False None buf (snd (t_now T w2))
        = Some (Inr (v, ri, buf'), w3)"
    and "if v then (\<exists>info. ri = Some info \<and> hit = addr_eq (ri_client info) (getDestinationAddress packet)
        \<and> r = successProbe (fst (getTimePassedTillNow T (fst (t_now T w2)) w3)) (ri_client info)
        \<and> w' = snd (getTimePassedTillNow T (fst (t_now T w2)) w3))
      else r = failedProbe timeout \<and> \<not> hit \<and> w' = w3"
proof -
  from assms obtain packet w1 w2 v ri b w3 where
    parts: "t_createPacket T w = (Inr packet, w1)"
      "t_trySending T packet (sint ttl) 5000 w1 = (Inr True, w2)"
      "await_response T packet (fst (t_now T w2)) timeout False None buf (snd (t_now T w2))
        = Some (Inr (v, ri, b), w3)"
    and rest: "(if v
             then (case ri of
                     None \<Rightarrow> liftL (throwE Fault)
                   | Some info \<Rightarrow>
                       bindL (liftL (callE (getTimePassedTillNow T (fst (t_now T w2))))) (\<lambda>waited.
                         liftL (returnE (successProbe waited (ri_client info),
                           addr_eq (ri_client info) (getDestinationAddress packet), b))))
             else liftL (returnE (failedProbe timeout, False, b))) w3
      = Some (Inr (r, hit, buf'), w')"
    by (auto simp: probe_once_def bindL_Inr io_simps split: if_splits)
  from rest have "b = buf'"
    by (auto simp: bindL_Inr io_simps split: if_splits option.splits)
  with parts rest show thesis
    by (intro that [of packet w1 w2 v ri w3])
      (auto simp: bindL_Inr io_simps split: if_splits option.splits)
qed

context tracer_ports
begin

lemma probe_once_result:
  assumes "probe_once T ttl timeout buf w = Some (Inr (r, reached, buf'), w')"
  shows "genuine target timeout r \<and> (reached \<longleftrightarrow> hits target r)"
proof -
  from assms obtain packet w1 w2 v ri w3 where
    created: "t_createPacket T w = (Inr packet, w1)"
    and waited: "await_response T packet (fst (t_now T w2)) timeout False None buf (snd (t_now T w2))
      = Some (Inr (v, ri, buf'), w3)"
    and result: "if v then (\<exists>info. ri = Some info \<and> reached = addr_eq (ri_client info) (getDestinationAddress packet)
        \<and> r = successProbe (fst (getTimePassedTillNow T (fst (t_now T w2)) w3)) (ri_client info)
        \<and> w' = snd (getTimePassedTillNow T (fst (t_now T w2)) w3))
      else r = failedProbe timeout \<and> \<not> reached \<and> w' = w3"
    by (rule probe_once_parts)
  have packet: "getDestinationAddress packet = target" "wf_packet packet"
    using created by (auto dest: packets.create_target packets.create_wf)
  have "answered packet v ri buf'" using await_post [OF waited] by (simp add: answered_def)
  with result packet show ?thesis
    by (fastforce simp: answered_def genuine_def accepted_def split: if_splits)
qed

lemma retry_loop_result:
  "retry_loop T ttl timeout n rs reached buf w = Some (Inr (rs', reached', buf'), w') \<Longrightarrow>
     \<exists>new. rs' = rs @ new \<and> length new = n \<and> (\<forall>r \<in> set new. genuine target timeout r)
       \<and> (reached' \<longleftrightarrow> reached \<or> (\<exists>r \<in> set new. hits target r))"
proof (induction n arbitrary: rs reached buf w)
  case 0
  then show ?case by (simp add: io_simps)
next
  case (Suc n)
  then obtain r hit b w1 where
    once: "probe_once T ttl timeout buf w = Some (Inr (r, hit, b), w1)"
    and rest: "retry_loop T ttl timeout n (rs @ [r]) (if hit then True else reached) b w1
      = Some (Inr (rs', reached', buf'), w')"
    by (auto simp: bindL_Inr)
  from Suc.IH [OF rest] probe_once_result [OF once] show ?case
    by (elim exE) (rule_tac x = "r # new" in exI, auto)
qed

end

section \<open>What the TTL loop establishes\<close>

text \<open>
  The results from one TTL on: consecutive TTLs with one probe result per retry, up to the first TTL
  with an answer from the target, or until the TTL passes its bound.
\<close>

fun trace_ok :: "SocketAddress \<Rightarrow> u32 \<Rightarrow> u32 \<Rightarrow> int \<Rightarrow> u32 \<Rightarrow> TracerouteResult list \<Rightarrow> bool" where
  "trace_ok target ttlEnd retries timeout ttl [] \<longleftrightarrow> \<not> ttl \<le> ttlEnd"
| "trace_ok target ttlEnd retries timeout ttl (r # rs) \<longleftrightarrow>
     ttl \<le> ttlEnd \<and> tr_ttl r = ttl \<and> length (tr_probeResults r) = unat retries
     \<and> (\<forall>pr \<in> set (tr_probeResults r). genuine target timeout pr)
     \<and> (if \<exists>pr \<in> set (tr_probeResults r). hits target pr then rs = []
        else trace_ok target ttlEnd retries timeout (ttl + 1) rs)"

lemma trace_ok_last:
  "trace_ok target ttlEnd retries timeout ttl rs \<Longrightarrow>
     (\<forall>r \<in> set (butlast rs). \<not> target_seen target r)
     \<and> (\<forall>r \<in> set rs. length (tr_probeResults r) = unat retries
          \<and> (\<forall>pr \<in> set (tr_probeResults r). genuine target timeout pr))"
  by (induction rs arbitrary: ttl) (auto simp: target_seen_iff split: if_splits)

text \<open>Below the largest bound the TTLs are an interval of numbers: the addition never wraps.\<close>

lemma trace_ok_ttls:
  assumes "trace_ok target ttlEnd retries timeout ttl rs" "ttlEnd \<noteq> - 1"
  shows "map (\<lambda>r. unat (tr_ttl r)) rs = [unat ttl..<unat ttl + length rs]
     \<and> (rs = [] \<longrightarrow> ttlEnd < ttl)
     \<and> (rs \<noteq> [] \<longrightarrow> unat ttl + length rs \<le> unat ttlEnd + 1)
     \<and> (rs \<noteq> [] \<and> unat ttl + length rs \<le> unat ttlEnd \<longrightarrow> target_seen target (last rs))"
  using assms(1)
proof (induction rs arbitrary: ttl)
  case Nil
  then show ?case by simp
next
  case (Cons r rs)
  then have le: "ttl \<le> ttlEnd" by simp
  with assms(2) have next_ttl: "unat (ttl + 1) = Suc (unat ttl)" by (rule unat_next)
  show ?case
  proof (cases "rs = []")
    case True
    with Cons.prems le show ?thesis
      by (auto simp: word_le_nat_alt word_less_nat_alt target_seen_iff next_ttl split: if_splits)
  next
    case False
    with Cons.prems have "trace_ok target ttlEnd retries timeout (ttl + 1) rs"
      by (auto split: if_splits)
    from Cons.IH [OF this] False Cons.prems show ?thesis
      by (simp add: next_ttl upt_conv_Cons Suc_le_eq)
  qed
qed

text \<open>With the largest bound and no probe to send, the loop wraps around for ever.\<close>

lemma ttl_loop_wraps:
  "ttl_loop T ttl (- 1) 0 timeout probes False buf w = None"
proof -
  have "reached" if "ttl_loop T ttl (- 1) 0 timeout probes reached buf w = Some out" for reached out
    using that by (induction rule: ttl_induct) (simp_all add: io_simps)
  from this [of False] show ?thesis
    by (cases "ttl_loop T ttl (- 1) 0 timeout probes False buf w") auto
qed

lemma trace_ok_unbounded:
  "trace_ok target (- 1) retries timeout ttl rs \<Longrightarrow> rs \<noteq> [] \<and> target_seen target (last rs)"
proof (induction rs arbitrary: ttl)
  case (Cons r rs)
  then show ?case
    by (cases "target_seen target r") (auto simp: target_seen_iff)
qed simp

context tracer_ports
begin

lemma ttl_loop_result:
  assumes "ttl_loop T ttl ttlEnd retries timeout probes reached buf w
      = Some (Inr (probes', buf'), w')"
  shows "\<exists>new. probes' = probes @ new
     \<and> (\<not> reached \<longrightarrow> trace_ok target ttlEnd retries timeout ttl new)"
proof -
  have "\<exists>new. probes' = probes @ new \<and> (\<not> reached \<longrightarrow> trace_ok target ttlEnd retries timeout ttl new)"
    if "ttl_loop T ttl ttlEnd retries timeout probes reached buf w = Some out"
      "out = (Inr (probes', buf'), w')" for out
    using that
  proof (induction rule: ttl_induct)
    case (reached ttl probes hit buf w rs buf' w1)
    with retry_loop_result [OF reached(2)] show ?case
      by (intro exI [of _ "[\<lparr>tr_ttl = ttl, tr_probeResults = rs\<rparr>]"]) auto
  next
    case (further ttl probes hit buf w rs b w1 out)
    then obtain new where
      "probes' = (probes @ [\<lparr>tr_ttl = ttl, tr_probeResults = rs\<rparr>]) @ new"
      "trace_ok target ttlEnd retries timeout (ttl + 1) new"
      by blast
    with retry_loop_result [OF further(2)] further(1) show ?case
      by (intro exI [of _ "\<lparr>tr_ttl = ttl, tr_probeResults = rs\<rparr> # new"]) auto
  qed simp_all
  with assms show ?thesis by blast
qed

lemma beginProbing_result:
  "Sequential_beginProbing T ttlBegin ttlEnd retries timeout buf w = Some (Inr (res, buf'), w') \<Longrightarrow>
     trace_ok target ttlEnd retries timeout ttlBegin res"
  by (auto simp: Sequential_beginProbing_def dest: ttl_loop_result)

end

section \<open>Returning\<close>

lemma await_returns:
  assumes "ticking T clk"
  shows "await_response T packet sentAt timeout v ri buf w \<noteq> None"
proof (induction "nat (sentAt + timeout * 1000 - clk w)" arbitrary: v ri buf w rule: less_induct)
  case less
  obtain left w1 where left: "getTimeLeft T sentAt timeout w = (left, w1)" by fastforce
  show ?case
  proof (cases "v \<or> left < MinTimeWaitForResponse")
    case True
    with left show ?thesis by (simp add: await_response.simps)
  next
    case False
    then have early: "clk w < sentAt + timeout * 1000"
      using no_time_left [OF assms, of sentAt timeout w] left
      by (cases "sentAt + timeout * 1000 \<le> clk w") (auto simp: MinTimeWaitForResponse_def)
    obtain r w2 where recv: "t_tryReceiving T buf BufferSize (to_milliseconds left) w1 = (r, w2)"
      by fastforce
    have "clk w \<le> clk w1" using getTimeLeft_clock [OF assms] left by (metis snd_conv)
    also have "clk w1 < clk w2"
      using assms recv unfolding ticking_def by (metis snd_conv)
    finally have "nat (sentAt + timeout * 1000 - clk w2) < nat (sentAt + timeout * 1000 - clk w)"
      using early by simp
    note again = less [OF this]
    from left recv False show ?thesis
      by (subst await_response.simps)
        (auto simp: again Let_def simp del: not_None_eq split: sum.splits option.splits)
  qed
qed

lemma probe_once_returns: "ticking T clk \<Longrightarrow> probe_once T ttl timeout buf w \<noteq> None"
  by (auto simp: probe_once_def bindL_None io_simps await_returns simp del: not_None_eq
      split: option.splits if_splits)

lemma retry_loop_returns:
  "ticking T clk \<Longrightarrow> retry_loop T ttl timeout n rs reached buf w \<noteq> None"
  by (induction n arbitrary: rs reached buf w)
    (auto simp: bindL_None io_simps probe_once_returns simp del: not_None_eq)

lemma ttl_loop_returns:
  assumes "ticking T clk" "ttlEnd \<noteq> - 1"
  shows "ttl_loop T ttl ttlEnd retries timeout probes reached buf w \<noteq> None"
proof (induction "Suc (unat ttlEnd) - unat ttl" arbitrary: ttl probes reached buf w
    rule: less_induct)
  case less
  show ?case
  proof (cases "ttl \<le> ttlEnd")
    case False
    then show ?thesis by (simp add: ttl_loop.simps)
  next
    case True
    with assms(2) have "unat (ttl + 1) = Suc (unat ttl)" by (rule unat_next)
    with True have "Suc (unat ttlEnd) - unat (ttl + 1) < Suc (unat ttlEnd) - unat ttl"
      by (simp add: word_le_nat_alt)
    note again = less [OF this]
    obtain r w1 where
      "retry_loop T ttl timeout (unat retries) [] reached buf w = Some (r, w1)"
      using retry_loop_returns [OF assms(1)] by (metis not_None_eq surj_pair)
    then show ?thesis
      by (subst ttl_loop.simps) (auto simp: again Let_def simp del: not_None_eq split: sum.splits)
  qed
qed

section \<open>Memory safety\<close>

context tracer_ports
begin

lemma await_safe:
  assumes "await_response T packet sentAt timeout v ri buf w = Some (out, w')"
    and "136 \<le> length buf"
  shows "out \<noteq> Inl Fault \<and> (\<forall>v' ri' buf'. out = Inr (v', ri', buf') \<longrightarrow> length buf' = length buf)"
proof -
  have "fst res \<noteq> Inl Fault
      \<and> (\<forall>v' ri' buf'. fst res = Inr (v', ri', buf') \<longrightarrow> length buf' = length buf)"
    if "await_response T packet sentAt timeout v ri buf w = Some res" "136 \<le> length buf" for res
    using that
    by (induction rule: await_induct)
      (auto dest: channel.recv_length simp: channel.recv_no_fault probe.check_no_fault)
  from this [OF assms] show ?thesis by simp
qed

lemma probe_once_safe:
  assumes "probe_once T ttl timeout buf w = Some (out, w')" "136 \<le> length buf"
  shows "out \<noteq> Inl Fault \<and> (\<forall>r hit buf'. out = Inr (r, hit, buf') \<longrightarrow> length buf' = length buf)"
proof (cases out)
  case (Inl e)
  have "ri \<noteq> None"
    if "await_response T packet sentAt timeout False None buf w1 = Some (Inr (True, ri, b), w2)"
    for packet sentAt w1 ri b w2
    using await_post [OF that] by (auto simp: answered_def)
  moreover have "e \<noteq> Fault"
    if "await_response T packet sentAt timeout False None buf w1 = Some (Inl e, w2)"
    for packet sentAt w1 w2 e
    using await_safe [OF that assms(2)] by simp
  ultimately have "e \<noteq> Fault"
    using assms(1) Inl
    by (fastforce simp: probe_once_def bindL_Inl io_simps packets.create_no_fault
        channel.send_no_fault split: if_splits option.splits)
  with Inl show ?thesis by simp
next
  case (Inr res)
  have "length b = length buf"
    if "await_response T packet sentAt timeout False None buf w1 = Some (Inr (v, ri, b), w2)"
    for packet sentAt w1 v ri b w2
    using await_safe [OF that assms(2)] by simp
  with assms(1) Inr show ?thesis
    by (cases res) (auto simp: probe_once_def bindL_Inr io_simps split: if_splits option.splits)
qed

lemma retry_loop_safe:
  "retry_loop T ttl timeout n rs hit buf w = Some (out, w') \<Longrightarrow> 136 \<le> length buf \<Longrightarrow>
     out \<noteq> Inl Fault \<and> (\<forall>r h buf'. out = Inr (r, h, buf') \<longrightarrow> length buf' = length buf)"
proof (induction n arbitrary: rs hit buf w)
  case 0
  then show ?case by (auto simp: io_simps)
next
  case (Suc n)
  from Suc.prems(1) consider
      (throws) e where "out = Inl e" "probe_once T ttl timeout buf w = Some (Inl e, w')"
    | (goes_on) r h b w1 where "probe_once T ttl timeout buf w = Some (Inr (r, h, b), w1)"
        "retry_loop T ttl timeout n (rs @ [r]) (if h then True else hit) b w1 = Some (out, w')"
    by (cases out) (auto simp: bindL_Inr bindL_Inl)
  then show ?case
  proof cases
    case throws
    with probe_once_safe [OF throws(2) Suc.prems(2)] show ?thesis by simp
  next
    case goes_on
    from probe_once_safe [OF goes_on(1) Suc.prems(2)] have "length b = length buf" by simp
    with Suc.IH [OF goes_on(2)] Suc.prems(2) show ?thesis by simp
  qed
qed

lemma ttl_loop_safe:
  assumes "ttl_loop T ttl ttlEnd retries timeout probes reached buf w = Some (out, w')"
    and "136 \<le> length buf"
  shows "out \<noteq> Inl Fault \<and> (\<forall>rs buf'. out = Inr (rs, buf') \<longrightarrow> length buf' = length buf)"
proof -
  have "fst res \<noteq> Inl Fault \<and> (\<forall>rs buf'. fst res = Inr (rs, buf') \<longrightarrow> length buf' = length buf)"
    if "ttl_loop T ttl ttlEnd retries timeout probes reached buf w = Some res" "136 \<le> length buf"
    for res
    using that by (induction rule: ttl_induct) (use retry_loop_safe in fastforce)+
  from this [OF assms] show ?thesis by simp
qed

end

end
