(* ===== verification/Listening.thy ===== *)
theory Listening
  imports Sequential
begin

text \<open>
  What the sequential tracer hears while it waits: an abstract account of the waiting loop as a
  sequence of receives that brought nothing of use, ended by the first datagram the validator
  accepts or by the clock. The loop and the account agree in both directions, so that no acceptable
  answer is missed and none is made up.
\<close>

section \<open>The account\<close>

text \<open>One receive, while there is enough time left for it.\<close>

inductive hears ::
    "'w tracer \<Rightarrow> int \<Rightarrow> int \<Rightarrow> byte list \<times> 'w \<Rightarrow> ResponseInfo option \<Rightarrow> byte list \<times> 'w \<Rightarrow> bool"
  for T sentAt timeout where
  receive: "getTimeLeft T sentAt timeout w = (left, w1) \<Longrightarrow> \<not> left < MinTimeWaitForResponse \<Longrightarrow>
     t_tryReceiving T buf BufferSize (to_milliseconds left) w1 = (Inr (ri, buf'), w2) \<Longrightarrow>
     hears T sentAt timeout (buf, w) ri (buf', w2)"

inductive_simps hears_iff: "hears T sentAt timeout (buf, w) ri (buf', w')"

definition refused :: "packet \<Rightarrow> ResponseInfo option \<Rightarrow> byte list \<Rightarrow> bool" where
  "refused packet ri buf \<longleftrightarrow>
     (case ri of None \<Rightarrow> True | Some info \<Rightarrow> packet_isValid packet info buf = Inr False)"

text \<open>Any number of receives that were silent or brought a datagram the validator refuses.\<close>

inductive in_vain ::
    "'w tracer \<Rightarrow> packet \<Rightarrow> int \<Rightarrow> int \<Rightarrow> byte list \<times> 'w \<Rightarrow> byte list \<times> 'w \<Rightarrow> bool"
  for T packet sentAt timeout where
  none: "in_vain T packet sentAt timeout s s"
| more: "hears T sentAt timeout s ri (buf', w') \<Longrightarrow> refused packet ri buf' \<Longrightarrow>
     in_vain T packet sentAt timeout (buf', w') t \<Longrightarrow> in_vain T packet sentAt timeout s t"

text \<open>An accepted datagram behind them, or the end of the time.\<close>

definition answered_by ::
    "'w tracer \<Rightarrow> packet \<Rightarrow> int \<Rightarrow> int \<Rightarrow> byte list \<times> 'w \<Rightarrow> ResponseInfo \<Rightarrow> byte list \<times> 'w \<Rightarrow> bool" where
  "answered_by T packet sentAt timeout s info t \<longleftrightarrow>
     (\<exists>s1 w2. in_vain T packet sentAt timeout s s1
        \<and> hears T sentAt timeout s1 (Some info) (fst t, w2)
        \<and> packet_isValid packet info (fst t) = Inr True
        \<and> snd t = snd (getTimeLeft T sentAt timeout w2))"

definition unanswered ::
    "'w tracer \<Rightarrow> packet \<Rightarrow> int \<Rightarrow> int \<Rightarrow> byte list \<times> 'w \<Rightarrow> byte list \<times> 'w \<Rightarrow> bool" where
  "unanswered T packet sentAt timeout s t \<longleftrightarrow>
     (\<exists>w1 left. in_vain T packet sentAt timeout s (fst t, w1)
        \<and> getTimeLeft T sentAt timeout w1 = (left, snd t) \<and> left < MinTimeWaitForResponse)"

section \<open>The loop follows the account\<close>

text \<open>One turn of the loop that goes on.\<close>

lemma await_turn:
  assumes "hears T sentAt timeout (buf, w) ri (buf', w')" "refused packet ri buf'"
  shows "await_response T packet sentAt timeout False r0 buf w
    = await_response T packet sentAt timeout False ri buf' w'"
  using assms
  by (subst await_response.simps) (auto simp: hears_iff refused_def split: option.splits)

lemma await_in_vain:
  assumes "in_vain T packet sentAt timeout s t"
  shows "\<exists>r1. await_response T packet sentAt timeout False r0 (fst s) (snd s)
    = await_response T packet sentAt timeout False r1 (fst t) (snd t)"
  using assms
proof (induction arbitrary: r0 rule: in_vain.induct)
  case none
  show ?case by blast
next
  case (more s ri buf' w' t)
  have "await_response T packet sentAt timeout False r0 (fst s) (snd s)
      = await_response T packet sentAt timeout False ri buf' w'"
    using more(1,2) by (intro await_turn) simp_all
  with more.IH [of ri] show ?case by simp
qed

lemma await_answered:
  assumes "answered_by T packet sentAt timeout (buf, w) info (buf', w')"
  shows "await_response T packet sentAt timeout False r0 buf w
    = Some (Inr (True, Some info, buf'), w')"
proof -
  from assms obtain b1 w1 w2 where vain: "in_vain T packet sentAt timeout (buf, w) (b1, w1)"
    and last: "hears T sentAt timeout (b1, w1) (Some info) (buf', w2)"
      "packet_isValid packet info buf' = Inr True" "w' = snd (getTimeLeft T sentAt timeout w2)"
    by (auto simp: answered_by_def)
  obtain left w3 where "getTimeLeft T sentAt timeout w2 = (left, w3)" by fastforce
  then have stop: "await_response T packet sentAt timeout True ri buf' w2
      = Some (Inr (True, ri, buf'), w')" for ri
    using last(3) by (simp add: await_response.simps)
  have "await_response T packet sentAt timeout False r1 b1 w1
      = await_response T packet sentAt timeout True (Some info) buf' w2" for r1
    using last(1,2) by (subst await_response.simps) (auto simp: hears_iff)
  with await_in_vain [OF vain, of r0] stop show ?thesis by simp
qed

lemma await_unanswered:
  assumes "unanswered T packet sentAt timeout (buf, w) (buf', w')"
  shows "\<exists>ri. await_response T packet sentAt timeout False r0 buf w
    = Some (Inr (False, ri, buf'), w')"
proof -
  from assms obtain w1 left where vain: "in_vain T packet sentAt timeout (buf, w) (buf', w1)"
    and stop: "getTimeLeft T sentAt timeout w1 = (left, w')" "left < MinTimeWaitForResponse"
    by (auto simp: unanswered_def)
  have "await_response T packet sentAt timeout False r1 buf' w1 = Some (Inr (False, r1, buf'), w')"
    for r1 using stop by (simp add: await_response.simps)
  with await_in_vain [OF vain, of r0] show ?thesis by auto
qed

section \<open>The account covers the loop\<close>

definition accounts_for ::
    "'w tracer \<Rightarrow> packet \<Rightarrow> int \<Rightarrow> int \<Rightarrow> byte list \<times> 'w
       \<Rightarrow> (exn + bool \<times> ResponseInfo option \<times> byte list) \<times> 'w \<Rightarrow> bool" where
  "accounts_for T packet sentAt timeout s out \<longleftrightarrow>
     (\<forall>v ri buf' w'. out = (Inr (v, ri, buf'), w') \<longrightarrow>
        (if v then \<exists>info. ri = Some info \<and> answered_by T packet sentAt timeout s info (buf', w')
         else unanswered T packet sentAt timeout s (buf', w')))"

lemma accounts_later:
  assumes turn: "hears T sentAt timeout s ri s1" "refused packet ri (fst s1)"
    and later: "accounts_for T packet sentAt timeout s1 out"
  shows "accounts_for T packet sentAt timeout s out"
proof -
  have earlier: "in_vain T packet sentAt timeout s t"
    if "in_vain T packet sentAt timeout s1 t" for t
    using turn that by (cases s1) (auto intro: in_vain.more)
  then have "answered_by T packet sentAt timeout s info t"
    if "answered_by T packet sentAt timeout s1 info t" for info t
    using that unfolding answered_by_def by blast
  moreover have "unanswered T packet sentAt timeout s t"
    if "unanswered T packet sentAt timeout s1 t" for t
    using that earlier unfolding unanswered_def by blast
  ultimately show ?thesis
    using later by (auto simp: accounts_for_def split: if_splits)
qed

text \<open>What the loop does from a state of its own, with the flag set or not.\<close>

definition explained ::
    "'w tracer \<Rightarrow> packet \<Rightarrow> int \<Rightarrow> int \<Rightarrow> bool \<Rightarrow> ResponseInfo option \<Rightarrow> byte list \<times> 'w
       \<Rightarrow> (exn + bool \<times> ResponseInfo option \<times> byte list) \<times> 'w \<Rightarrow> bool" where
  "explained T packet sentAt timeout v ri s out \<longleftrightarrow>
     (if v then out = (Inr (True, ri, fst s), snd (getTimeLeft T sentAt timeout (snd s)))
      else accounts_for T packet sentAt timeout s out)"

lemma explained_timeout:
  assumes "getTimeLeft T sentAt timeout w = (left, w1)" "v \<or> left < MinTimeWaitForResponse"
  shows "explained T packet sentAt timeout v ri (buf, w) (Inr (v, ri, buf), w1)"
  using assms
  by (auto simp: explained_def accounts_for_def unanswered_def intro: in_vain.none)

lemma explained_throw: "explained T packet sentAt timeout False ri s (Inl e, w)"
  by (simp add: explained_def accounts_for_def)

lemma explained_turn:
  assumes turn: "hears T sentAt timeout (buf, w) ri (buf', w')"
    and verdict: "case ri of None \<Rightarrow> \<not> v | Some info \<Rightarrow> packet_isValid packet info buf' = Inr v"
    and rest: "explained T packet sentAt timeout v ri (buf', w') out"
  shows "explained T packet sentAt timeout False r0 (buf, w) out"
proof (cases v)
  case True
  with verdict obtain info where "ri = Some info" "packet_isValid packet info buf' = Inr True"
    by (cases ri) auto
  with rest True turn show ?thesis
    by (auto simp: explained_def accounts_for_def answered_by_def intro!: exI in_vain.none)
next
  case False
  with verdict have "refused packet ri buf'" by (cases ri) (auto simp: refused_def)
  with rest False accounts_later [OF turn] show ?thesis by (simp add: explained_def)
qed

lemma await_explained:
  "await_response T packet sentAt timeout v0 r0 buf w = Some out \<Longrightarrow>
     explained T packet sentAt timeout v0 r0 (buf, w) out"
proof (induction rule: await_induct)
  case (silent ri buf w left w1 buf' w2 out)
  then have "hears T sentAt timeout (buf, w) None (buf', w2)" by (intro hears.receive)
  from explained_turn [OF this _ silent(4)] show ?case by simp
next
  case (heard ri buf w left w1 info buf' w2 v out)
  then have "hears T sentAt timeout (buf, w) (Some info) (buf', w2)" by (intro hears.receive)
  from explained_turn [OF this _ heard(5)] heard(4) show ?case by simp
qed (auto intro: explained_timeout explained_throw)

text \<open>The loop from its start: it returns what the account says, and nothing else.\<close>

theorem await_iff:
  "await_response T packet sentAt timeout False None buf w = Some (Inr (True, ri, buf'), w')
     \<longleftrightarrow> (\<exists>info. ri = Some info \<and> answered_by T packet sentAt timeout (buf, w) info (buf', w'))"
  "(\<exists>ri. await_response T packet sentAt timeout False None buf w = Some (Inr (False, ri, buf'), w'))
     \<longleftrightarrow> unanswered T packet sentAt timeout (buf, w) (buf', w')"
  using await_explained [of T packet sentAt timeout False None buf w] await_answered
    await_unanswered
  by (fastforce simp: explained_def accounts_for_def)+

section \<open>A probe by its account\<close>

lemma probe_once_hears:
  assumes "t_createPacket T w = (Inr packet, w1)"
    and "t_trySending T packet (sint ttl) 5000 w1 = (Inr True, w2)"
    and "answered_by T packet (fst (t_now T w2)) timeout (buf, snd (t_now T w2)) info (buf', w3)"
  shows "probe_once T ttl timeout buf w
    = Some (Inr (successProbe (fst (getTimePassedTillNow T (fst (t_now T w2)) w3)) (ri_client info),
        addr_eq (ri_client info) (getDestinationAddress packet), buf'),
      snd (getTimePassedTillNow T (fst (t_now T w2)) w3))"
  using assms(1,2) await_answered [OF assms(3)]
  by (simp add: probe_once_def bindL_def io_simps)

lemma probe_once_silence:
  assumes "t_createPacket T w = (Inr packet, w1)"
    and "t_trySending T packet (sint ttl) 5000 w1 = (Inr True, w2)"
    and "unanswered T packet (fst (t_now T w2)) timeout (buf, snd (t_now T w2)) (buf', w3)"
  shows "probe_once T ttl timeout buf w = Some (Inr (failedProbe timeout, False, buf'), w3)"
  using assms(1,2) await_unanswered [OF assms(3), of None]
  by (auto simp: probe_once_def bindL_def io_simps)

end
