(* ===== verification/SequentialClaims.thy ===== *)
theory SequentialClaims
  imports Scenario Listening
begin

text \<open>
  The properties of the sequential tracer on the library's own sender, factories and clock, each
  applied to a concrete run.
\<close>

text \<open>
  C1. What the sequential tracer returns. The results are for the TTLs from the first one on, one
  after the other; each has as many probe results as there were to be retries, and each of those is a
  failure after the whole timeout or names the sender of a response that the validator accepted for
  a probe to the destination. Only the last TTL can contain the destination; when the results end
  below the last TTL that was asked for, it does.
\<close>

theorem sequential_trace:
  assumes "Sequential_beginProbing (tracer_of os ds f) ttlBegin ttlEnd retries timeout buf w
      = Some (Inr (res, buf'), w')"
    and "ttlEnd \<noteq> - 1"
  shows "map (\<lambda>r. unat (tr_ttl r)) res = [unat ttlBegin..<unat ttlBegin + length res]
    \<and> (\<forall>r \<in> set res. length (tr_probeResults r) = unat retries
         \<and> (\<forall>pr \<in> set (tr_probeResults r). genuine (factory_destination f) timeout pr))
    \<and> (\<forall>r \<in> set (butlast res). \<not> target_seen (factory_destination f) r)
    \<and> (res = [] \<longrightarrow> ttlEnd < ttlBegin)
    \<and> (res \<noteq> [] \<longrightarrow> unat ttlBegin + length res \<le> unat ttlEnd + 1)
    \<and> (res \<noteq> [] \<and> unat ttlBegin + length res \<le> unat ttlEnd
         \<longrightarrow> target_seen (factory_destination f) (last res))"
  using trace_ok_ttls [OF real.beginProbing_result [OF assms(1)] assms(2)]
    trace_ok_last [OF real.beginProbing_result [OF assms(1)]] by blast

definition two_hops_results :: "TracerouteResult list" where
  "two_hops_results =
     [\<lparr>tr_ttl = 1, tr_probeResults = [successProbe 1000 router6]\<rparr>,
      \<lparr>tr_ttl = 2, tr_probeResults = [successProbe 1000 server6]\<rparr>]"

theorem sequential_trace_witness:
  "target_seen server6 (last two_hops_results)
   \<and> map (\<lambda>r. unat (tr_ttl r)) two_hops_results = [1, 2]"
proof -
  have "map_option fst
      (Sequential_beginProbing (tracer_of scripted udp_sender udp_factory) 1 5 1 20000 sample_buffer two_hops)
    = Some (Inr (two_hops_results, write_front (udp_error 1) sample_buffer))"
    by code_simp
  then obtain w' where
    "Sequential_beginProbing (tracer_of scripted udp_sender udp_factory)
       1 5 1 20000 sample_buffer two_hops
     = Some (Inr (two_hops_results, write_front (udp_error 1) sample_buffer), w')"
    by auto
  from sequential_trace [OF this] show ?thesis
    by (simp add: two_hops_results_def)
qed

text \<open>
  The sequential tracer returns, with results or with an exception, when the last TTL is not the
  largest \<open>unsigned\<close> and the clock advances whenever \<open>poll\<close> is called.
\<close>

lemma sequential_returns:
  assumes "steady_os os clk" "ttlEnd \<noteq> - 1"
  shows "\<exists>out. Sequential_beginProbing (tracer_of os ds f) ttlBegin ttlEnd retries timeout buf w
    = Some out"
  using ttl_loop_returns [OF steady_ticking [OF assms(1)] assms(2)]
  by (auto simp: Sequential_beginProbing_def)

lemma sequential_returns_example:
  "\<exists>out. Sequential_beginProbing (tracer_of scripted udp_sender udp_factory)
     1 30 3 5000000 sample_buffer two_hops = Some out"
  by (rule sequential_returns [OF scripted_steady]) simp

text \<open>
  C38. Up to the largest \<open>unsigned\<close> the TTL loop has no end of its own: with no probes to send it
  never returns, whatever the system does.
\<close>

theorem sequential_wraps:
  "Sequential_beginProbing (tracer_of os ds f) ttlBegin (- 1) 0 timeout buf w = None"
  by (simp add: Sequential_beginProbing_def ttl_loop_wraps)

text \<open>
  The sequential tracer does not read outside its receive buffer, whatever the network sends. The
  validators look at no more than the first 136 of its 4096 bytes.
\<close>

lemma sequential_memory_safe:
  assumes "136 \<le> length buf"
  shows "Sequential_beginProbing (tracer_of os ds f) ttlBegin ttlEnd retries timeout buf w
    \<noteq> Some (Inl Fault, w')"
proof
  assume "Sequential_beginProbing (tracer_of os ds f) ttlBegin ttlEnd retries timeout buf w
    = Some (Inl Fault, w')"
  from real.ttl_loop_safe [OF this [unfolded Sequential_beginProbing_def] assms] show False by simp
qed

lemma sequential_memory_safe_example:
  "Sequential_beginProbing (tracer_of scripted udp_sender udp_factory) 1 5 1 20000 (replicate BufferSize 0) two_hops
    \<noteq> Some (Inl Fault, two_hops)"
  by (rule sequential_memory_safe) (simp add: BufferSize_def)

text \<open>
  A packet that could not be sent ends the sequential tracer with an exception, before it has
  waited for anything.
\<close>

lemma sequential_send_failure:
  assumes "ttlBegin \<le> ttlEnd" "retries \<noteq> 0" "createPacket os f w = (Inr p, w1)"
    and "trySending os ds p (sint ttlBegin) 5000 w1 = (Inr False, w2)"
  shows "Sequential_beginProbing (tracer_of os ds f) ttlBegin ttlEnd retries timeout buf w
    = Some (Inl (Runtime_error ''Failed to send a packet''), w2)"
proof -
  obtain n where "unat retries = Suc n"
    using assms(2) by (metis not0_implies_Suc unat_eq_zero)
  with assms show ?thesis
    by (simp add: Sequential_beginProbing_def ttl_loop.simps [of _ ttlBegin] probe_once_def
        bindL_def io_simps tracer_of_def)
qed

lemma sequential_send_failure_example:
  "fst (the (Sequential_beginProbing (tracer_of (scripted\<lparr>sys_sendto := (\<lambda>fd d a n w. (0, w))\<rparr>)
      udp_sender udp_factory) 1 5 1 20000 sample_buffer two_hops))
    = Inl (Runtime_error ''Failed to send a packet'')"
proof -
  let ?os = "scripted\<lparr>sys_sendto := (\<lambda>fd d a n w. (0, w))\<rparr>"
  have "\<not> isl (fst (createPacket ?os udp_factory two_hops))"
    "snd (createPacket ?os udp_factory two_hops) = two_hops"
    by (code_simp, code_simp)
  then obtain p where p: "createPacket ?os udp_factory two_hops
      = (Inr p, two_hops)"
    by (metis prod.collapse sum.collapse(2))
  have "getDestinationAddress p = server6" using createPacket_addresses [OF p] by simp
  then have "trySending ?os udp_sender p (sint (1 :: u32)) 5000 two_hops
      = (Inr False, two_hops\<lparr>wd_time := 1\<rparr>)"
    by (simp add: trySending_def setTtl_def Poll_one_def io_simps Let_def udp_sender_def
        scripted_def scripted_poll_def family_def v6_def two_hops_def start_world_def)
  with p show ?thesis
    using sequential_send_failure [of 1 5 1 ?os "udp_factory" two_hops p]
    by simp
qed

section \<open>Waiting\<close>

text \<open>
  C15. The waiting loop and its account. The loop returns with the flag set exactly when a datagram
  that the validator accepts was received while there was time left, behind any number of receives
  that brought nothing or a datagram it refuses; it returns with the flag not set exactly when only
  such receives happened until less than the minimal time was left. No acceptable answer is missed
  and none is made up.
\<close>

theorem waiting_account:
  "(await_response (tracer_of os ds f) packet sentAt timeout False None buf w
        = Some (Inr (True, ri, buf'), w')
      \<longleftrightarrow> (\<exists>info. ri = Some info
        \<and> answered_by (tracer_of os ds f) packet sentAt timeout (buf, w) info (buf', w')))
   \<and> ((\<exists>ri. await_response (tracer_of os ds f) packet sentAt timeout False None buf w
        = Some (Inr (False, ri, buf'), w'))
      \<longleftrightarrow> unanswered (tracer_of os ds f) packet sentAt timeout (buf, w) (buf', w'))"
  by (intro conjI await_iff)

text \<open>
  C16. An answer that arrives in time is reported: once the probe is on the wire, an accepted datagram
  behind any number of receives in vain gives a result with the sender of that datagram, and the
  destination counts as reached exactly when that sender is it. A probe without such an answer is
  reported as failed after the whole timeout.
\<close>

theorem probe_answer_reported:
  assumes "createPacket os f w = (Inr packet, w1)"
    and "trySending os ds packet (sint ttl) 5000 w1 = (Inr True, w2)" "sys_now os w2 = (sentAt, w3)"
  shows "(answered_by (tracer_of os ds f) packet sentAt timeout (buf, w3) info (buf', w4)
      \<longrightarrow> (\<exists>waited w5. probe_once (tracer_of os ds f) ttl timeout buf w
        = Some (Inr (successProbe waited (ri_client info),
            addr_eq (ri_client info) (factory_destination f), buf'), w5)))
    \<and> (unanswered (tracer_of os ds f) packet sentAt timeout (buf, w3) (buf', w4)
      \<longrightarrow> probe_once (tracer_of os ds f) ttl timeout buf w
        = Some (Inr (failedProbe timeout, False, buf'), w4))"
proof -
  let ?T = "tracer_of os ds f"
  have parts: "t_createPacket ?T w = (Inr packet, w1)"
    "t_trySending ?T packet (sint ttl) 5000 w1 = (Inr True, w2)" "t_now ?T w2 = (sentAt, w3)"
    using assms by (simp_all add: tracer_of_def)
  note heard = probe_once_hears [OF parts(1,2), unfolded parts(3) fst_conv snd_conv]
    and silent = probe_once_silence [OF parts(1,2), unfolded parts(3) fst_conv snd_conv]
  have "getDestinationAddress packet = factory_destination f"
    using createPacket_addresses [OF assms(1)] by simp
  with heard silent show ?thesis by fastforce
qed

theorem probe_answer_reported_witness:
  "\<exists>waited w5. probe_once (tracer_of scripted udp_sender udp_factory) 1 20000 sample_buffer two_hops
    = Some (Inr (successProbe waited router6, False, write_front (udp_error 3) sample_buffer), w5)"
proof -
  let ?T = "tracer_of scripted udp_sender udp_factory"
  let ?p = "UdpPacket home6 server6
      \<lparr>udp_source = htons 50007, udp_dest = htons 33434, udp_len = htons 8, udp_check = 0\<rparr>"
  let ?info = "\<lparr>ri_client = router6, ri_protocol = IPPROTO_ICMPV6, ri_size = 16\<rparr>"
  let ?w = "two_hops\<lparr>wd_time := 1\<rparr>" and ?buf = "write_front (udp_error 3) sample_buffer"
  let ?v = "two_hops\<lparr>wd_time := 1000001, wd_inbox := [(udp_error 1, server6)]\<rparr>"
  have sent: "createPacket scripted udp_factory two_hops = (Inr ?p, two_hops)"
    "trySending scripted udp_sender ?p (sint (1 :: u32)) 5000 two_hops = (Inr True, ?w)"
    "sys_now scripted ?w = (1, ?w)"
    by (code_simp, code_simp, code_simp)
  have "getTimeLeft ?T 1 20000 ?w = (20000, ?w)"
    "t_tryReceiving ?T sample_buffer BufferSize (to_milliseconds 20000) ?w = (Inr (Some ?info, ?buf), ?v)"
    "packet_isValid ?p ?info ?buf = Inr True" "snd (getTimeLeft ?T 1 20000 ?v) = ?v"
    by (code_simp, code_simp, code_simp, code_simp)
  then have "answered_by ?T ?p 1 20000 (sample_buffer, ?w) ?info (?buf, ?v)"
    unfolding answered_by_def
    by (intro exI [of _ "(sample_buffer, ?w)"] exI [of _ ?v] conjI in_vain.none)
      (auto intro!: hears.receive simp: MinTimeWaitForResponse_def)
  moreover have "\<not> addr_eq router6 server6" by code_simp
  ultimately show ?thesis
    using probe_answer_reported [OF sent, of 20000 sample_buffer ?info ?buf ?v] by simp
qed

end
