(* ===== verification/Fast.thy ===== *)
theory Fast
  imports Tracer
begin

text \<open>
  \<open>src/FastTraceroute.cpp\<close>: all probes are sent by one thread while another receives the answers.
  The threads share the list of unanswered probes, guarded by a mutex, and the outside world. The
  state of a run is one record; each thread has a program counter and a step function, whose steps
  are the calls of the collaborators and the critical sections; a run interleaves the steps.
\<close>

section \<open>Shared data\<close>

record PacketToValidate =
  pv_packet :: packet
  pv_sentAt :: int
  pv_ttl :: u32
  pv_retry :: u32

text \<open>\<open>std::map<unsigned, std::vector<ProbeResult>>\<close>: the entries in the order of their keys.\<close>

type_synonym result_map = "(u32 \<times> ProbeResult list) list"

text \<open>\<open>ttlToProbeResults[ttl].push_back(result)\<close>\<close>

fun push_result :: "u32 \<Rightarrow> ProbeResult \<Rightarrow> result_map \<Rightarrow> result_map" where
  "push_result ttl r [] = [(ttl, [r])]"
| "push_result ttl r ((k, rs) # m) =
     (if ttl < k then (ttl, [r]) # (k, rs) # m
      else if ttl = k then (k, rs @ [r]) # m
      else (k, rs) # push_result ttl r m)"

definition getCurrentSize :: "result_map \<Rightarrow> u32" where
  "getCurrentSize m = foldl (\<lambda>total kv. total + of_nat (length (snd kv))) 0 m"

text \<open>The product is computed in \<open>unsigned\<close> and then widened.\<close>

definition expectedSize :: "u32 \<Rightarrow> u32 \<Rightarrow> u32 \<Rightarrow> u64" where
  "expectedSize ttlBegin ttlEnd retries = ucast ((ttlEnd - ttlBegin + 1) * retries)"

text \<open>
  The count of a product of \<open>milliseconds\<close> and a \<open>size_t\<close> is a \<open>size_t\<close>; the conversion to
  \<open>microseconds\<close> multiplies by 1000 before it goes back to a signed count.
\<close>

definition expectedMaxTimeTaken :: "int \<Rightarrow> u64 \<Rightarrow> int" where
  "expectedMaxTimeTaken timeout expected =
     sint (word_of_int (to_milliseconds timeout) * expected * 1000)"

section \<open>The sending thread\<close>

text \<open>
  \<open>S_at ttl i\<close>: at the test of the inner loop. \<open>S_sent p ttl i\<close>: the packet is on the wire and the
  thread is about to take the lock.
\<close>

datatype sender_pc = S_at u32 u32 | S_sent packet u32 u32 | S_done | S_threw exn

text \<open>
  \<open>R_start\<close>: before the clock is read. \<open>R_test\<close>: at the loop test. \<open>R_receive\<close>: about to call
  \<open>tryReceiving\<close>. \<open>R_lock\<close>: about to enter the critical section. \<open>R_collect\<close>: behind the loop.
\<close>

datatype receiver_pc =
    R_start
  | R_test int
  | R_receive int
  | R_lock int "ResponseInfo option"
  | R_collect
  | R_done "TracerouteResult list"
  | R_threw exn

record 'w fast_job =
  fj_tracer :: "'w tracer"
  fj_begin :: u32
  fj_end :: u32
  fj_retries :: u32
  fj_timeout :: int

definition fast_job_of ::
    "'w os \<Rightarrow> DataSender \<Rightarrow> packet_factory \<Rightarrow> u32 \<Rightarrow> u32 \<Rightarrow> u32 \<Rightarrow> int \<Rightarrow> 'w fast_job" where
  "fast_job_of os ds f ttlBegin ttlEnd retries timeout =
     \<lparr>fj_tracer = tracer_of os ds f, fj_begin = ttlBegin, fj_end = ttlEnd, fj_retries = retries,
      fj_timeout = timeout\<rparr>"

record 'w fast_state =
  fs_world :: 'w
  fs_pending :: "PacketToValidate list"
  fs_buffer :: "byte list"
  fs_results :: result_map
  fs_sender :: sender_pc
  fs_receiver :: receiver_pc

definition send_one :: "'w tracer \<Rightarrow> u32 \<Rightarrow> ('w, packet) io" where
  "send_one T ttl =
     bindE (t_createPacket T) (\<lambda>packet.
     bindE (t_trySending T packet (sint ttl) 5000) (\<lambda>sent.
       if \<not> sent then throwE (Runtime_error ''Failed to send a packet'')
       else returnE packet))"

definition sender_step :: "'w fast_job \<Rightarrow> 'w fast_state \<Rightarrow> 'w fast_state" where
  "sender_step J s =
     (case fs_sender s of
        S_at ttl i \<Rightarrow>
          if ttl \<le> fj_end J
          then (if i < fj_retries J
                then (case send_one (fj_tracer J) ttl (fs_world s) of
                        (Inl e, w) \<Rightarrow> s\<lparr>fs_sender := S_threw e, fs_world := w\<rparr>
                      | (Inr packet, w) \<Rightarrow> s\<lparr>fs_sender := S_sent packet ttl i, fs_world := w\<rparr>)
                else s\<lparr>fs_sender := S_at (ttl + 1) 0\<rparr>)
          else s\<lparr>fs_sender := S_done\<rparr>
      | S_sent packet ttl i \<Rightarrow>
          (let (n, w) = t_now (fj_tracer J) (fs_world s)
           in s\<lparr>fs_pending := fs_pending s
                  @ [\<lparr>pv_packet = packet, pv_sentAt = n, pv_ttl = ttl, pv_retry = i\<rparr>],
                fs_sender := S_at ttl (i + 1), fs_world := w\<rparr>)
      | S_done \<Rightarrow> s
      | S_threw e \<Rightarrow> s)"

section \<open>The receiving thread\<close>

text \<open>\<open>std::find_if\<close> and \<open>erase\<close>: the first probe that accepts the response, and the others.\<close>

fun find_valid ::
    "PacketToValidate list \<Rightarrow> ResponseInfo \<Rightarrow> byte list
       \<Rightarrow> exn + (PacketToValidate \<times> PacketToValidate list) option" where
  "find_valid [] info buf = Inr None"
| "find_valid (p # ps) info buf =
     bindS (packet_isValid (pv_packet p) info buf) (\<lambda>valid.
       if valid then Inr (Some (p, ps))
       else bindS (find_valid ps info buf) (\<lambda>found.
              Inr (map_option (\<lambda>(q, rest). (q, p # rest)) found)))"

definition record_answer ::
    "'w tracer \<Rightarrow> ResponseInfo \<Rightarrow> byte list \<Rightarrow> PacketToValidate list \<Rightarrow> result_map
       \<Rightarrow> ('w, PacketToValidate list \<times> result_map) io" where
  "record_answer T info buf pending results =
     bindE (pureE (find_valid pending info buf)) (\<lambda>found.
       case found of
         None \<Rightarrow> returnE (pending, results)
       | Some (p, rest) \<Rightarrow>
           bindE (callE (getTimePassedTillNow T (pv_sentAt p))) (\<lambda>waited.
             returnE (rest, push_result (pv_ttl p) (successProbe waited (ri_client info)) results)))"

text \<open>
  The loop over the probes that waited too long. \<open>erase(it)\<close> moves the following elements down, so
  that \<open>it\<close>, which the loop goes on with, is at the next one.
\<close>

fun expire ::
    "'w tracer \<Rightarrow> int \<Rightarrow> PacketToValidate list \<Rightarrow> result_map \<Rightarrow> 'w
       \<Rightarrow> (PacketToValidate list \<times> result_map) \<times> 'w" where
  "expire T timeout [] results w = (([], results), w)"
| "expire T timeout (p # ps) results w =
     (let (timeLeft, w1) = getTimeLeft T (pv_sentAt p) timeout w in
      if timeLeft < MinTimeWaitForResponse
      then (let (waited, w2) = getTimePassedTillNow T (pv_sentAt p) w1
            in expire T timeout ps (push_result (pv_ttl p) (failedProbe waited) results) w2)
      else (let ((rest, results'), w2) = expire T timeout ps results w1
            in ((p # rest, results'), w2)))"

text \<open>The critical section.\<close>

definition validate_locked ::
    "'w tracer \<Rightarrow> int \<Rightarrow> ResponseInfo option \<Rightarrow> byte list \<Rightarrow> PacketToValidate list \<Rightarrow> result_map
       \<Rightarrow> ('w, PacketToValidate list \<times> result_map) io" where
  "validate_locked T timeout respInfo buf pending results =
     bindE (case respInfo of
              Some info \<Rightarrow> record_answer T info buf pending results
            | None \<Rightarrow> returnE (pending, results))
       (\<lambda>(pending', results'). callE (expire T timeout pending' results'))"

text \<open>Behind the loop: the results by ascending TTL, cut off behind the first one with the target.\<close>

definition collect_results :: "result_map \<Rightarrow> TracerouteResult list" where
  "collect_results m =
     sort_key tr_ttl (map (\<lambda>(k, rs). \<lparr>tr_ttl = k, tr_probeResults = rs\<rparr>) m)"

definition cut_at_target :: "SocketAddress \<Rightarrow> TracerouteResult list \<Rightarrow> TracerouteResult list" where
  "cut_at_target target results =
     takeWhile (\<lambda>r. \<not> target_seen target r) results
     @ take 1 (dropWhile (\<lambda>r. \<not> target_seen target r) results)"

definition receiver_step :: "'w fast_job \<Rightarrow> 'w fast_state \<Rightarrow> 'w fast_state" where
  "receiver_step J s =
     (let T = fj_tracer J; timeout = fj_timeout J;
          expected = expectedSize (fj_begin J) (fj_end J) (fj_retries J) in
      case fs_receiver s of
        R_start \<Rightarrow>
          (let (beginAt, w) = t_now T (fs_world s)
           in s\<lparr>fs_receiver := R_test beginAt, fs_world := w\<rparr>)
      | R_test beginAt \<Rightarrow>
          if ucast (getCurrentSize (fs_results s)) < expected
          then (let (timeLeft, w) =
                      getTimeLeft T beginAt (expectedMaxTimeTaken timeout expected) (fs_world s)
                in s\<lparr>fs_receiver := (if timeLeft > 0 then R_receive beginAt else R_collect),
                     fs_world := w\<rparr>)
          else s\<lparr>fs_receiver := R_collect\<rparr>
      | R_receive beginAt \<Rightarrow>
          (case t_tryReceiving T (fs_buffer s) BufferSize (to_milliseconds timeout) (fs_world s) of
             (Inl e, w) \<Rightarrow> s\<lparr>fs_receiver := R_threw e, fs_world := w\<rparr>
           | (Inr (respInfo, buf), w) \<Rightarrow>
               s\<lparr>fs_receiver := R_lock beginAt respInfo, fs_buffer := buf, fs_world := w\<rparr>)
      | R_lock beginAt respInfo \<Rightarrow>
          (case validate_locked T timeout respInfo (fs_buffer s) (fs_pending s) (fs_results s)
                  (fs_world s) of
             (Inl e, w) \<Rightarrow> s\<lparr>fs_receiver := R_threw e, fs_world := w\<rparr>
           | (Inr (pending, results), w) \<Rightarrow>
               s\<lparr>fs_receiver := R_test beginAt, fs_pending := pending, fs_results := results,
                 fs_world := w\<rparr>)
      | R_collect \<Rightarrow>
          (case t_createPacket T (fs_world s) of
             (Inl e, w) \<Rightarrow> s\<lparr>fs_receiver := R_threw e, fs_world := w\<rparr>
           | (Inr packet, w) \<Rightarrow>
               s\<lparr>fs_receiver := R_done (cut_at_target (getDestinationAddress packet)
                                        (collect_results (fs_results s))),
                 fs_world := w\<rparr>)
      | R_done results \<Rightarrow> s
      | R_threw e \<Rightarrow> s)"

section \<open>Runs\<close>

text \<open>
  \<open>beginProbing\<close> starts the sending thread and receives. The member \<open>mPacketsToBeValidated\<close> keeps
  what an earlier call left in it. The destructor of the future waits for the sending thread, and
  the exception that thread may have ended with is never looked at.
\<close>

definition Fast_start ::
    "'w fast_job \<Rightarrow> PacketToValidate list \<Rightarrow> byte list \<Rightarrow> 'w \<Rightarrow> 'w fast_state" where
  "Fast_start J mPacketsToBeValidated buf w =
     \<lparr>fs_world = w, fs_pending = mPacketsToBeValidated, fs_buffer = buf, fs_results = [],
      fs_sender = S_at (fj_begin J) 0, fs_receiver = R_start\<rparr>"

fun sender_finished :: "sender_pc \<Rightarrow> bool" where
  "sender_finished S_done = True"
| "sender_finished (S_threw e) = True"
| "sender_finished (S_at ttl i) = False"
| "sender_finished (S_sent p ttl i) = False"

fun receiver_finished :: "receiver_pc \<Rightarrow> bool" where
  "receiver_finished (R_done res) = True"
| "receiver_finished (R_threw e) = True"
| "receiver_finished R_start = False"
| "receiver_finished (R_test b) = False"
| "receiver_finished (R_receive b) = False"
| "receiver_finished (R_lock b r) = False"
| "receiver_finished R_collect = False"

inductive fast_step :: "'w fast_job \<Rightarrow> 'w fast_state \<Rightarrow> 'w fast_state \<Rightarrow> bool" for J where
  sender: "\<not> sender_finished (fs_sender s) \<Longrightarrow> fast_step J s (sender_step J s)"
| receiver: "\<not> receiver_finished (fs_receiver s) \<Longrightarrow> fast_step J s (receiver_step J s)"

inductive fast_reach :: "'w fast_job \<Rightarrow> 'w fast_state \<Rightarrow> 'w fast_state \<Rightarrow> bool" for J s where
  start: "fast_reach J s s"
| step: "fast_reach J s t \<Longrightarrow> fast_step J t u \<Longrightarrow> fast_reach J s u"

inductive_cases fast_stepE: "fast_step J s t"

text \<open>The outcome of \<open>beginProbing\<close>, once both threads have ended.\<close>

definition Fast_outcome :: "'w fast_state \<Rightarrow> (exn + TracerouteResult list) option" where
  "Fast_outcome s =
     (if sender_finished (fs_sender s)
      then (case fs_receiver s of
              R_done res \<Rightarrow> Some (Inr res)
            | R_threw e \<Rightarrow> Some (Inl e)
            | _ \<Rightarrow> None)
      else None)"

text \<open>One interleaving, given by the thread that moves next: \<open>True\<close> for the sending thread.\<close>

fun fast_run :: "'w fast_job \<Rightarrow> bool list \<Rightarrow> 'w fast_state \<Rightarrow> 'w fast_state" where
  "fast_run J [] s = s"
| "fast_run J (b # bs) s = fast_run J bs (if b then sender_step J s else receiver_step J s)"

lemma fast_job_of_simps [simp]:
  "fj_tracer (fast_job_of os ds f b e r t) = tracer_of os ds f"
  "fj_begin (fast_job_of os ds f b e r t) = b" "fj_end (fast_job_of os ds f b e r t) = e"
  "fj_retries (fast_job_of os ds f b e r t) = r" "fj_timeout (fast_job_of os ds f b e r t) = t"
  by (simp_all add: fast_job_of_def)

text \<open>A step of a thread that has ended changes nothing, so every schedule is a run.\<close>

lemma fast_run_reach: "fast_reach J s t \<Longrightarrow> fast_reach J s (fast_run J bs t)"
proof (induction bs arbitrary: t)
  case (Cons b bs)
  have idle: "sender_finished (fs_sender t) \<Longrightarrow> sender_step J t = t"
    "receiver_finished (fs_receiver t) \<Longrightarrow> receiver_step J t = t"
    by (auto simp: sender_step_def receiver_step_def Let_def split: sender_pc.splits
        receiver_pc.splits)
  have "fast_reach J s (if b then sender_step J t else receiver_step J t)"
    using Cons.prems idle
    by (cases b; cases "sender_finished (fs_sender t)"; cases "receiver_finished (fs_receiver t)")
      (auto intro: fast_reach.step fast_step.intros)
  then show ?case using Cons.IH by simp
qed (simp add: fast_reach.start)

end
