(* ===== verification/Projection.thy ===== *)
theory Projection
  imports Sequential Fast
begin

text \<open>
  Two tracers of which one knows more about the world than the other: \<open>h\<close> forgets what only the first
  knows. When their collaborators agree up to \<open>h\<close>, so do all runs of both tracers; a world that is
  only observed more closely does not change what the program does.
\<close>

section \<open>Operations that agree\<close>

definition agrees :: "('v \<Rightarrow> 'w) \<Rightarrow> ('v \<Rightarrow> 'a \<times> 'v) \<Rightarrow> ('w \<Rightarrow> 'a \<times> 'w) \<Rightarrow> bool" where
  "agrees h m' m \<longleftrightarrow> (\<forall>v. m (h v) = apsnd h (m' v))"

definition follows :: "('v \<Rightarrow> 'w) \<Rightarrow> ('v, 'a) loop \<Rightarrow> ('w, 'a) loop \<Rightarrow> bool" where
  "follows h m' m \<longleftrightarrow> (\<forall>v. m (h v) = map_option (apsnd h) (m' v))"

named_theorems agree_intros \<open>operations that agree\<close>

lemma agrees_run: "agrees h m' m \<Longrightarrow> m (h v) = (fst (m' v), h (snd (m' v)))"
  by (simp add: agrees_def apsnd_def map_prod_def split_beta)

lemma agrees_step: "agrees h m' m \<Longrightarrow> m (h v) = (x, w) \<Longrightarrow> \<exists>u. m' v = (x, u) \<and> w = h u"
  by (cases "m' v") (auto simp: agrees_def)

lemma agrees_bindE [agree_intros]:
  assumes "agrees h m' m" "\<And>x. agrees h (k' x) (k x)"
  shows "agrees h (bindE m' k') (bindE m k)"
  using assms by (auto simp: agrees_def bindE_def split: prod.splits sum.splits)

lemma agrees_basic [agree_intros]:
  "agrees h (returnE x) (returnE x)" "agrees h (throwE e) (throwE e)" "agrees h (pureE r) (pureE r)"
  by (simp_all add: agrees_def io_run)

lemma agrees_callE [agree_intros]: "agrees h f' f \<Longrightarrow> agrees h (callE f') (callE f)"
  by (simp add: agrees_def io_run apsnd_def map_prod_def split_beta)

lemma follows_bindL [agree_intros]:
  assumes "follows h m' m" "\<And>x. follows h (k' x) (k x)"
  shows "follows h (bindL m' k') (bindL m k)"
  using assms by (auto simp: follows_def bindL_def split: option.splits prod.splits sum.splits)

lemma follows_liftL [agree_intros]: "agrees h m' m \<Longrightarrow> follows h (liftL m') (liftL m)"
  by (simp add: agrees_def follows_def liftL_def)

lemma follows_cases [agree_intros]:
  "follows h m' m \<Longrightarrow> follows h n' n \<Longrightarrow> follows h (if c then m' else n') (if c then m else n)"
  "follows h m' m \<Longrightarrow> (\<And>x. follows h (k' x) (k x)) \<Longrightarrow>
     follows h (case r of None \<Rightarrow> m' | Some x \<Rightarrow> k' x) (case r of None \<Rightarrow> m | Some x \<Rightarrow> k x)"
  "(\<And>a b. follows h (f' a b) (f a b)) \<Longrightarrow> follows h (case p of (a, b) \<Rightarrow> f' a b) (case p of (a, b) \<Rightarrow> f a b)"
  by (simp_all split: option.split prod.split)

lemma agrees_cases [agree_intros]:
  "agrees h m' m \<Longrightarrow> agrees h n' n \<Longrightarrow> agrees h (if c then m' else n') (if c then m else n)"
  "agrees h m' m \<Longrightarrow> (\<And>x. agrees h (k' x) (k x)) \<Longrightarrow>
     agrees h (case r of None \<Rightarrow> m' | Some x \<Rightarrow> k' x) (case r of None \<Rightarrow> m | Some x \<Rightarrow> k x)"
  "(\<And>a b. agrees h (f' a b) (f a b)) \<Longrightarrow> agrees h (case p of (a, b) \<Rightarrow> f' a b) (case p of (a, b) \<Rightarrow> f a b)"
  by (simp_all split: option.split prod.split)

section \<open>Tracers that agree\<close>

definition projects :: "('v \<Rightarrow> 'w) \<Rightarrow> 'v tracer \<Rightarrow> 'w tracer \<Rightarrow> bool" where
  "projects h U T \<longleftrightarrow> agrees h (t_createPacket U) (t_createPacket T)
     \<and> (\<forall>p ttl t. agrees h (t_trySending U p ttl t) (t_trySending T p ttl t))
     \<and> (\<forall>buf n t. agrees h (t_tryReceiving U buf n t) (t_tryReceiving T buf n t))
     \<and> agrees h (t_now U) (t_now T)"

lemma projects_ports [agree_intros]:
  assumes "projects h U T"
  shows "agrees h (t_createPacket U) (t_createPacket T)"
    "agrees h (t_trySending U p ttl t) (t_trySending T p ttl t)"
    "agrees h (t_tryReceiving U buf n t) (t_tryReceiving T buf n t)"
    "agrees h (t_now U) (t_now T)"
  using assms by (simp_all add: projects_def)

lemma agrees_timers [agree_intros]:
  assumes "projects h U T"
  shows "agrees h (getTimePassedTillNow U start) (getTimePassedTillNow T start)"
    "agrees h (getTimeLeft U start timeout) (getTimeLeft T start timeout)"
  using projects_ports(4) [OF assms]
  by (auto simp: agrees_def getTimePassedTillNow_def getTimeLeft_def split: prod.splits)

section \<open>The sequential tracer\<close>

lemma await_down:
  assumes "projects h U T"
  shows "await_response U packet sentAt timeout v ri buf u = Some out \<Longrightarrow>
    await_response T packet sentAt timeout v ri buf (h u) = Some (apsnd h out)"
proof (induction rule: await_induct)
  case (stop v ri buf w left w1)
  with agrees_run [OF agrees_timers(2) [OF assms]] show ?case
    by (simp add: await_response.simps)
next
  case (throw ri buf w left w1 e w2)
  with agrees_run [OF agrees_timers(2) [OF assms]] agrees_run [OF projects_ports(3) [OF assms]]
  show ?case by (simp add: await_response.simps)
next
  case (bad ri buf w left w1 info buf' e w2)
  with agrees_run [OF agrees_timers(2) [OF assms]] agrees_run [OF projects_ports(3) [OF assms]]
  show ?case by (simp add: await_response.simps)
next
  case (silent ri buf w left w1 buf' w2 out)
  with agrees_run [OF agrees_timers(2) [OF assms]] agrees_run [OF projects_ports(3) [OF assms]]
  show ?case by (subst await_response.simps) simp
next
  case (heard ri buf w left w1 info buf' w2 v out)
  with agrees_run [OF agrees_timers(2) [OF assms]] agrees_run [OF projects_ports(3) [OF assms]]
  show ?case by (subst await_response.simps) simp
qed

lemma await_turn_up:
  assumes "projects h U T" "getTimeLeft T sentAt timeout w = (left, w1)"
    "t_tryReceiving T buf n (to_milliseconds left) w1 = (r, w2)" "w = h u"
  shows "\<exists>u1 u2. getTimeLeft U sentAt timeout u = (left, u1) \<and> w2 = h u2
    \<and> t_tryReceiving U buf n (to_milliseconds left) u1 = (r, u2)"
  using assms(2-4) agrees_step [OF agrees_timers(2) [OF assms(1)], of sentAt timeout u left w1]
    agrees_step [OF projects_ports(3) [OF assms(1)]] by blast

lemma await_up:
  assumes "projects h U T"
  shows "await_response T packet sentAt timeout v ri buf w = Some out \<Longrightarrow> w = h u \<Longrightarrow>
    await_response U packet sentAt timeout v ri buf u \<noteq> None"
proof (induction arbitrary: u rule: await_induct)
  case (stop v ri buf w left w1)
  with agrees_step [OF agrees_timers(2) [OF assms]] show ?case
    by (fastforce simp: await_response.simps)
next
  case (throw ri buf w left w1 e w2)
  from await_turn_up [OF assms this(1) this(3) this(4)] throw(2) show ?case
    by (auto simp: await_response.simps)
next
  case (bad ri buf w left w1 info buf' e w2)
  from await_turn_up [OF assms this(1) this(3) this(5)] bad(2,4) show ?case
    by (auto simp: await_response.simps)
next
  case (silent ri buf w left w1 buf' w2 out)
  from await_turn_up [OF assms this(1) this(3) this(5)] silent(2,4) show ?case
    by (subst await_response.simps) (fastforce simp del: not_None_eq)
next
  case (heard ri buf w left w1 info buf' w2 v out)
  from await_turn_up [OF assms this(1) this(3) this(6)] heard(2,4,5) show ?case
    by (subst await_response.simps) (fastforce simp del: not_None_eq)
qed

text \<open>Both directions together.\<close>

lemma followsI:
  assumes "\<And>v out. m' v = Some out \<Longrightarrow> m (h v) = Some (apsnd h out)"
    and "\<And>v out. m (h v) = Some out \<Longrightarrow> m' v \<noteq> None"
  shows "follows h m' m"
  unfolding follows_def
proof
  fix v
  show "m (h v) = map_option (apsnd h) (m' v)"
    using assms [of v] by (cases "m' v"; cases "m (h v)") auto
qed

lemma follows_await [agree_intros]:
  "projects h U T \<Longrightarrow> follows h (await_response U packet sentAt timeout v ri buf)
    (await_response T packet sentAt timeout v ri buf)"
  by (rule followsI) (erule (1) await_down, erule (1) await_up, rule refl)

lemma follows_probe_once [agree_intros]:
  assumes "projects h U T"
  shows "follows h (probe_once U ttl timeout buf) (probe_once T ttl timeout buf)"
  unfolding probe_once_def
  by (intro agree_intros assms)

lemma follows_retry_loop:
  assumes "projects h U T"
  shows "follows h (retry_loop U ttl timeout n rs hit buf) (retry_loop T ttl timeout n rs hit buf)"
proof (induction n arbitrary: rs hit buf)
  case (Suc n)
  show ?case unfolding retry_loop.simps by (intro agree_intros assms Suc)
qed (simp add: agree_intros)

lemma follows_ttl_loop:
  assumes "projects h U T"
  shows "follows h (ttl_loop U ttl ttlEnd retries timeout probes hit buf)
    (ttl_loop T ttl ttlEnd retries timeout probes hit buf)"
proof (rule followsI)
  note turn = follows_retry_loop [OF assms, unfolded follows_def, rule_format]
  fix v
  show "ttl_loop T ttl ttlEnd retries timeout probes hit buf (h v) = Some (apsnd h out)"
    if "ttl_loop U ttl ttlEnd retries timeout probes hit buf v = Some out" for out
    using that
  proof (induction rule: ttl_induct)
    case (further ttl probes hit buf w rs buf' w1 out)
    then show ?case by (subst ttl_loop.simps) (simp add: turn)
  qed (simp_all add: ttl_loop.simps turn)
  have up: "\<forall>u. w = h u \<longrightarrow> ttl_loop U ttl ttlEnd retries timeout probes hit buf u \<noteq> None"
    if "ttl_loop T ttl ttlEnd retries timeout probes hit buf w = Some out" for w and out :: "(exn + TracerouteResult list \<times> byte list) \<times> 'b"
    using that
  proof (induction rule: ttl_induct)
    case (further ttl probes hit buf w rs buf' w1 out)
    then show ?case
      by (subst ttl_loop.simps) (fastforce simp: turn Let_def simp del: not_None_eq)
  qed (auto simp: ttl_loop.simps turn Let_def simp del: not_None_eq)
  then show "ttl_loop U ttl ttlEnd retries timeout probes hit buf v \<noteq> None"
    if "ttl_loop T ttl ttlEnd retries timeout probes hit buf (h v) = Some out" for out
    using up [OF that] by blast
qed

lemma sequential_projects:
  assumes "projects h U T"
  shows "Sequential_beginProbing T ttlBegin ttlEnd retries timeout buf (h v)
    = map_option (apsnd h) (Sequential_beginProbing U ttlBegin ttlEnd retries timeout buf v)"
  using follows_ttl_loop [OF assms] by (simp add: Sequential_beginProbing_def follows_def)

section \<open>The tracer with two threads\<close>

definition seen :: "('v \<Rightarrow> 'w) \<Rightarrow> 'v fast_state \<Rightarrow> 'w fast_state" where
  "seen h s =
     \<lparr>fs_world = h (fs_world s), fs_pending = fs_pending s, fs_buffer = fs_buffer s,
      fs_results = fs_results s, fs_sender = fs_sender s, fs_receiver = fs_receiver s\<rparr>"

definition job_seen :: "'w tracer \<Rightarrow> 'v fast_job \<Rightarrow> 'w fast_job" where
  "job_seen T J =
     \<lparr>fj_tracer = T, fj_begin = fj_begin J, fj_end = fj_end J, fj_retries = fj_retries J,
      fj_timeout = fj_timeout J\<rparr>"

lemma seen_simps [simp]:
  "fs_world (seen h s) = h (fs_world s)" "fs_pending (seen h s) = fs_pending s"
  "fs_buffer (seen h s) = fs_buffer s" "fs_results (seen h s) = fs_results s"
  "fs_sender (seen h s) = fs_sender s" "fs_receiver (seen h s) = fs_receiver s"
  "fj_tracer (job_seen T J) = T" "fj_begin (job_seen T J) = fj_begin J"
  "fj_end (job_seen T J) = fj_end J" "fj_retries (job_seen T J) = fj_retries J"
  "fj_timeout (job_seen T J) = fj_timeout J"
  by (simp_all add: seen_def job_seen_def)

lemma agrees_send_one [agree_intros]:
  "projects h U T \<Longrightarrow> agrees h (send_one U ttl) (send_one T ttl)"
  unfolding send_one_def by (intro agree_intros)

lemma agrees_expire [agree_intros]:
  assumes "projects h U T"
  shows "agrees h (expire U timeout ps m) (expire T timeout ps (m :: result_map))"
proof -
  note time = agrees_timers [OF assms, THEN agrees_run]
  have "expire T timeout ps m (h v) = apsnd h (expire U timeout ps m v)" for v
    by (induction ps arbitrary: m v) (simp_all add: time split_beta Let_def apsnd_def map_prod_def)
  then show ?thesis by (simp add: agrees_def)
qed

lemma agrees_validate_locked [agree_intros]:
  "projects h U T \<Longrightarrow> agrees h (validate_locked U timeout ri buf ps m) (validate_locked T timeout ri buf ps m)"
  unfolding validate_locked_def record_answer_def by (intro agree_intros)

lemma steps_seen:
  assumes "projects h (fj_tracer J) T"
  shows "sender_step (job_seen T J) (seen h s) = seen h (sender_step J s)"
    "receiver_step (job_seen T J) (seen h s) = seen h (receiver_step J s)"
proof -
  note ports = projects_ports [OF assms, THEN agrees_run] agrees_timers [OF assms, THEN agrees_run]
    agrees_send_one [OF assms, THEN agrees_run] agrees_validate_locked [OF assms, THEN agrees_run]
  show "sender_step (job_seen T J) (seen h s) = seen h (sender_step J s)"
    by (cases "fs_sender s")
      (auto simp: sender_step_def ports split_beta Let_def seen_def split: sum.splits)
  show "receiver_step (job_seen T J) (seen h s) = seen h (receiver_step J s)"
    by (cases "fs_receiver s")
      (auto simp: receiver_step_def ports split_beta Let_def seen_def split: sum.splits)
qed

text \<open>Every run that is seen is the sight of a run.\<close>

lemma reach_seen:
  assumes "fast_reach (job_seen T J) (seen h s0) t" "projects h (fj_tracer J) T"
  shows "\<exists>s. fast_reach J s0 s \<and> t = seen h s"
  using assms
proof (induction rule: fast_reach.induct)
  case start
  show ?case by (blast intro: fast_reach.start)
next
  case (step t u)
  then obtain s where s: "fast_reach J s0 s" "t = seen h s" by blast
  have "\<exists>s'. fast_step J s s' \<and> u = seen h s'"
    using step(2)
  proof (rule fast_stepE)
    assume "u = sender_step (job_seen T J) t" "\<not> sender_finished (fs_sender t)"
    with s(2) steps_seen(1) [OF step.prems] show ?thesis
      by (intro exI [of _ "sender_step J s"]) (simp add: fast_step.sender)
  next
    assume "u = receiver_step (job_seen T J) t" "\<not> receiver_finished (fs_receiver t)"
    with s(2) steps_seen(2) [OF step.prems] show ?thesis
      by (intro exI [of _ "receiver_step J s"]) (simp add: fast_step.receiver)
  qed
  then obtain s' where "fast_step J s s'" "u = seen h s'" by blast
  with s(1) show ?case by (blast intro: fast_reach.step)
qed

end
