(* ===== verification/FastRuns.thy ===== *)
theory FastRuns
  imports Fast
begin

text \<open>
  What every interleaving of the two threads of \<open>Fast\<close> keeps: the bookkeeping of the sorted map, the
  critical section as a sequence of abstract settling steps, and the invariant of a run.
\<close>

section \<open>The map of results\<close>

definition ascending :: "result_map \<Rightarrow> bool" where
  "ascending m \<longleftrightarrow> sorted_wrt (<) (map fst m) \<and> (\<forall>(k, rs) \<in> set m. rs \<noteq> [])"

definition results_of :: "result_map \<Rightarrow> u32 \<Rightarrow> ProbeResult list" where
  "results_of m ttl = (case map_of m ttl of None \<Rightarrow> [] | Some rs \<Rightarrow> rs)"

lemma push_result_keys: "fst ` set (push_result t r m) = insert t (fst ` set m)"
  by (induction t r m rule: push_result.induct) auto

lemma ascending_push: "ascending m \<Longrightarrow> ascending (push_result t r m)"
proof (induction t r m rule: push_result.induct)
  case (2 ttl r k rs m)
  have "\<forall>x \<in> fst ` set m. k < x" using 2(2) by (auto simp: ascending_def)
  with 2 push_result_keys [of ttl r m] show ?case
    by (fastforce simp: ascending_def)
qed (simp add: ascending_def)

lemma results_of_absent:
  assumes "\<forall>x \<in> fst ` set m. t < (x :: u32)"
  shows "map_of m t = None"
  unfolding map_of_eq_None_iff
proof
  assume "t \<in> fst ` set m"
  with assms have "t < t" by (rule bspec)
  then show False by simp
qed

lemma results_of_missing: "t \<notin> fst ` set m \<Longrightarrow> results_of m t = []"
  by (simp add: results_of_def map_of_eq_None_iff [THEN iffD2])

lemma results_of_push:
  "ascending m \<Longrightarrow>
     results_of (push_result t r m) u = (if u = t then results_of m t @ [r] else results_of m u)"
proof (induction t r m rule: push_result.induct)
  case (2 t r k rs m)
  have "\<forall>x \<in> fst ` set m. k < x" using 2(2) by (auto simp: ascending_def)
  then have "t < k \<Longrightarrow> map_of m t = None" "map_of m k = None"
    by (auto intro!: results_of_absent)
  moreover have "ascending m" using 2(2) by (simp add: ascending_def)
  ultimately show ?case using 2(1) by (auto simp: results_of_def)
qed (simp add: results_of_def)

lemma push_result_values:
  "(k, rs) \<in> set (push_result t r m) \<Longrightarrow> x \<in> set rs \<Longrightarrow>
     (k = t \<and> x = r) \<or> (\<exists>rs'. (k, rs') \<in> set m \<and> x \<in> set rs')"
  by (induction t r m arbitrary: k rs rule: push_result.induct) (auto split: if_splits)

definition total :: "result_map \<Rightarrow> nat" where
  "total m = sum_list (map (\<lambda>kv. length (snd kv)) m)"

lemma total_push: "total (push_result t r m) = Suc (total m)"
  by (induction t r m rule: push_result.induct) (auto simp: total_def)

lemma getCurrentSize_total: "getCurrentSize m = of_nat (total m)"
proof -
  have "foldl (\<lambda>n kv. n + of_nat (length (snd kv))) a m = a + of_nat (total m)" for a :: u32
    by (induction m arbitrary: a) (auto simp: total_def)
  then show ?thesis by (simp add: getCurrentSize_def)
qed

section \<open>The critical section\<close>

text \<open>
  One probe is settled: by an accepted response, or because its time has run out. Every probe that
  the critical section takes out of the list is settled in one of these two ways, and nothing else
  happens to the list and the map.
\<close>

inductive settles ::
    "'w tracer \<Rightarrow> int \<Rightarrow> PacketToValidate list \<times> result_map
       \<Rightarrow> PacketToValidate list \<times> result_map \<Rightarrow> bool" for T timeout where
  answer: "packet_isValid (pv_packet p) info buf = Inr True \<Longrightarrow>
     settles T timeout (ps @ p # qs, m)
       (ps @ qs, push_result (pv_ttl p) (successProbe waited (ri_client info)) m)"
| give_up: "getTimeLeft T (pv_sentAt p) timeout w = (left, w') \<Longrightarrow> left < MinTimeWaitForResponse \<Longrightarrow>
     settles T timeout (ps @ p # qs, m)
       (ps @ qs, push_result (pv_ttl p) (failedProbe waited) m)"

lemma find_valid_split:
  "find_valid pending info buf = Inr (Some (p, rest)) \<Longrightarrow>
     \<exists>ps qs. pending = ps @ p # qs \<and> rest = ps @ qs
       \<and> packet_isValid (pv_packet p) info buf = Inr True
       \<and> (\<forall>q \<in> set ps. packet_isValid (pv_packet q) info buf = Inr False)"
proof (induction pending arbitrary: rest)
  case (Cons q pending)
  show ?case
  proof (cases "packet_isValid (pv_packet q) info buf = Inr True")
    case True
    with Cons.prems show ?thesis by (intro exI [of _ "[]"] exI [of _ rest]) simp
  next
    case False
    with Cons.prems obtain rest' where rest': "rest = q # rest'"
      "find_valid pending info buf = Inr (Some (p, rest'))"
      "packet_isValid (pv_packet q) info buf = Inr False"
      by (auto simp: bindS_eq_Inr split: if_splits)
    from Cons.IH [OF rest'(2)] obtain ps qs where
      "pending = ps @ p # qs" "rest' = ps @ qs" "packet_isValid (pv_packet p) info buf = Inr True"
      "\<forall>q \<in> set ps. packet_isValid (pv_packet q) info buf = Inr False"
      by auto
    with rest' show ?thesis by (intro exI [of _ "q # ps"] exI [of _ qs]) auto
  qed
qed simp

lemma record_answer_settles:
  assumes "record_answer T info buf pending m w = (Inr (pending', m'), w')"
  shows "(settles T timeout)\<^sup>*\<^sup>* (pending, m) (pending', m')"
proof (cases "find_valid pending info buf = Inr None")
  case True
  with assms show ?thesis by (simp add: record_answer_def io_simps)
next
  case False
  with assms obtain p rest waited where
    "find_valid pending info buf = Inr (Some (p, rest))" "pending' = rest"
    "m' = push_result (pv_ttl p) (successProbe waited (ri_client info)) m"
    by (auto simp: record_answer_def io_simps split: option.splits sum.splits)
  then show ?thesis by (auto dest!: find_valid_split intro!: r_into_rtranclp settles.answer)
qed

lemma expire_settles:
  "expire T timeout pending m w = ((pending', m'), w') \<Longrightarrow>
     (settles T timeout)\<^sup>*\<^sup>* (done_with @ pending, m) (done_with @ pending', m')"
proof (induction pending arbitrary: done_with m pending' m' w w')
  case (Cons p ps)
  obtain left w1 where left: "getTimeLeft T (pv_sentAt p) timeout w = (left, w1)" by fastforce
  show ?case
  proof (cases "left < MinTimeWaitForResponse")
    case True
    obtain waited w2 where waited: "getTimePassedTillNow T (pv_sentAt p) w1 = (waited, w2)"
      by fastforce
    let ?m = "push_result (pv_ttl p) (failedProbe waited) m"
    have "settles T timeout (done_with @ p # ps, m) (done_with @ ps, ?m)"
      using left True by (rule settles.give_up)
    moreover have "(settles T timeout)\<^sup>*\<^sup>* (done_with @ ps, ?m) (done_with @ pending', m')"
      using Cons.prems left True waited by (intro Cons.IH [of ?m w2]) simp
    ultimately show ?thesis by (rule converse_rtranclp_into_rtranclp)
  next
    case False
    with Cons.prems left obtain rest where
      "expire T timeout ps m w1 = ((rest, m'), w')" "pending' = p # rest"
      by (auto simp: Let_def split: prod.splits)
    with Cons.IH [of m w1 rest m' w' "done_with @ [p]"] show ?thesis by simp
  qed
qed simp

lemma validate_locked_settles:
  assumes "validate_locked T timeout respInfo buf pending m w = (Inr (pending', m'), w')"
  shows "(settles T timeout)\<^sup>*\<^sup>* (pending, m) (pending', m')"
proof -
  from assms obtain ps m1 w1 where first:
    "(case respInfo of Some info \<Rightarrow> record_answer T info buf pending m
      | None \<Rightarrow> returnE (pending, m)) w = (Inr (ps, m1), w1)"
    and second: "expire T timeout ps m1 w1 = ((pending', m'), w')"
    unfolding validate_locked_def bindE_Inr by (auto simp: callE_Inr split: prod.splits)
  have "(settles T timeout)\<^sup>*\<^sup>* (pending, m) (ps, m1)"
    using first by (auto simp: io_simps dest: record_answer_settles split: option.splits)
  also have "(settles T timeout)\<^sup>*\<^sup>* (ps, m1) (pending', m')"
    using expire_settles [OF second, of "[]"] by simp
  finally show ?thesis .
qed

section \<open>The invariant\<close>

text \<open>
  \<open>accounted\<close> counts the probes of one TTL that have been registered: those that are waiting and
  those that have a result. \<open>quota\<close> is how many the sending thread has registered when it is about
  to send probe \<open>i\<close> of \<open>ttl\<close>, \<open>leftover\<close> how many an earlier call on the same tracer has left.
\<close>

definition accounted :: "PacketToValidate list \<times> result_map \<Rightarrow> u32 \<Rightarrow> nat" where
  "accounted pm t =
     length (filter (\<lambda>p. pv_ttl p = t) (fst pm)) + length (results_of (snd pm) t)"

definition quota :: "'w fast_job \<Rightarrow> u32 \<Rightarrow> u32 \<Rightarrow> u32 \<Rightarrow> nat" where
  "quota J ttl i t =
     (if fj_begin J \<le> t \<and> t < ttl then unat (fj_retries J) else if t = ttl then unat i else 0)"

definition leftover :: "PacketToValidate list \<Rightarrow> u32 \<Rightarrow> nat" where
  "leftover ps t = length (filter (\<lambda>p. pv_ttl p = t) ps)"

text \<open>A probe to the target, and one of this run or of an earlier one.\<close>

definition probe_ok :: "SocketAddress \<Rightarrow> packet \<Rightarrow> bool" where
  "probe_ok target p \<longleftrightarrow> getDestinationAddress p = target \<and> wf_packet p"

definition pending_ok ::
    "'w fast_job \<Rightarrow> SocketAddress \<Rightarrow> PacketToValidate list \<Rightarrow> PacketToValidate \<Rightarrow> bool" where
  "pending_ok J target old p \<longleftrightarrow> probe_ok target (pv_packet p)
     \<and> (p \<in> set old \<or> fj_begin J \<le> pv_ttl p \<and> pv_ttl p \<le> fj_end J \<and> pv_retry p < fj_retries J)"

definition settled_ok :: "SocketAddress \<Rightarrow> ProbeResult \<Rightarrow> bool" where
  "settled_ok target r \<longleftrightarrow> (\<exists>waited. r = failedProbe waited) \<or> accepted target r"

definition books_ok ::
    "'w fast_job \<Rightarrow> SocketAddress \<Rightarrow> PacketToValidate list \<Rightarrow> PacketToValidate list \<times> result_map
       \<Rightarrow> bool" where
  "books_ok J target old pm \<longleftrightarrow> ascending (snd pm)
     \<and> (\<forall>p \<in> set (fst pm). pending_ok J target old p)
     \<and> (\<forall>(k, rs) \<in> set (snd pm). \<forall>r \<in> set rs. settled_ok target r)"

lemma settles_books:
  assumes "settles T timeout pm pm'" "books_ok J target old pm"
  shows "books_ok J target old pm' \<and> accounted pm' t = accounted pm t"
  using assms
proof (induction rule: settles.induct)
  case (answer p info buf ps qs m waited)
  then have "getDestinationAddress (pv_packet p) = target" "wf_packet (pv_packet p)"
    by (auto simp: books_ok_def pending_ok_def probe_ok_def)
  with answer have "settled_ok target (successProbe waited (ri_client info))"
    unfolding settled_ok_def accepted_def by blast
  with answer show ?case
    by (auto simp: books_ok_def accounted_def ascending_push results_of_push
        dest!: push_result_values)
next
  case (give_up p w left w' ps qs m waited)
  have "settled_ok target (failedProbe waited)" by (auto simp: settled_ok_def)
  with give_up show ?case
    by (auto simp: books_ok_def accounted_def ascending_push results_of_push
        dest!: push_result_values)
qed

lemma settles_many:
  "(settles T timeout)\<^sup>*\<^sup>* pm pm' \<Longrightarrow> books_ok J target old pm \<Longrightarrow>
     books_ok J target old pm' \<and> accounted pm' t = accounted pm t"
  by (induction rule: rtranclp_induct) (auto simp: settles_books)

text \<open>Where the sending thread is, and what it has registered when it is there.\<close>

definition position_ok :: "'w fast_job \<Rightarrow> u32 \<Rightarrow> u32 \<Rightarrow> bool" where
  "position_ok J ttl i \<longleftrightarrow> fj_begin J \<le> ttl \<and> i \<le> fj_retries J \<and> (ttl \<le> fj_end J \<or> i = 0)
     \<and> (\<forall>t. fj_begin J \<le> t \<longrightarrow> t < ttl \<longrightarrow> t \<le> fj_end J)"

fun sender_at :: "'w fast_job \<Rightarrow> SocketAddress \<Rightarrow> sender_pc \<Rightarrow> u32 \<Rightarrow> u32 \<Rightarrow> bool" where
  "sender_at J target (S_at t j) ttl i \<longleftrightarrow> ttl = t \<and> i = j"
| "sender_at J target (S_sent p t j) ttl i \<longleftrightarrow> ttl = t \<and> i = j \<and> j < fj_retries J \<and> t \<le> fj_end J
     \<and> probe_ok target p"
| "sender_at J target S_done ttl i \<longleftrightarrow> fj_end J < ttl"
| "sender_at J target (S_threw e) ttl i \<longleftrightarrow> True"

definition fast_inv ::
    "'w fast_job \<Rightarrow> SocketAddress \<Rightarrow> PacketToValidate list \<Rightarrow> 'w fast_state \<Rightarrow> bool" where
  "fast_inv J target old s \<longleftrightarrow>
     books_ok J target old (fs_pending s, fs_results s)
     \<and> (\<exists>ttl i. sender_at J target (fs_sender s) ttl i \<and> position_ok J ttl i
          \<and> (\<forall>t. accounted (fs_pending s, fs_results s) t = quota J ttl i t + leftover old t))
     \<and> (\<forall>res. fs_receiver s = R_done res
          \<longrightarrow> res = cut_at_target target (collect_results (fs_results s)))"

lemma fast_invI:
  assumes "books_ok J target old (fs_pending s, fs_results s)"
    "sender_at J target (fs_sender s) ttl i" "position_ok J ttl i"
    "\<And>t. accounted (fs_pending s, fs_results s) t = quota J ttl i t + leftover old t"
    "\<And>res. fs_receiver s = R_done res \<Longrightarrow>
       res = cut_at_target target (collect_results (fs_results s))"
  shows "fast_inv J target old s"
  using assms unfolding fast_inv_def by blast

definition probes_ok :: "SocketAddress \<Rightarrow> PacketToValidate list \<Rightarrow> bool" where
  "probes_ok target ps \<longleftrightarrow> (\<forall>p \<in> set ps. probe_ok target (pv_packet p))"

lemma fast_inv_start: "probes_ok target old \<Longrightarrow> fast_inv J target old (Fast_start J old buf w)"
  by (auto simp: fast_inv_def Fast_start_def books_ok_def ascending_def accounted_def
      results_of_def quota_def position_ok_def pending_ok_def probes_ok_def leftover_def
      intro!: exI [of _ "fj_begin J"] exI [of _ 0])

lemma less_succ_iff:
  assumes "(hi :: u32) \<noteq> - 1" "x \<le> hi"
  shows "t < x + 1 \<longleftrightarrow> t \<le> x"
  using unat_next [OF assms] by (auto simp: word_less_nat_alt word_le_nat_alt)

text \<open>The inner loop of a TTL has come to its end.\<close>

lemma next_ttl_position:
  assumes "fj_end J \<noteq> - 1" "ttl \<le> fj_end J" "position_ok J ttl i" "\<not> i < fj_retries J"
  shows "position_ok J (ttl + 1) 0 \<and> quota J ttl i t = quota J (ttl + 1) 0 t"
proof -
  note less = less_succ_iff [OF assms(1,2)]
  have "i = fj_retries J" using assms(3,4) by (auto simp: position_ok_def)
  moreover have "ttl \<le> ttl + 1" using less [of ttl] by simp
  ultimately show ?thesis
    using assms(2,3) less by (auto simp: position_ok_def quota_def)
qed

lemma next_probe_position:
  assumes "ttl \<le> fj_end J" "position_ok J ttl i" "i < fj_retries J"
  shows "position_ok J ttl (i + 1)
     \<and> quota J ttl (i + 1) t = quota J ttl i t + (if t = ttl then 1 else 0)"
proof -
  have "unat (i + 1) = Suc (unat i)" using assms(3) by (rule unat_succ_less)
  then show ?thesis
    using assms by (auto simp: position_ok_def quota_def word_less_nat_alt word_le_nat_alt)
qed

context tracer_ports
begin

lemma send_one_result:
  "send_one T ttl w = (Inr p, w') \<Longrightarrow> probe_ok target p"
  unfolding send_one_def bindE_Inr probe_ok_def
  by (auto simp: io_run dest: packets.create_target packets.create_wf split: if_splits)

end

lemma sender_step_inv:
  assumes ports: "tracer_ports (fj_tracer J) target" and bound: "fj_end J \<noteq> - 1"
    and inv: "fast_inv J target old s"
  shows "fast_inv J target old (sender_step J s)"
proof -
  from inv obtain ttl i where at: "sender_at J target (fs_sender s) ttl i" "position_ok J ttl i"
    "\<And>t. accounted (fs_pending s, fs_results s) t = quota J ttl i t + leftover old t"
    by (auto simp: fast_inv_def)
  have books: "books_ok J target old (fs_pending s, fs_results s)"
    using inv by (simp add: fast_inv_def)
  show ?thesis
  proof (cases "fs_sender s")
    case (S_at t j)
    then have [simp]: "t = ttl" "j = i" using at(1) by simp_all
    show ?thesis
    proof (cases "ttl \<le> fj_end J")
      case False
      with S_at inv at show ?thesis
        by (intro fast_invI [where ttl = ttl and i = i]) (auto simp: fast_inv_def sender_step_def)
    next
      case True
      show ?thesis
      proof (cases "i < fj_retries J")
        case False
        with S_at inv at True next_ttl_position [OF bound True at(2)] show ?thesis
          by (auto simp: fast_inv_def sender_step_def)
      next
        case sends: True
        obtain r w where one: "send_one (fj_tracer J) ttl (fs_world s) = (r, w)" by fastforce
        note sent = tracer_ports.send_one_result [OF ports]
        show ?thesis
          using S_at inv at True sends one
          by (cases r) (auto simp: fast_inv_def sender_step_def dest: sent)
      qed
    qed
  next
    case (S_sent p t j)
    then have here: "t = ttl" "j = i" "ttl \<le> fj_end J" "i < fj_retries J"
      "probe_ok target p"
      using at(1) by auto
    have "fj_begin J \<le> ttl" using at(2) by (simp add: position_ok_def)
    with here books have "books_ok J target old
        (fs_pending s @ [\<lparr>pv_packet = p, pv_sentAt = n, pv_ttl = ttl, pv_retry = i\<rparr>], fs_results s)"
      for n by (auto simp: books_ok_def pending_ok_def)
    moreover have "accounted
        (fs_pending s @ [\<lparr>pv_packet = p, pv_sentAt = n, pv_ttl = ttl, pv_retry = i\<rparr>], fs_results s) u
        = quota J ttl (i + 1) u + leftover old u" for n u
      using at(3) [of u] next_probe_position [OF here(3) at(2) here(4), of u]
      by (auto simp: accounted_def)
    ultimately show ?thesis
      using S_sent inv here next_probe_position [OF here(3) at(2) here(4)]
      by (auto simp: fast_inv_def sender_step_def split: prod.splits)
  qed (use inv in \<open>simp_all add: sender_step_def\<close>)
qed

lemma receiver_step_inv:
  assumes ports: "tracer_ports (fj_tracer J) target" and inv: "fast_inv J target old s"
  shows "fast_inv J target old (receiver_step J s)"
proof (cases "fs_receiver s")
  case (R_lock b respInfo)
  obtain r w where locked: "validate_locked (fj_tracer J) (fj_timeout J) respInfo (fs_buffer s)
      (fs_pending s) (fs_results s) (fs_world s) = (r, w)"
    by fastforce
  show ?thesis
  proof (cases r)
    case (Inl e)
    with R_lock locked inv show ?thesis by (simp add: fast_inv_def receiver_step_def)
  next
    case (Inr pm)
    then obtain pending results where pm: "r = Inr (pending, results)" by (cases pm) auto
    note settled = validate_locked_settles [OF locked [unfolded pm]]
    have "books_ok J target old (pending, results)
        \<and> accounted (pending, results) t = accounted (fs_pending s, fs_results s) t" for t
      using settles_many [OF settled] inv by (auto simp: fast_inv_def)
    with R_lock locked pm inv show ?thesis by (auto simp: fast_inv_def receiver_step_def)
  qed
next
  case R_collect
  with inv tracer_ports.axioms(1) [OF ports] show ?thesis
    by (auto simp: fast_inv_def receiver_step_def dest: packet_source.create_target
        split: prod.splits sum.splits)
qed (use inv in \<open>auto simp: fast_inv_def receiver_step_def Let_def split: prod.splits sum.splits\<close>)

text \<open>Every reachable state of a run meets the invariant.\<close>

lemma reach_inv:
  assumes "fast_reach J (Fast_start J old buf w) s"
    and "tracer_ports (fj_tracer J) target" "fj_end J \<noteq> - 1" "probes_ok target old"
  shows "fast_inv J target old s"
  using assms
proof (induction rule: fast_reach.induct)
  case start
  then show ?case by (blast intro: fast_inv_start)
next
  case (step t u)
  then have "fast_inv J target old t" by simp
  with step show ?case
    by (auto elim!: fast_stepE intro: sender_step_inv receiver_step_inv)
qed

section \<open>What the invariant says of the results\<close>

lemma ascending_key: "ascending m \<Longrightarrow> (k, rs) \<in> set m \<Longrightarrow> results_of m k = rs"
proof -
  assume "ascending m" "(k, rs) \<in> set m"
  moreover from this have "distinct (map fst m)"
    by (auto simp: ascending_def strict_sorted_iff)
  ultimately show ?thesis by (simp add: results_of_def)
qed

lemma collect_ttls:
  "map tr_ttl (map (\<lambda>(k, rs). \<lparr>tr_ttl = k, tr_probeResults = rs\<rparr>) m) = map fst m"
  by (induction m) auto

lemma collect_results_sorted:
  assumes "ascending m"
  shows "collect_results m = map (\<lambda>(k, rs). \<lparr>tr_ttl = k, tr_probeResults = rs\<rparr>) m"
  unfolding collect_results_def
  using assms by (intro sort_key_id_if_sorted)
    (simp only: collect_ttls ascending_def strict_sorted_iff)

lemma quota_le: "position_ok J ttl i \<Longrightarrow> quota J ttl i t \<le> unat (fj_retries J)"
  by (auto simp: quota_def position_ok_def word_le_nat_alt)

lemma quota_range:
  "position_ok J ttl i \<Longrightarrow> 0 < quota J ttl i t \<Longrightarrow> fj_begin J \<le> t \<and> t \<le> fj_end J"
  by (auto simp: quota_def position_ok_def split: if_splits)

definition in_range :: "'w fast_job \<Rightarrow> u32 \<Rightarrow> bool" where
  "in_range J t \<longleftrightarrow> fj_begin J \<le> t \<and> t \<le> fj_end J"

lemma leftover_Nil [simp]: "leftover [] t = 0"
  by (simp add: leftover_def)

lemma probes_ok_Nil [simp]: "probes_ok target []"
  by (simp add: probes_ok_def)

lemma fast_inv_entry:
  assumes inv: "fast_inv J target old s" and entry: "(k, rs) \<in> set (fs_results s)"
  shows "(in_range J k \<or> 0 < leftover old k) \<and> rs \<noteq> []
     \<and> length rs \<le> (if in_range J k then unat (fj_retries J) else 0) + leftover old k
     \<and> (\<forall>r \<in> set rs. settled_ok target r)"
proof -
  from inv have asc: "ascending (fs_results s)" by (simp add: fast_inv_def books_ok_def)
  with entry have rs: "rs \<noteq> []" by (auto simp: ascending_def)
  from inv obtain ttl i where pos: "position_ok J ttl i"
    "accounted (fs_pending s, fs_results s) k = quota J ttl i k + leftover old k"
    by (auto simp: fast_inv_def)
  then have le: "length rs \<le> quota J ttl i k + leftover old k"
    using ascending_key [OF asc entry] by (simp add: accounted_def)
  have q: "quota J ttl i k \<le> (if in_range J k then unat (fj_retries J) else 0)"
    using quota_le [OF pos(1), of k] quota_range [OF pos(1), of k]
    by (cases "quota J ttl i k = 0") (auto simp: in_range_def)
  have "0 < length rs" using rs by simp
  have "in_range J k \<or> 0 < leftover old k"
  proof (cases "in_range J k")
    case False
    with q le have "length rs \<le> leftover old k" by simp
    with \<open>0 < length rs\<close> show ?thesis by linarith
  qed simp
  moreover have "length rs \<le> (if in_range J k then unat (fj_retries J) else 0) + leftover old k"
    using le q by linarith
  ultimately show ?thesis using rs inv entry by (auto simp: fast_inv_def books_ok_def)
qed

text \<open>Cutting the list off behind the first entry with a property.\<close>

lemma cut_at_target_prefix: "\<exists>rest. results = cut_at_target target results @ rest"
proof -
  have "results = cut_at_target target results
      @ drop 1 (dropWhile (\<lambda>r. \<not> target_seen target r) results)"
    by (simp only: cut_at_target_def append_assoc append_take_drop_id takeWhile_dropWhile_id)
  then show ?thesis ..
qed

lemma cut_at_target_butlast:
  assumes "r \<in> set (butlast (cut_at_target target results))"
  shows "\<not> target_seen target r"
proof -
  have "take 1 xs = [] \<or> (\<exists>x. take 1 xs = [x])" for xs :: "TracerouteResult list"
    by (cases xs) auto
  then have "set (butlast (cut_at_target target results))
      \<subseteq> set (takeWhile (\<lambda>r. \<not> target_seen target r) results)"
    by (metis append_Nil2 butlast_snoc cut_at_target_def in_set_butlastD subsetI)
  with assms show ?thesis by (auto dest: set_takeWhileD)
qed

lemma inv_result:
  assumes inv: "fast_inv J target old s" and out: "Fast_outcome s = Some (Inr res)"
  shows "sorted_wrt (<) (map tr_ttl res)"
    and "r \<in> set res \<Longrightarrow> (in_range J (tr_ttl r) \<or> 0 < leftover old (tr_ttl r))
      \<and> tr_probeResults r \<noteq> []
      \<and> length (tr_probeResults r)
          \<le> (if in_range J (tr_ttl r) then unat (fj_retries J) else 0) + leftover old (tr_ttl r)
      \<and> (\<forall>pr \<in> set (tr_probeResults r). settled_ok target pr)"
    and "r \<in> set (butlast res) \<Longrightarrow> \<not> target_seen target r"
proof -
  have asc: "ascending (fs_results s)" using inv by (simp add: fast_inv_def books_ok_def)
  from out have "fs_receiver s = R_done res"
    by (auto simp: Fast_outcome_def split: receiver_pc.splits if_splits)
  with inv have res: "res = cut_at_target target (collect_results (fs_results s))"
    by (simp add: fast_inv_def)
  then obtain rest where prefix: "collect_results (fs_results s) = res @ rest"
    using cut_at_target_prefix by metis
  have "map tr_ttl (collect_results (fs_results s)) = map fst (fs_results s)"
    by (simp only: collect_results_sorted [OF asc] collect_ttls)
  with asc prefix show "sorted_wrt (<) (map tr_ttl res)"
    by (metis ascending_def map_append sorted_wrt_append)
  show "(in_range J (tr_ttl r) \<or> 0 < leftover old (tr_ttl r))
      \<and> tr_probeResults r \<noteq> []
      \<and> length (tr_probeResults r)
          \<le> (if in_range J (tr_ttl r) then unat (fj_retries J) else 0) + leftover old (tr_ttl r)
      \<and> (\<forall>pr \<in> set (tr_probeResults r). settled_ok target pr)" if "r \<in> set res"
  proof -
    from that prefix have "r \<in> set (collect_results (fs_results s))" by simp
    then obtain k rs where "(k, rs) \<in> set (fs_results s)" "r = \<lparr>tr_ttl = k, tr_probeResults = rs\<rparr>"
      by (auto simp: collect_results_sorted [OF asc])
    with fast_inv_entry [OF inv] show ?thesis by fastforce
  qed
  show "\<not> target_seen target r" if "r \<in> set (butlast res)"
    using that cut_at_target_butlast res by blast
qed

text \<open>On a fresh tracer nothing is left over, and every TTL is of the range.\<close>

lemma inv_result_fresh:
  assumes "fast_inv J target [] s" "Fast_outcome s = Some (Inr res)" "r \<in> set res"
  shows "fj_begin J \<le> tr_ttl r \<and> tr_ttl r \<le> fj_end J
      \<and> tr_probeResults r \<noteq> [] \<and> length (tr_probeResults r) \<le> unat (fj_retries J)
      \<and> (\<forall>pr \<in> set (tr_probeResults r). settled_ok target pr)"
proof -
  note all = inv_result(2) [OF assms]
  then have "in_range J (tr_ttl r)" by simp
  with all show ?thesis by (simp only: if_True leftover_Nil add_0_right) (simp add: in_range_def)
qed

lemma inv_books:
  assumes "fast_inv J target old s"
  shows "\<exists>ttl i. (case fs_sender s of S_at ttl' i' \<Rightarrow> ttl' = ttl \<and> i' = i
        | S_sent p ttl' i' \<Rightarrow> ttl' = ttl \<and> i' = i | S_done \<Rightarrow> fj_end J < ttl | S_threw e \<Rightarrow> True)
      \<and> fj_begin J \<le> ttl \<and> i \<le> fj_retries J \<and> (ttl \<le> fj_end J \<or> i = 0)
      \<and> (\<forall>t. fj_begin J \<le> t \<and> t < ttl \<longrightarrow> t \<le> fj_end J)
      \<and> (\<forall>t. length (filter (\<lambda>p. pv_ttl p = t) (fs_pending s)) + length (results_of (fs_results s) t)
          = (if fj_begin J \<le> t \<and> t < ttl then unat (fj_retries J) else if t = ttl then unat i else 0)
            + length (filter (\<lambda>p. pv_ttl p = t) old))"
proof -
  from assms obtain ttl i where at: "sender_at J target (fs_sender s) ttl i" "position_ok J ttl i"
    "\<And>t. accounted (fs_pending s, fs_results s) t = quota J ttl i t + leftover old t"
    by (auto simp: fast_inv_def)
  show ?thesis
    using at by (intro exI [of _ ttl] exI [of _ i])
      (auto simp: position_ok_def accounted_def quota_def leftover_def split: sender_pc.splits)
qed

lemma inv_accounts_fresh:
  assumes "fast_inv J target [] s" "fs_sender s = S_at ttl i"
  shows "length (filter (\<lambda>p. pv_ttl p = t) (fs_pending s)) + length (results_of (fs_results s) t)
    = (if fj_begin J \<le> t \<and> t < ttl then unat (fj_retries J) else if t = ttl then unat i else 0)"
  using assms by (auto simp: fast_inv_def accounted_def quota_def)

end
