(* ===== verification/Wire.thy ===== *)
theory Wire
  imports Projection FastRuns
begin

text \<open>
  What leaves the machine. A system that keeps a record of the options set and the datagrams sent
  runs like any other; a datagram departs with the value the hop limit option of its socket has at
  that moment. The locale \<open>departures_of\<close> is the contract between the operations a tracer calls and
  an account \<open>E\<close> of the probes that depart from one world to another; its lemmas follow the
  account through both tracers, and the recording system interprets it.
\<close>

section \<open>A system that keeps a record\<close>

datatype wire_event =
    Option_set int int int "byte list" int
  | Datagram int "byte list" sockaddr_storage int

definition unrecorded :: "('w \<Rightarrow> 'a \<times> 'w) \<Rightarrow> 'w \<times> 'e list \<Rightarrow> 'a \<times> ('w \<times> 'e list)" where
  "unrecorded f = (\<lambda>(w, es). (fst (f w), (snd (f w), es)))"

definition recorded :: "('a \<Rightarrow> 'e) \<Rightarrow> ('w \<Rightarrow> 'a \<times> 'w) \<Rightarrow> 'w \<times> 'e list \<Rightarrow> 'a \<times> ('w \<times> 'e list)" where
  "recorded ev f = (\<lambda>(w, es). (fst (f w), (snd (f w), es @ [ev (fst (f w))])))"

definition recording :: "'w os \<Rightarrow> ('w \<times> wire_event list) os" where
  "recording os =
     \<lparr>sys_rand = unrecorded (sys_rand os), sys_uninit16 = unrecorded (sys_uninit16 os),
      sys_uninit32 = unrecorded (sys_uninit32 os), sys_now = unrecorded (sys_now os),
      sys_errno = (\<lambda>w. sys_errno os (fst w)), sys_strerror = sys_strerror os,
      sys_resolver = sys_resolver os,
      sys_socket = (\<lambda>d ty p. unrecorded (sys_socket os d ty p)),
      sys_setsockopt = (\<lambda>fd level opt v.
        recorded (Option_set fd level opt v) (sys_setsockopt os fd level opt v)),
      sys_bind = (\<lambda>fd a n. unrecorded (sys_bind os fd a n)),
      sys_connect = (\<lambda>fd a n. unrecorded (sys_connect os fd a n)),
      sys_getsockname = (\<lambda>fd n. unrecorded (sys_getsockname os fd n)),
      sys_close = (\<lambda>fd. unrecorded (sys_close os fd)),
      sys_poll = (\<lambda>fds t. unrecorded (sys_poll os fds t)),
      sys_sendto = (\<lambda>fd d a n. recorded (Datagram fd d a) (sys_sendto os fd d a n)),
      sys_recvfrom = (\<lambda>fd n. unrecorded (sys_recvfrom os fd n))\<rparr>"

text \<open>
  The datagrams that departed: the value the hop limit option of the sending socket had, the bytes
  and the destination. A call that failed sets or sends nothing.
\<close>

fun departures ::
    "DataSender \<Rightarrow> byte list option \<Rightarrow> wire_event list
       \<Rightarrow> (byte list option \<times> byte list \<times> sockaddr_storage) list" where
  "departures ds ttl [] = []"
| "departures ds ttl (Option_set fd level opt v r # es) =
     departures ds
       (if fd = mSendingSocket ds \<and> 0 \<le> r
           \<and> (level, opt) = (if mFamily ds = AF_INET then (0, 2) else (41, 16))
        then Some v else ttl) es"
| "departures ds ttl (Datagram fd d a r # es) =
     (if fd = mSendingSocket ds \<and> 0 < r then [(ttl, d, a)] else []) @ departures ds ttl es"

definition departs ::
    "DataSender \<Rightarrow> ('w \<times> wire_event list) \<Rightarrow> ('w \<times> wire_event list) \<Rightarrow> (u32 \<times> packet) list \<Rightarrow> bool"
  where
  "departs ds v w sent \<longleftrightarrow>
     (\<exists>es. snd w = snd v @ es \<and> (\<forall>ttl. departures ds ttl es
        = map (\<lambda>(t, p). (Some (le32 t), serialize p, getDestinationAddress p)) sent))"

section \<open>The account of a tracer's probes\<close>

text \<open>The TTLs behind a list of results, one for every probe.\<close>

definition result_ttls :: "u32 \<Rightarrow> TracerouteResult list \<Rightarrow> u32 list" where
  "result_ttls retries res = concat (map (\<lambda>r. replicate (unat retries) (tr_ttl r)) res)"

text \<open>The tracer with two threads: what the sending thread has sent when it is at its place.\<close>

definition rounds :: "'a fast_job \<Rightarrow> nat \<Rightarrow> u32 list" where
  "rounds J n = concat (map (\<lambda>t. replicate (unat (fj_retries J)) (of_nat t)) [unat (fj_begin J)..<n])"

fun sent_ttls :: "'a fast_job \<Rightarrow> sender_pc \<Rightarrow> u32 list" where
  "sent_ttls J (S_at ttl i) = rounds J (unat ttl) @ replicate (unat i) ttl"
| "sent_ttls J (S_sent p ttl i) = rounds J (unat ttl) @ replicate (unat i) ttl @ [ttl]"
| "sent_ttls J S_done = rounds J (Suc (unat (fj_end J)))"
| "sent_ttls J (S_threw e) = []"

lemma rounds_next: "unat (fj_begin J) \<le> unat ttl \<Longrightarrow>
    rounds J (Suc (unat ttl)) = rounds J (unat ttl) @ replicate (unat (fj_retries J)) ttl"
  by (simp add: rounds_def)

lemma rounds_end:
  assumes "position_ok J ttl i" "fj_end J < ttl" "fj_end J \<noteq> - 1"
  shows "rounds J (unat ttl) = rounds J (Suc (unat (fj_end J)))"
proof (cases "fj_begin J \<le> fj_end J")
  case True
  have "fj_end J < fj_end J + 1" using less_succ_iff [OF assms(3)] by simp
  moreover have "unat (fj_end J + 1) = Suc (unat (fj_end J))"
    using unat_next [OF assms(3)] by simp
  moreover have "\<not> fj_end J + 1 < ttl"
    using assms(1) True calculation(1) by (auto simp: position_ok_def dest: spec [of _ "fj_end J + 1"])
  ultimately have "unat ttl = Suc (unat (fj_end J))"
    using assms(2) by (simp add: word_less_nat_alt)
  then show ?thesis by simp
next
  case False
  with assms(1) have "ttl = fj_begin J"
    by (auto simp: position_ok_def not_le dest: spec [of _ "fj_begin J"])
  with False show ?thesis by (simp add: rounds_def word_le_nat_alt)
qed

text \<open>A step that puts no packet on the wire leaves the account as it is.\<close>

lemma sent_ttls_step:
  assumes inv: "fast_inv J target old s" and bound: "fj_end J \<noteq> - 1"
    and going: "\<not> sender_finished (fs_sender s)"
  shows "(\<exists>e. fs_sender (sender_step J s) = S_threw e)
    \<or> (\<exists>p t j. fs_sender s = S_at t j \<and> fs_sender (sender_step J s) = S_sent p t j)
    \<or> sent_ttls J (fs_sender (sender_step J s)) = sent_ttls J (fs_sender s)"
proof -
  from inv obtain ttl i where at: "sender_at J target (fs_sender s) ttl i" "position_ok J ttl i"
    by (auto simp: fast_inv_def)
  have begin_le: "unat (fj_begin J) \<le> unat ttl"
    using at(2) by (simp add: position_ok_def word_le_nat_alt)
  show ?thesis
  proof (cases "fs_sender s")
    case (S_at t j)
    then have [simp]: "t = ttl" "j = i" using at(1) by simp_all
    consider (beyond) "\<not> ttl \<le> fj_end J" | (next_ttl) "ttl \<le> fj_end J" "\<not> i < fj_retries J"
      | (send) "ttl \<le> fj_end J" "i < fj_retries J"
      by blast
    then show ?thesis
    proof cases
      case beyond
      then have "i = 0" "rounds J (unat ttl) = rounds J (Suc (unat (fj_end J)))"
        using at(2) rounds_end [OF at(2) _ bound] by (auto simp: position_ok_def)
      with beyond S_at show ?thesis by (simp add: sender_step_def)
    next
      case next_ttl
      with at(2) have "i = fj_retries J" by (auto simp: position_ok_def)
      with next_ttl S_at begin_le unat_next [OF bound next_ttl(1)] show ?thesis
        by (simp add: sender_step_def rounds_next)
    next
      case send
      with S_at show ?thesis by (auto simp: sender_step_def split: prod.splits sum.splits)
    qed
  next
    case (S_sent p t j)
    then have "j < fj_retries J" using at(1) by auto
    then have "unat (j + 1) = Suc (unat j)" by (rule unat_succ_less)
    with S_sent show ?thesis
      by (auto simp: sender_step_def replicate_append_same split: prod.splits)
  qed (use going in simp_all)
qed

locale departures_of = tracer_ports +
  fixes E :: "'a \<Rightarrow> 'a \<Rightarrow> (u32 \<times> packet) list \<Rightarrow> bool"
  assumes idle: "E w w []"
    and joined: "E w v a \<Longrightarrow> E v u b \<Longrightarrow> E w u (a @ b)"
    and create_silent: "E w (snd (t_createPacket T w)) []"
    and now_silent: "E w (snd (t_now T w)) []"
    and recv_silent: "E w (snd (t_tryReceiving T buf n t w)) []"
    and send_departs: "t_trySending T p (sint ttl) t w = (Inr True, w') \<Longrightarrow> E w w' [(ttl, p)]"
    and send_fails: "t_trySending T p (sint ttl) t w = (r, w') \<Longrightarrow> r \<noteq> Inr True \<Longrightarrow> E w w' []"
begin

lemma silent_trans: "E w v a \<Longrightarrow> E v u [] \<Longrightarrow> E w u a"
  using joined [of w v a u "[]"] by simp

lemma timers_silent:
  "E w (snd (getTimePassedTillNow T start w)) []" "E w (snd (getTimeLeft T start timeout w)) []"
  using now_silent [of w]
  by (simp_all add: getTimePassedTillNow_def getTimeLeft_def split_beta)

lemma timer_step: "getTimeLeft T start timeout w = (left, w') \<Longrightarrow> E w w' []"
  using timers_silent(2) [of w start timeout] by simp

lemma await_silent:
  assumes "await_response T packet sentAt timeout v ri buf w = Some (out, w')"
  shows "E w w' []"
proof -
  have turn: "E w u []"
    if "getTimeLeft T sentAt timeout w = (left, v)" "t_tryReceiving T buf n t v = (r, u)"
    for w v u left buf n t r
  proof (rule silent_trans)
    show "E w v []" using that(1) by (rule timer_step)
    show "E v u []" using recv_silent [of v buf n t] that(2) by simp
  qed
  have "E w (snd res) []"
    if "await_response T packet sentAt timeout v ri buf w = Some res" for res
    using that
  proof (induction rule: await_induct)
    case (stop v ri buf w left w1)
    then show ?case using timer_step by simp
  next
    case (throw ri buf w left w1 e w2)
    then show ?case using turn by simp
  next
    case (bad ri buf w left w1 info buf' e w2)
    then show ?case using turn by simp
  next
    case (silent ri buf w left w1 buf' w2 out)
    from turn [OF silent(1,3)] silent(4) show ?case by (rule silent_trans)
  next
    case (heard ri buf w left w1 info buf' w2 v out)
    from turn [OF heard(1,3)] heard(5) show ?case by (rule silent_trans)
  qed
  from this [OF assms] show ?thesis by simp
qed

text \<open>The account of a list of probes, by their TTLs.\<close>

definition sends :: "'a \<Rightarrow> 'a \<Rightarrow> u32 list \<Rightarrow> bool" where
  "sends w w' ttls \<longleftrightarrow> (\<exists>sent. E w w' sent \<and> map fst sent = ttls
     \<and> (\<forall>p \<in> set (map snd sent). probe_ok target p))"

lemma sendsI: "E w w' sent \<Longrightarrow> map fst sent = ttls \<Longrightarrow>
    (\<And>p. p \<in> set (map snd sent) \<Longrightarrow> probe_ok target p) \<Longrightarrow> sends w w' ttls"
  unfolding sends_def by blast

lemma sends_Nil: "E w w' [] \<Longrightarrow> sends w w' []"
  by (rule sendsI [where sent = "[]"]) simp_all

lemma sends_join:
  assumes "sends w v a" "sends v u b"
  shows "sends w u (a @ b)"
proof -
  from assms obtain sa sb where "E w v sa" "map fst sa = a" "E v u sb" "map fst sb = b"
    "\<forall>p \<in> set (map snd sa). probe_ok target p" "\<forall>p \<in> set (map snd sb). probe_ok target p"
    unfolding sends_def by blast
  then show ?thesis by (intro sendsI [of w u "sa @ sb"] joined) auto
qed

lemma sends_later: "sends w v [] \<Longrightarrow> sends v u a \<Longrightarrow> sends w u a"
  using sends_join [of w v "[]" u a] by simp

lemma sends_before: "sends w v a \<Longrightarrow> sends v u [] \<Longrightarrow> sends w u a"
  using sends_join [of w v a u "[]"] by simp

lemma sends_created: "t_createPacket T w = (r, w') \<Longrightarrow> sends w w' []"
  using create_silent [of w] by (simp add: sends_Nil)

lemma sends_probe:
  assumes "t_createPacket T w = (Inr packet, w1)"
    and "t_trySending T packet (sint ttl) t w1 = (Inr True, w2)"
  shows "sends w w2 [ttl]"
proof -
  have "probe_ok target packet"
    using assms(1) by (auto simp: probe_ok_def dest: packets.create_target packets.create_wf)
  then have "sends w1 w2 [ttl]" using send_departs [OF assms(2)] by (intro sendsI) auto
  with sends_created [OF assms(1)] show ?thesis by (rule sends_later)
qed

lemma probe_once_sends:
  assumes "probe_once T ttl timeout buf w = Some (Inr res, w')"
  shows "sends w w' [ttl]"
proof -
  obtain r hit buf' where "res = (r, hit, buf')" by (cases res) auto
  with assms have run: "probe_once T ttl timeout buf w = Some (Inr (r, hit, buf'), w')" by simp
  then show ?thesis
  proof (rule probe_once_parts)
    fix packet w1 w2 v ri w3
    assume sent: "t_createPacket T w = (Inr packet, w1)"
        "t_trySending T packet (sint ttl) 5000 w1 = (Inr True, w2)"
      and waited: "await_response T packet (fst (t_now T w2)) timeout False None buf
        (snd (t_now T w2)) = Some (Inr (v, ri, buf'), w3)"
      and result: "if v then (\<exists>info. ri = Some info \<and> hit = addr_eq (ri_client info) (getDestinationAddress packet)
        \<and> r = successProbe (fst (getTimePassedTillNow T (fst (t_now T w2)) w3)) (ri_client info)
        \<and> w' = snd (getTimePassedTillNow T (fst (t_now T w2)) w3))
      else r = failedProbe timeout \<and> \<not> hit \<and> w' = w3"
    have "sends w2 (snd (t_now T w2)) []" by (intro sends_Nil now_silent)
    moreover have "sends (snd (t_now T w2)) w3 []" using waited by (intro sends_Nil await_silent)
    moreover have "sends w3 w' []"
      using result idle timers_silent(1) by (auto intro: sends_Nil split: if_splits)
    ultimately have "sends w2 w' []" by (blast intro: sends_later)
    with sends_probe [OF sent] show ?thesis by (rule sends_before)
  qed
qed

lemma retry_loop_sends:
  "retry_loop T ttl timeout n rs hit buf w = Some (Inr (rs', hit', buf'), w') \<Longrightarrow>
     sends w w' (replicate n ttl)"
proof (induction n arbitrary: rs hit buf w)
  case 0
  then show ?case by (auto simp: io_simps intro: sends_Nil idle)
next
  case (Suc n)
  then obtain r h b w1 where once: "probe_once T ttl timeout buf w = Some (Inr (r, h, b), w1)"
    and rest: "retry_loop T ttl timeout n (rs @ [r]) (if h then True else hit) b w1
      = Some (Inr (rs', hit', buf'), w')"
    by (auto simp: bindL_Inr)
  from sends_join [OF probe_once_sends [OF once] Suc.IH [OF rest]] show ?case by simp
qed

lemma ttl_loop_sends:
  assumes "ttl_loop T ttl ttlEnd retries timeout probes hit buf w = Some (Inr (probes', buf'), w')"
  shows "\<exists>new. probes' = probes @ new \<and> sends w w' (result_ttls retries new)"
proof -
  have "\<exists>new. probes' = probes @ new \<and> sends w w' (result_ttls retries new)"
    if "ttl_loop T ttl ttlEnd retries timeout probes hit buf w = Some out"
      "out = (Inr (probes', buf'), w')" for out
    using that
  proof (induction rule: ttl_induct)
    case (past ttl probes hit buf w)
    then show ?case by (simp add: result_ttls_def sends_Nil idle)
  next
    case (reached ttl probes hit buf w rs b w1)
    with retry_loop_sends [OF reached(2)] show ?case
      by (intro exI [of _ "[\<lparr>tr_ttl = ttl, tr_probeResults = rs\<rparr>]"]) (simp add: result_ttls_def)
  next
    case (further ttl probes hit buf w rs b w1 out)
    then obtain new where
      "probes' = (probes @ [\<lparr>tr_ttl = ttl, tr_probeResults = rs\<rparr>]) @ new"
      "sends w1 w' (result_ttls retries new)"
      by blast
    with sends_join [OF retry_loop_sends [OF further(2)]] show ?case
      by (intro exI [of _ "\<lparr>tr_ttl = ttl, tr_probeResults = rs\<rparr> # new"]) (auto simp: result_ttls_def)
  qed simp
  with assms show ?thesis by blast
qed

definition wire_inv :: "'a fast_job \<Rightarrow> 'a \<Rightarrow> 'a fast_state \<Rightarrow> bool" where
  "wire_inv J w0 s \<longleftrightarrow> (\<exists>ttls. sends w0 (fs_world s) ttls
     \<and> ((\<forall>e. fs_sender s \<noteq> S_threw e) \<longrightarrow> ttls = sent_ttls J (fs_sender s)))"

lemma expire_silent: "sends w (snd (expire T timeout ps (m :: result_map) w)) []"
proof (induction ps arbitrary: m w)
  case Nil
  show ?case by (simp add: sends_Nil idle)
next
  case (Cons p ps)
  obtain left w1 where left: "getTimeLeft T (pv_sentAt p) timeout w = (left, w1)" by fastforce
  obtain waited w2 where waited: "getTimePassedTillNow T (pv_sentAt p) w1 = (waited, w2)"
    by fastforce
  have "sends w w1 []" using timer_step [OF left] by (rule sends_Nil)
  moreover have "sends w1 w2 []"
    using timers_silent(1) [of w1 "pv_sentAt p"] waited by (simp add: sends_Nil)
  ultimately show ?case
    using Cons [of w2 "push_result (pv_ttl p) (failedProbe waited) m"] Cons [of w1 m] left waited
    by (auto simp: Let_def split: prod.splits intro: sends_later)
qed

lemma validate_locked_silent: "sends w (snd (validate_locked T timeout ri buf ps m w)) []"
proof -
  have answer: "sends w (snd (record_answer T info buf ps m w)) []" for info
    using timers_silent(1) idle
    by (auto simp: record_answer_def io_simps intro: sends_Nil split: sum.splits option.splits)
  obtain r v where first: "(case ri of Some info \<Rightarrow> record_answer T info buf ps m
      | None \<Rightarrow> returnE (ps, m)) w = (r, v)"
    by fastforce
  then have before: "sends w v []"
    using answer idle by (auto simp: io_simps intro: sends_Nil split: option.splits) (metis snd_conv)
  then have "sends w (snd (expire T timeout ps' m' v)) []" for ps' and m' :: result_map
    using expire_silent by (rule sends_later)
  with first before show ?thesis
    unfolding validate_locked_def bindE_def by (cases r) (auto simp: io_simps)
qed

lemma receiver_step_silent:
  assumes "fj_tracer J = T"
  shows "sends (fs_world s) (fs_world (receiver_step J s)) []"
proof -
  have "sends w v []" if "t_now T w = (r, v)" for w v r
    using that now_silent [of w] by (simp add: sends_Nil)
  moreover have "sends w v []" if "getTimeLeft T b t w = (r, v)" for w v b t r
    using timer_step [OF that] by (rule sends_Nil)
  moreover have "sends w v []" if "t_tryReceiving T buf n t w = (r, v)" for w v buf n t r
    using that recv_silent [of w buf n t] by (simp add: sends_Nil)
  moreover have "sends w v []" if "validate_locked T timeout ri buf ps m w = (r, v)"
    for w v timeout ri buf ps m r
    using that validate_locked_silent [of w timeout ri buf ps m] by simp
  moreover have "sends w w []" for w by (intro sends_Nil idle)
  ultimately show ?thesis
    using sends_created assms
    by (auto simp: receiver_step_def Let_def split: receiver_pc.splits prod.splits sum.splits)
qed

lemma send_one_sends:
  assumes "send_one T ttl w = (r, w')"
  shows "case r of Inr p \<Rightarrow> sends w w' [ttl] | Inl e \<Rightarrow> sends w w' []"
proof (cases "t_createPacket T w")
  case (Pair c w1)
  show ?thesis
  proof (cases c)
    case (Inl e)
    with assms Pair sends_created [OF Pair] show ?thesis by (auto simp: send_one_def io_simps)
  next
    case (Inr p)
    obtain q w2 where q: "t_trySending T p (sint ttl) 5000 w1 = (q, w2)" by fastforce
    show ?thesis
    proof (cases "q = Inr True")
      case True
      with assms Pair Inr q sends_probe [of w p w1 ttl 5000 w2] show ?thesis
        by (auto simp: send_one_def io_simps)
    next
      case False
      have "sends w w2 []"
        using sends_created [OF Pair] sends_Nil [OF send_fails [OF q False]] by (rule sends_later)
      with assms Pair Inr q False show ?thesis
        by (auto simp: send_one_def io_simps split: sum.splits)
    qed
  qed
qed

lemma sender_step_wire:
  assumes T: "fj_tracer J = T" and bound: "fj_end J \<noteq> - 1" and inv: "fast_inv J target old s"
    and wire: "wire_inv J w0 s" and going: "\<not> sender_finished (fs_sender s)"
  shows "wire_inv J w0 (sender_step J s)"
proof -
  have sent: "sends w0 (fs_world s) (sent_ttls J (fs_sender s))"
    using wire going by (cases "fs_sender s") (auto simp: wire_inv_def)
  have same: "wire_inv J w0 (sender_step J s)"
    if "sends (fs_world s) (fs_world (sender_step J s)) []"
      "sent_ttls J (fs_sender (sender_step J s)) = sent_ttls J (fs_sender s)"
    using sends_before [OF sent that(1)] that(2) by (auto simp: wire_inv_def)
  note account = sent_ttls_step [OF inv bound going]
  show ?thesis
  proof (cases "fs_sender s")
    case (S_at t j)
    show ?thesis
    proof (cases "t \<le> fj_end J \<and> j < fj_retries J")
      case False
      then have "fs_world (sender_step J s) = fs_world s" "sender_finished (fs_sender (sender_step J s))
          \<longrightarrow> fs_sender (sender_step J s) = S_done"
        "\<nexists>p. fs_sender (sender_step J s) = S_sent p t j"
        using S_at by (auto simp: sender_step_def)
      with account S_at show ?thesis by (intro same) (auto simp: sends_Nil idle)
    next
      case True
      obtain r w where one: "send_one T t (fs_world s) = (r, w)" by fastforce
      from send_one_sends [OF one] sends_join [OF sent] T one S_at True show ?thesis
        by (cases r) (auto simp: wire_inv_def sender_step_def)
    qed
  next
    case (S_sent p t j)
    obtain n w where now: "t_now T (fs_world s) = (n, w)" by fastforce
    then have "sends (fs_world s) w []" using now_silent [of "fs_world s"] by (simp add: sends_Nil)
    with S_sent now T account show ?thesis by (intro same) (auto simp: sender_step_def)
  qed (use going in simp_all)
qed

lemma receiver_step_wire:
  assumes "fj_tracer J = T" "wire_inv J w0 s"
  shows "wire_inv J w0 (receiver_step J s)"
proof -
  have "fs_sender (receiver_step J s) = fs_sender s"
    by (auto simp: receiver_step_def Let_def split: receiver_pc.splits prod.splits sum.splits)
  moreover obtain ttls where "sends w0 (fs_world s) ttls"
    "(\<forall>e. fs_sender s \<noteq> S_threw e) \<longrightarrow> ttls = sent_ttls J (fs_sender s)"
    using assms(2) by (auto simp: wire_inv_def)
  moreover have "sends w0 (fs_world (receiver_step J s)) ttls"
    using calculation(2) receiver_step_silent [OF assms(1)] by (rule sends_before)
  ultimately show ?thesis unfolding wire_inv_def by (intro exI [of _ ttls]) simp
qed

lemma reach_wire:
  assumes "fast_reach J (Fast_start J old buf w) s"
    and "fj_tracer J = T" "fj_end J \<noteq> - 1" "probes_ok target old"
  shows "wire_inv J w s"
  using assms
proof (induction rule: fast_reach.induct)
  case start
  show ?case by (auto simp: wire_inv_def Fast_start_def rounds_def intro: sends_Nil idle)
next
  case (step t u)
  have "tracer_ports (fj_tracer J) target" using step.prems(1) tracer_ports_axioms by simp
  with step have "fast_inv J target old t" by (intro reach_inv) simp_all
  with step show ?case
    by (auto elim!: fast_stepE intro: sender_step_wire receiver_step_wire)
qed

end

section \<open>The recording system\<close>

lemma departures_append:
  "\<exists>ttl'. departures ds ttl (es @ es') = departures ds ttl es @ departures ds ttl' es'"
  by (induction ds ttl es rule: departures.induct) auto

lemma departs_join: "departs ds w v a \<Longrightarrow> departs ds v u b \<Longrightarrow> departs ds w u (a @ b)"
proof -
  assume "departs ds w v a" "departs ds v u b"
  then obtain ea eb where "snd v = snd w @ ea" "snd u = snd v @ eb"
    "\<forall>ttl. departures ds ttl ea
        = map (\<lambda>(t, p). (Some (le32 t), serialize p, getDestinationAddress p)) a"
    "\<forall>ttl. departures ds ttl eb
        = map (\<lambda>(t, p). (Some (le32 t), serialize p, getDestinationAddress p)) b"
    unfolding departs_def by blast
  moreover from this have "departures ds ttl (ea @ eb)
      = map (\<lambda>(t, p). (Some (le32 t), serialize p, getDestinationAddress p)) (a @ b)" for ttl
    using departures_append [of ds ttl ea eb] by auto
  ultimately show ?thesis
    unfolding departs_def by (intro exI [of _ "ea @ eb"]) (simp del: departures.simps)
qed

lemma departs_silent: "snd w = snd v \<Longrightarrow> departs ds v w []"
  by (simp add: departs_def)

lemma unrecorded_snd [simp]: "snd (snd (unrecorded f w)) = snd w"
  by (simp add: unrecorded_def split_beta)

lemma create_unrecorded: "snd (snd (createPacket (recording os) f w)) = snd w"
  by (cases f) (simp_all add: ctor_defs io_simps Let_def recording_def split: sum.splits prod.splits)

lemma recv_unrecorded: "snd (snd (tryReceiving (recording os) ds buf n t w)) = snd w"
  by (auto simp: tryReceiving_def getAnySocketReadyToReceive_def Poll_any_def io_simps Let_def
      recording_def split_beta split: sum.splits option.splits prod.splits)

lemma now_unrecorded: "snd (snd (sys_now (recording os) w)) = snd w"
  by (simp add: recording_def)

lemma poll_unrecorded: "snd (snd (Poll_one (recording os) fd ev t w)) = snd w"
  by (auto simp: Poll_one_def io_simps recording_def split_beta split: prod.splits)

text \<open>What one call of \<open>trySending\<close> appends to the record.\<close>

lemma send_record:
  assumes "trySending (recording os) ds p ttl t w = (r, w')"
  shows "\<exists>n es. snd w' = snd w @ Option_set (mSendingSocket ds) (if mFamily ds = AF_INET then 0 else 41)
        (if mFamily ds = AF_INET then 2 else 16) (le32 (word_of_int ttl)) n # es
    \<and> (if r = Inr True
        then 0 \<le> n \<and> (\<exists>m > 0. es
          = [Datagram (mSendingSocket ds) (serialize p) (getDestinationAddress p) m])
        else es = [] \<or> (\<exists>m \<le> 0. es
          = [Datagram (mSendingSocket ds) (serialize p) (getDestinationAddress p) m]))"
proof -
  let ?level = "if mFamily ds = AF_INET then 0 else 41 :: int"
  let ?opt = "if mFamily ds = AF_INET then 2 else 16 :: int"
  let ?fd = "mSendingSocket ds"
  obtain n v where set: "sys_setsockopt os ?fd ?level ?opt (le32 (word_of_int ttl)) (fst w) = (n, v)"
    by fastforce
  let ?w1 = "(v, snd w @ [Option_set ?fd ?level ?opt (le32 (word_of_int ttl)) n])"
  have option: "sys_setsockopt (recording os) ?fd ?level ?opt (le32 (word_of_int ttl)) w = (n, ?w1)"
    using set by (simp add: recording_def recorded_def split_beta)
  obtain q w2 where poll: "Poll_one (recording os) ?fd POLLOUT t ?w1 = (q, w2)" by (metis surj_pair)
  with poll_unrecorded [of os ?fd POLLOUT t ?w1] have same: "snd w2 = snd ?w1" by simp
  obtain m u where out: "sys_sendto os ?fd (serialize p) (sockaddrP (getDestinationAddress p))
      (addr_size (getDestinationAddress p)) (fst w2) = (m, u)"
    by fastforce
  then have sendto: "sys_sendto (recording os) ?fd (serialize p) (sockaddrP (getDestinationAddress p))
      (addr_size (getDestinationAddress p)) w2
      = (m, (u, snd w2 @ [Datagram ?fd (serialize p) (sockaddrP (getDestinationAddress p)) m]))"
    by (simp add: recording_def recorded_def split_beta)
  show ?thesis
  proof (cases "0 \<le> n \<and> mFamily ds = family (getDestinationAddress p)")
    case False
    with assms option show ?thesis
      by (intro exI [of _ n] exI [of _ "[]"])
        (auto simp: trySending_def setTtl_def io_simps Let_def split: if_splits)
  next
    case True
    with assms option poll sendto same show ?thesis
      by (intro exI [of _ n])
        (auto simp: trySending_def setTtl_def io_simps Let_def split: if_splits sum.splits)
  qed
qed

lemma send_departs:
  assumes "trySending (recording os) ds p (sint (ttl :: u32)) t w = (r, w')"
  shows "departs ds w w' (if r = Inr True then [(ttl, p)] else [])"
  using send_record [OF assms] by (auto simp: departs_def split: if_splits)

text \<open>The probes a tracer on the recording system sends depart as its account says.\<close>

interpretation wire: departures_of "tracer_of (recording os) ds f" "factory_destination f" "departs ds"
  for os ds f
proof (intro departures_of.intro real.tracer_ports_axioms departures_of_axioms.intro)
  show "departs ds w w []" for w :: "'c \<times> wire_event list" by (rule departs_silent) simp
qed (auto simp: tracer_of_def intro: departs_join departs_silent now_unrecorded create_unrecorded
    recv_unrecorded dest: send_departs)

text \<open>What the record of an account that starts empty looks like.\<close>

lemma sent_listing:
  assumes "wire.sends f ds (w, []) (w', es) ttls"
  shows "map (\<lambda>(ttl, d, a). (ttl, a)) (departures ds None es)
      = map (\<lambda>ttl. (Some (le32 ttl), factory_destination f)) ttls
    \<and> (\<forall>(ttl, d, a) \<in> set (departures ds None es). \<exists>p. wf_packet p \<and> d = serialize p)"
proof -
  from assms obtain sent where
    "departures ds None es = map (\<lambda>(t, p). (Some (le32 t), serialize p, getDestinationAddress p)) sent"
    "map fst sent = ttls" "\<forall>p \<in> set (map snd sent). probe_ok (factory_destination f) p"
    by (auto simp: wire.sends_def departs_def)
  then show ?thesis by (fastforce simp: probe_ok_def)
qed

section \<open>Recording changes nothing\<close>

lemma recorded_agrees [agree_intros]:
  "agrees fst (recorded ev f) f" "agrees fst (unrecorded f) f"
  by (auto simp: agrees_def recorded_def unrecorded_def apsnd_def map_prod_def)

lemma recording_agrees [agree_intros]:
  "agrees fst (sys_rand (recording os)) (sys_rand os)"
  "agrees fst (sys_uninit16 (recording os)) (sys_uninit16 os)"
  "agrees fst (sys_now (recording os)) (sys_now os)"
  "agrees fst (sys_poll (recording os) fds t) (sys_poll os fds t)"
  "agrees fst (sys_setsockopt (recording os) fd level opt val) (sys_setsockopt os fd level opt val)"
  "agrees fst (sys_sendto (recording os) fd d a n) (sys_sendto os fd d a n)"
  "agrees fst (sys_recvfrom (recording os) fd n) (sys_recvfrom os fd n)"
  by (simp_all add: recording_def agree_intros)

lemma failE_agrees [agree_intros]:
  "(\<And>v. msg' v = msg (h v)) \<Longrightarrow> agrees h (failE msg') (failE msg)"
  by (simp add: agrees_def io_simps)

lemma recording_errno [simp]: "errno_string (recording os) v = errno_string os (fst v)"
  by (simp add: errno_string_def recording_def)

lemma send_agrees: "agrees fst (trySending (recording os) ds p ttl t) (trySending os ds p ttl t)"
  unfolding trySending_def setTtl_def Poll_one_def Let_def
  by (intro agree_intros) simp_all

lemma recv_agrees: "agrees fst (tryReceiving (recording os) ds buf n t) (tryReceiving os ds buf n t)"
  unfolding tryReceiving_def getAnySocketReadyToReceive_def Poll_any_def Let_def
  by (intro agree_intros) simp_all

lemma create_agrees: "agrees fst (createPacket (recording os) f) (createPacket os f)"
  by (cases f) (simp_all add: ctor_defs Let_def agree_intros split: sum.splits)

lemma recording_projects: "projects fst (tracer_of (recording os) ds f) (tracer_of os ds f)"
  by (simp add: projects_def tracer_of_def send_agrees recv_agrees create_agrees recording_agrees)

end
