(* ===== verification/WireClaims.thy ===== *)
theory WireClaims
  imports Scenario Wire
begin

text \<open>
  What both tracers put on the wire, read off the record of a system that is observed while the
  tracer runs on it.
\<close>

section \<open>The sequential tracer\<close>

text \<open>
  C3. What the sequential tracer sends. Observing its system does not change a run, and when the
  run has returned, the datagrams that have left the machine are one for every probe result it
  returned, in the same order: each left while the hop limit option of its socket had the TTL of its
  result, each is a well-formed probe with valid checksums, each went to the destination.
\<close>

theorem sequential_wire:
  assumes "Sequential_beginProbing (tracer_of os ds f) ttlBegin ttlEnd retries timeout buf w
      = Some (Inr (res, buf'), w')"
  shows "\<exists>es. Sequential_beginProbing (tracer_of (recording os) ds f) ttlBegin ttlEnd retries timeout
        buf (w, []) = Some (Inr (res, buf'), (w', es))
    \<and> map (\<lambda>(ttl, d, a). (ttl, a)) (departures ds None es)
        = map (\<lambda>ttl. (Some (le32 ttl), factory_destination f)) (result_ttls retries res)
    \<and> (\<forall>(ttl, d, a) \<in> set (departures ds None es). \<exists>p. wf_packet p \<and> d = serialize p)"
proof -
  let ?U = "tracer_of (recording os) ds f"
  obtain es where run: "Sequential_beginProbing ?U ttlBegin ttlEnd retries timeout buf (w, [])
      = Some (Inr (res, buf'), (w', es))"
    using assms sequential_projects [OF recording_projects, of os ds f ttlBegin ttlEnd retries
      timeout buf "(w, [])"] by (auto dest: sym)
  then have "wire.sends f ds (w, []) (w', es) (result_ttls retries res)"
    using wire.ttl_loop_sends by (fastforce simp: Sequential_beginProbing_def)
  from sent_listing [OF this] run show ?thesis by blast
qed

definition recorded_trace where
  "recorded_trace = the (Sequential_beginProbing (tracer_of (recording scripted) udp_sender udp_factory)
     1 5 1 20000 sample_buffer (two_hops, []))"

theorem sequential_wire_witness:
  "map (\<lambda>(ttl, d, a). (ttl, a)) (departures udp_sender None (snd (snd recorded_trace)))
    = [(Some [1, 0, 0, 0], server6), (Some [2, 0, 0, 0], server6)]"
proof -
  let ?run = "Sequential_beginProbing (tracer_of scripted udp_sender udp_factory)
     1 5 1 20000 sample_buffer two_hops"
  have "(case ?run of Some (Inr (res, b), v) \<Rightarrow> result_ttls 1 res = [1, 2] | _ \<Rightarrow> False)"
    by code_simp
  then obtain res b v where run: "?run = Some (Inr (res, b), v)" "result_ttls 1 res = [1, 2]"
    by (auto split: option.splits sum.splits)
  from sequential_wire [OF run(1)] run(2) show ?thesis
    by (auto simp: recorded_trace_def le32_def)
qed

section \<open>The tracer with two threads\<close>

text \<open>
  What the fast tracer sends, in every interleaving. Every run is the sight of a run on the
  observed system, and when its sending thread has ended without an exception, the datagrams that
  have left the machine are the TTLs of the range in ascending order, each as often as there were to
  be retries and with its own hop limit, all of them well-formed probes to the destination.
\<close>

lemma fast_wire:
  assumes "fast_reach (fast_job_of os ds f ttlBegin ttlEnd retries timeout)
      (Fast_start (fast_job_of os ds f ttlBegin ttlEnd retries timeout) [] buf w) s"
    and "fs_sender s = S_done" "ttlEnd \<noteq> - 1"
  shows "\<exists>u. fast_reach (fast_job_of (recording os) ds f ttlBegin ttlEnd retries timeout)
        (Fast_start (fast_job_of (recording os) ds f ttlBegin ttlEnd retries timeout) [] buf (w, [])) u
    \<and> s = seen fst u
    \<and> map (\<lambda>(ttl, d, a). (ttl, a)) (departures ds None (snd (fs_world u)))
        = concat (map (\<lambda>ttl. replicate (unat retries) (Some (le32 (of_nat ttl)), factory_destination f))
            [unat ttlBegin..<Suc (unat ttlEnd)])
    \<and> (\<forall>(ttl, d, a) \<in> set (departures ds None (snd (fs_world u))). \<exists>p. wf_packet p \<and> d = serialize p)"
proof -
  let ?R = "fast_job_of (recording os) ds f ttlBegin ttlEnd retries timeout"
  have "fast_job_of os ds f ttlBegin ttlEnd retries timeout = job_seen (tracer_of os ds f) ?R"
    "Fast_start (job_seen (tracer_of os ds f) ?R) [] buf w = seen fst (Fast_start ?R [] buf (w, []))"
    by (simp_all add: fast_job_of_def job_seen_def Fast_start_def seen_def)
  with assms(1) obtain u where u: "fast_reach ?R (Fast_start ?R [] buf (w, [])) u" "s = seen fst u"
    using reach_seen [of "tracer_of os ds f" ?R fst] recording_projects [of os ds f] by fastforce
  then have "wire.wire_inv f ds ?R (w, []) u"
    using assms(3) by (intro wire.reach_wire [OF u(1)]) simp_all
  moreover have "fs_sender u = S_done" using u(2) assms(2) by simp
  ultimately have "wire.sends f ds (w, []) (fst (fs_world u), snd (fs_world u))
      (rounds ?R (Suc (unat ttlEnd)))"
    by (auto simp: wire.wire_inv_def)
  from sent_listing [OF this] u show ?thesis
    by (intro exI [of _ u]) (simp add: rounds_def map_concat map_replicate comp_def)
qed

lemma fast_wire_example:
  "\<exists>u. fast_reach (fast_job_of (recording scripted) udp_sender udp_factory 1 2 1 20000)
      (Fast_start (fast_job_of (recording scripted) udp_sender udp_factory 1 2 1 20000) []
        sample_buffer (two_hops, [])) u
    \<and> map (\<lambda>(ttl, d, a). (ttl, a)) (departures udp_sender None (snd (fs_world u)))
      = [(Some [1, 0, 0, 0], server6), (Some [2, 0, 0, 0], server6)]"
proof -
  let ?J = "fast_job_of scripted udp_sender udp_factory 1 2 1 20000"
  let ?s = "fast_run ?J (replicate 7 True) (Fast_start ?J [] sample_buffer two_hops)"
  have "fs_sender ?s = S_done" by code_simp
  moreover have "fast_reach ?J (Fast_start ?J [] sample_buffer two_hops) ?s"
    by (rule fast_run_reach) (rule fast_reach.start)
  ultimately obtain u where
    "fast_reach (fast_job_of (recording scripted) udp_sender udp_factory 1 2 1 20000)
      (Fast_start (fast_job_of (recording scripted) udp_sender udp_factory 1 2 1 20000) []
        sample_buffer (two_hops, [])) u"
    "map (\<lambda>(ttl, d, a). (ttl, a)) (departures udp_sender None (snd (fs_world u)))
      = concat (map (\<lambda>ttl. replicate 1 (Some (le32 (of_nat ttl)), server6)) [1..<3])"
    using fast_wire [of scripted udp_sender udp_factory 1 2 1 20000 sample_buffer two_hops ?s]
    by (auto simp: numeral_3_eq_3 [symmetric])
  then show ?thesis by (auto simp: le32_def upt_conv_Cons)
qed

end
