(* ===== verification/FastEnds.thy ===== *)
theory FastEnds
  imports FastRuns
begin

text \<open>
  How a run of \<open>Fast\<close> ends: every interleaving has a bounded number of steps when the clock advances,
  a run that has collected the expected number of results has one for every probe, and no thread
  reads outside the receive buffer.
\<close>

section \<open>Completeness\<close>

lemma total_results:
  assumes "ascending m" "\<And>k rs. (k, rs) \<in> set m \<Longrightarrow> k \<in> A" "finite A"
  shows "total m = (\<Sum>t \<in> A. length (results_of m t))"
proof -
  have dist: "distinct (map fst m)" using assms(1) by (simp add: ascending_def strict_sorted_iff)
  then have inj: "inj_on fst (set m)" and "distinct m" by (simp_all add: distinct_map)
  then have "total m = (\<Sum>kv \<in> set m. length (snd kv))"
    by (simp add: total_def sum_list_distinct_conv_sum_set)
  also have "\<dots> = (\<Sum>kv \<in> set m. length (results_of m (fst kv)))"
    by (intro sum.cong) (auto simp: ascending_key [OF assms(1)])
  also have "\<dots> = (\<Sum>t \<in> fst ` set m. length (results_of m t))"
    using inj by (simp add: sum.reindex)
  also have "\<dots> = (\<Sum>t \<in> A. length (results_of m t))"
    using assms(2,3)
    by (intro sum.mono_neutral_left) (auto intro: results_of_missing)
  finally show ?thesis .
qed

lemma card_words: "card {lo..hi :: u32} = unat hi + 1 - unat lo"
proof -
  have "unat ` {lo..hi} = {unat lo..unat hi}"
  proof (rule set_eqI, rule iffI)
    fix n
    assume n: "n \<in> {unat lo..unat hi}"
    moreover have "unat hi < 2 ^ LENGTH(32)" by (rule unsigned_less)
    ultimately have "unat (of_nat n :: u32) = n"
      by (subst unat_of_nat) simp
    with n have "of_nat n \<in> {lo..hi}" by (simp add: word_le_nat_alt)
    with \<open>unat (of_nat n :: u32) = n\<close> show "n \<in> unat ` {lo..hi}" by (metis imageI)
  qed (auto simp: word_le_nat_alt)
  moreover have "inj_on unat {lo..hi}" by (auto simp: inj_on_def word_unat_eq_iff)
  ultimately show ?thesis using card_image [of unat "{lo..hi}"] by simp
qed

definition no_overflow :: "'w fast_job \<Rightarrow> bool" where
  "no_overflow J \<longleftrightarrow> fj_begin J \<le> fj_end J
     \<and> (unat (fj_end J) - unat (fj_begin J) + 1) * unat (fj_retries J) < 2 ^ 32"

lemma expectedSize_value:
  assumes "no_overflow J"
  shows "unat (expectedSize (fj_begin J) (fj_end J) (fj_retries J))
    = (unat (fj_end J) - unat (fj_begin J) + 1) * unat (fj_retries J)"
proof -
  have "unat ((fj_end J - fj_begin J + 1) * fj_retries J)
      = ((unat (fj_end J) - unat (fj_begin J) + 1) * unat (fj_retries J)) mod 2 ^ 32"
    using assms by (simp add: unat_word_ariths unat_sub no_overflow_def mod_mult_left_eq)
  with assms show ?thesis
    by (simp add: expectedSize_def unat_ucast_up no_overflow_def)
qed

lemma total_bound:
  assumes "fast_inv J target [] s" "fj_begin J \<le> fj_end J"
  shows "total (fs_results s) = (\<Sum>t \<in> {fj_begin J..fj_end J}. length (results_of (fs_results s) t))"
    and "total (fs_results s)
      \<le> (unat (fj_end J) - unat (fj_begin J) + 1) * unat (fj_retries J)"
    and "length (results_of (fs_results s) t) \<le> unat (fj_retries J)"
proof -
  have asc: "ascending (fs_results s)" using assms(1) by (simp add: fast_inv_def books_ok_def)
  show eq: "total (fs_results s)
      = (\<Sum>t \<in> {fj_begin J..fj_end J}. length (results_of (fs_results s) t))"
    using fast_inv_entry [OF assms(1)]
    by (intro total_results [OF asc]) (auto simp: in_range_def)
  obtain ttl i where "position_ok J ttl i"
    "\<forall>t. accounted (fs_pending s, fs_results s) t = quota J ttl i t"
    using assms(1) by (auto simp: fast_inv_def)
  then have le: "length (results_of (fs_results s) t) \<le> unat (fj_retries J)" for t
    using quota_le [of J ttl i t] by (auto simp: accounted_def dest!: spec [of _ t])
  then show "length (results_of (fs_results s) t) \<le> unat (fj_retries J)" .
  have "(\<Sum>t \<in> {fj_begin J..fj_end J}. length (results_of (fs_results s) t))
      \<le> card {fj_begin J..fj_end J} * unat (fj_retries J)"
    using sum_bounded_above [of "{fj_begin J..fj_end J}"
        "\<lambda>t. length (results_of (fs_results s) t)" "unat (fj_retries J)"] le by simp
  moreover have "unat (fj_end J) + 1 - unat (fj_begin J)
      = unat (fj_end J) - unat (fj_begin J) + 1"
    using assms(2) by (simp add: word_le_nat_alt)
  ultimately show "total (fs_results s)
      \<le> (unat (fj_end J) - unat (fj_begin J) + 1) * unat (fj_retries J)"
    by (simp only: eq card_words)
qed

text \<open>With the expected number of results there is one for every probe and none is waiting.\<close>

lemma complete_when_expected:
  assumes inv: "fast_inv J target [] s" and no: "no_overflow J"
    and size: "\<not> ucast (getCurrentSize (fs_results s))
      < expectedSize (fj_begin J) (fj_end J) (fj_retries J)"
  shows "fs_pending s = []
     \<and> (fj_begin J \<le> t \<and> t \<le> fj_end J
          \<longrightarrow> length (results_of (fs_results s) t) = unat (fj_retries J))"
proof -
  let ?A = "{fj_begin J..fj_end J}" and ?R = "unat (fj_retries J)"
    and ?N = "(unat (fj_end J) - unat (fj_begin J) + 1) * unat (fj_retries J)"
  have ordered: "fj_begin J \<le> fj_end J" and small: "?N < 2 ^ 32"
    using no by (simp_all add: no_overflow_def)
  note bound = total_bound [OF inv ordered]
  have "unat (getCurrentSize (fs_results s)) = total (fs_results s)"
    using bound(2) small by (simp add: getCurrentSize_total unat_of_nat)
  with size have "?N \<le> total (fs_results s)"
    by (simp add: word_less_nat_alt unat_ucast_up expectedSize_value [OF no])
  with bound(2) have "(\<Sum>t \<in> ?A. length (results_of (fs_results s) t)) = (\<Sum>t \<in> ?A. ?R)"
    using bound(1) ordered by (simp add: card_words word_le_nat_alt Suc_diff_le)
  note sums = this
  have full: "length (results_of (fs_results s) t) = ?R" if "t \<in> ?A" for t
    by (rule sum_mono_inv [OF sums bound(3) that]) simp
  obtain ttl i where "position_ok J ttl i"
    and acc: "\<And>t. accounted (fs_pending s, fs_results s) t = quota J ttl i t"
    using inv by (auto simp: fast_inv_def)
  then have "length (filter (\<lambda>p. pv_ttl p = t) (fs_pending s)) \<le> 0" if "t \<in> ?A" for t
    using full [OF that] quota_le [of J ttl i t] acc [of t]
    unfolding accounted_def fst_conv snd_conv by linarith
  moreover have "pv_ttl p \<in> ?A" if "p \<in> set (fs_pending s)" for p
    using inv that by (auto simp: fast_inv_def books_ok_def pending_ok_def)
  ultimately have "fs_pending s = []"
    by (cases "fs_pending s") fastforce+
  with full show ?thesis by simp
qed

section \<open>Bounded runs\<close>

text \<open>How many steps the sending thread has left.\<close>

fun sender_left :: "'w fast_job \<Rightarrow> sender_pc \<Rightarrow> nat" where
  "sender_left J (S_at ttl i) =
     1 + (Suc (unat (fj_end J)) - unat ttl) * (2 * unat (fj_retries J) + 2) - 2 * unat i"
| "sender_left J (S_sent p ttl i) =
     (Suc (unat (fj_end J)) - unat ttl) * (2 * unat (fj_retries J) + 2) - 2 * unat i"
| "sender_left J S_done = 0"
| "sender_left J (S_threw e) = 0"

lemma sender_left_step:
  assumes inv: "fast_inv J target old s" and bound: "fj_end J \<noteq> - 1"
    and going: "\<not> sender_finished (fs_sender s)"
  shows "sender_left J (fs_sender (sender_step J s)) < sender_left J (fs_sender s)"
proof -
  let ?R = "unat (fj_retries J)" and ?rem = "\<lambda>ttl. Suc (unat (fj_end J)) - unat ttl"
  from inv obtain ttl i where at: "sender_at J target (fs_sender s) ttl i" "position_ok J ttl i"
    by (auto simp: fast_inv_def)
  have i: "unat i \<le> ?R" using at(2) by (simp add: position_ok_def word_le_nat_alt)
  have rem: "\<exists>k. ?rem ttl = Suc k \<and> ?rem (ttl + 1) = k" if "ttl \<le> fj_end J"
    using that unat_next [OF bound that]
    by (intro exI [of _ "unat (fj_end J) - unat ttl"]) (simp add: word_le_nat_alt)
  show ?thesis
  proof (cases "fs_sender s")
    case (S_at t j)
    then have [simp]: "t = ttl" "j = i" using at(1) by simp_all
    show ?thesis
    proof (cases "ttl \<le> fj_end J")
      case False
      with at(2) S_at show ?thesis by (auto simp: sender_step_def position_ok_def)
    next
      case True
      from rem [OF True] obtain k where k: "?rem ttl = Suc k" "?rem (ttl + 1) = k" by blast
      show ?thesis
      proof (cases "i < fj_retries J")
        case False
        with at(2) have "i = fj_retries J" by (auto simp: position_ok_def)
        with False True S_at k show ?thesis by (simp add: sender_step_def)
      next
        case sends: True
        then have "unat i < ?R" by (simp add: word_less_nat_alt)
        with sends True S_at k show ?thesis
          by (auto simp: sender_step_def split: prod.splits sum.splits)
      qed
    qed
  next
    case (S_sent p t j)
    then have here: "t = ttl" "j = i" "ttl \<le> fj_end J" "i < fj_retries J"
      using at(1) by auto
    from rem [OF here(3)] obtain k where k: "?rem ttl = Suc k" by blast
    have "unat (i + 1) = Suc (unat i)" using here(4) by (rule unat_succ_less)
    moreover have "unat i < ?R" using here(4) by (simp add: word_less_nat_alt)
    ultimately show ?thesis
      using S_sent here k by (auto simp: sender_step_def split: prod.splits)
  qed (use going in simp_all)
qed

text \<open>
  How many steps the receiving thread has left, by the nanoseconds until its deadline: an iteration
  is three steps, and its receive takes at least a nanosecond.
\<close>

definition longest :: "'w fast_job \<Rightarrow> int" where
  "longest J = expectedMaxTimeTaken (fj_timeout J)
     (expectedSize (fj_begin J) (fj_end J) (fj_retries J)) * 1000"

definition time_left :: "'v fast_job \<Rightarrow> ('w \<Rightarrow> int) \<Rightarrow> int \<Rightarrow> 'w \<Rightarrow> nat" where
  "time_left J clk beginAt w = nat (beginAt + longest J - clk w)"

fun receiver_left :: "'v fast_job \<Rightarrow> ('w \<Rightarrow> int) \<Rightarrow> receiver_pc \<Rightarrow> 'w \<Rightarrow> nat" where
  "receiver_left J clk R_start w = 4 * nat (longest J) + 3"
| "receiver_left J clk (R_test b) w = 4 * time_left J clk b w + 2"
| "receiver_left J clk (R_receive b) w =
     (if time_left J clk b w = 0 then 4 else 4 * time_left J clk b w + 1)"
| "receiver_left J clk (R_lock b r) w = 4 * time_left J clk b w + 3"
| "receiver_left J clk R_collect w = 1"
| "receiver_left J clk (R_done res) w = 0"
| "receiver_left J clk (R_threw e) w = 0"

lemma time_left_mono: "clk w \<le> clk w' \<Longrightarrow> time_left J clk b w' \<le> time_left J clk b w"
  by (simp add: time_left_def)

lemma receiver_left_mono:
  assumes "clk w \<le> clk w'"
  shows "receiver_left J clk pc w' \<le> receiver_left J clk pc w"
proof -
  have "time_left J clk b w' \<le> time_left J clk b w" for b
    using assms by (rule time_left_mono)
  then show ?thesis by (cases pc) (auto dest: less_le_trans)
qed

text \<open>The clock does not run back in the critical section, nor in a step of the sending thread.\<close>

lemma getTimePassed_clock:
  "ticking T clk \<Longrightarrow> clk w \<le> clk (snd (getTimePassedTillNow T start w))"
  by (auto simp: getTimePassedTillNow_def ticking_def split: prod.splits) (metis snd_conv)

lemma expire_clock:
  assumes "ticking T clk"
  shows "clk w \<le> clk (snd (expire T timeout pending (m :: result_map) w))"
proof (induction pending arbitrary: m w)
  case (Cons p ps)
  obtain left w1 where left: "getTimeLeft T (pv_sentAt p) timeout w = (left, w1)" by fastforce
  obtain waited w2 where waited: "getTimePassedTillNow T (pv_sentAt p) w1 = (waited, w2)"
    by fastforce
  have "clk w \<le> clk w1" using getTimeLeft_clock [OF assms] left by (metis snd_conv)
  moreover have "clk w1 \<le> clk w2" using getTimePassed_clock [OF assms] waited by (metis snd_conv)
  ultimately show ?case
    using Cons [of w2 "push_result (pv_ttl p) (failedProbe waited) m"] Cons [of w1 m] left waited
    by (auto simp: Let_def split: prod.splits)
qed simp

lemma validate_locked_clock:
  assumes "ticking T clk"
  shows "clk w \<le> clk (snd (validate_locked T timeout respInfo buf pending m w))"
proof -
  have "clk w \<le> clk (snd (record_answer T info buf pending m w))" for info
    using getTimePassed_clock [OF assms]
    by (auto simp: record_answer_def io_simps split: sum.splits option.splits)
  then have "clk w \<le> clk v" if "record_answer T info buf pending m w = (r, v)" for info r v
    using that by (metis snd_conv)
  then show ?thesis
    by (auto simp: validate_locked_def io_simps expire_clock [OF assms]
        intro: order_trans [OF _ expire_clock [OF assms]]
        split: option.splits prod.splits sum.splits)
qed

lemma sender_step_clock:
  assumes "ticking (fj_tracer J) clk"
  shows "clk (fs_world s) \<le> clk (fs_world (sender_step J s))"
proof -
  have "clk w \<le> clk (snd (send_one (fj_tracer J) ttl w))" for ttl w
    using assms unfolding ticking_def send_one_def
    by (auto simp: io_simps split: prod.splits sum.splits) (metis order_trans snd_conv)+
  moreover have "clk w \<le> clk (snd (t_now (fj_tracer J) w))" for w
    using assms by (simp add: ticking_def)
  ultimately show ?thesis
    by (auto simp: sender_step_def split: sender_pc.splits prod.splits sum.splits)
      (metis snd_conv)+
qed

lemma receiver_left_step:
  assumes ticks: "ticking (fj_tracer J) clk" and going: "\<not> receiver_finished (fs_receiver s)"
  shows "receiver_left J clk (fs_receiver (receiver_step J s)) (fs_world (receiver_step J s))
    < receiver_left J clk (fs_receiver s) (fs_world s)"
proof (cases "fs_receiver s")
  case R_start
  obtain b w where now: "t_now (fj_tracer J) (fs_world s) = (b, w)" by fastforce
  then have "b = clk (fs_world s)" "b \<le> clk w"
    using ticks unfolding ticking_def by (metis fst_conv, metis fst_conv snd_conv)
  with R_start now show ?thesis by (simp add: receiver_step_def time_left_def)
next
  case (R_test b)
  obtain left w where left: "getTimeLeft (fj_tracer J) b (expectedMaxTimeTaken (fj_timeout J)
      (expectedSize (fj_begin J) (fj_end J) (fj_retries J))) (fs_world s) = (left, w)"
    by fastforce
  have "0 < time_left J clk b (fs_world s)" if "0 < left"
    using no_time_left [OF ticks, of b "expectedMaxTimeTaken (fj_timeout J)
      (expectedSize (fj_begin J) (fj_end J) (fj_retries J))" "fs_world s"] left that
    by (auto simp: time_left_def longest_def not_le [symmetric])
  moreover have "time_left J clk b w \<le> time_left J clk b (fs_world s)"
    using getTimeLeft_clock [OF ticks] left by (intro time_left_mono) (metis snd_conv)
  ultimately show ?thesis
    using R_test left by (auto simp: receiver_step_def Let_def)
next
  case (R_receive b)
  obtain r w where recv: "t_tryReceiving (fj_tracer J) (fs_buffer s) BufferSize
      (to_milliseconds (fj_timeout J)) (fs_world s) = (r, w)"
    by fastforce
  then have "clk (fs_world s) < clk w" using ticks unfolding ticking_def by (metis snd_conv)
  with R_receive recv show ?thesis
    by (auto simp: receiver_step_def Let_def time_left_def split: sum.splits prod.splits)
next
  case (R_lock b respInfo)
  have "clk (fs_world s) \<le> clk w" if "validate_locked (fj_tracer J) (fj_timeout J) respInfo
      (fs_buffer s) (fs_pending s) (fs_results s) (fs_world s) = (r, w)" for r w
    using validate_locked_clock [OF ticks] that by (metis snd_conv)
  then have "time_left J clk b w \<le> time_left J clk b (fs_world s)"
    if "validate_locked (fj_tracer J) (fj_timeout J) respInfo
      (fs_buffer s) (fs_pending s) (fs_results s) (fs_world s) = (r, w)" for r w
    using that by (intro time_left_mono) blast
  with R_lock show ?thesis
    by (fastforce simp: receiver_step_def Let_def split: sum.splits prod.splits)
next
  case R_collect
  then show ?thesis by (auto simp: receiver_step_def Let_def split: sum.splits prod.splits)
qed (use going in simp_all)

lemma fast_step_left:
  assumes "fast_step J s t" and inv: "fast_inv J target old s" and bound: "fj_end J \<noteq> - 1"
    and ticks: "ticking (fj_tracer J) clk"
  shows "sender_left J (fs_sender t) + receiver_left J clk (fs_receiver t) (fs_world t)
    < sender_left J (fs_sender s) + receiver_left J clk (fs_receiver s) (fs_world s)"
  using assms(1)
proof (rule fast_stepE)
  assume sender: "t = sender_step J s" "\<not> sender_finished (fs_sender s)"
  have "fs_receiver (sender_step J s) = fs_receiver s"
    by (auto simp: sender_step_def split: sender_pc.splits prod.splits sum.splits)
  then show ?thesis
    using sender sender_left_step [OF inv bound]
      receiver_left_mono [of clk "fs_world s" "fs_world (sender_step J s)" J "fs_receiver s"]
      sender_step_clock [OF ticks, of s]
    by (simp add: add_less_le_mono)
next
  assume receiver: "t = receiver_step J s" "\<not> receiver_finished (fs_receiver s)"
  have "fs_sender (receiver_step J s) = fs_sender s"
    by (auto simp: receiver_step_def Let_def split: receiver_pc.splits prod.splits sum.splits)
  then show ?thesis using receiver receiver_left_step [OF ticks] by simp
qed

definition step_bound :: "'w fast_job \<Rightarrow> nat" where
  "step_bound J = (Suc (unat (fj_end J)) - unat (fj_begin J)) * (2 * unat (fj_retries J) + 2)
     + 4 * nat (longest J) + 4"

lemma fast_runs_bounded:
  assumes "(fast_step J ^^ n) (Fast_start J old buf w) s"
    and ports: "tracer_ports (fj_tracer J) target" and bound: "fj_end J \<noteq> - 1"
    and ticks: "ticking (fj_tracer J) clk" and old: "probes_ok target old"
  shows "fast_reach J (Fast_start J old buf w) s
    \<and> n + sender_left J (fs_sender s) + receiver_left J clk (fs_receiver s) (fs_world s)
      \<le> step_bound J"
  using assms(1)
proof (induction n arbitrary: s)
  case 0
  then show ?case by (auto simp: Fast_start_def step_bound_def intro: fast_reach.start)
next
  case (Suc n)
  then obtain t where t: "(fast_step J ^^ n) (Fast_start J old buf w) t" "fast_step J t s"
    by auto
  note IH = Suc.IH [OF t(1)]
  then have "fast_inv J target old t" using reach_inv [OF _ ports bound old, of buf w t] by simp
  from IH fast_step_left [OF t(2) this bound ticks] t(2) show ?case
    by (auto intro: fast_reach.step)
qed

text \<open>A run stops exactly when it has an outcome.\<close>

lemma fast_outcome_iff: "Fast_outcome s \<noteq> None \<longleftrightarrow> (\<nexists>t. fast_step J s t)"
proof -
  have "receiver_finished (fs_receiver s) \<longleftrightarrow>
      (\<exists>res. fs_receiver s = R_done res) \<or> (\<exists>e. fs_receiver s = R_threw e)"
    by (cases "fs_receiver s") auto
  moreover have "(\<nexists>t. fast_step J s t)
      \<longleftrightarrow> sender_finished (fs_sender s) \<and> receiver_finished (fs_receiver s)"
    by (auto elim: fast_stepE intro: fast_step.intros)
  ultimately show ?thesis
    by (auto simp: Fast_outcome_def split: receiver_pc.splits)
qed

section \<open>Memory safety\<close>

text \<open>The receive buffer keeps its size, and no thread ends in an access outside it.\<close>

definition safe_state :: "'w fast_state \<Rightarrow> bool" where
  "safe_state s \<longleftrightarrow> 136 \<le> length (fs_buffer s)
     \<and> fs_sender s \<noteq> S_threw Fault \<and> fs_receiver s \<noteq> R_threw Fault"

lemma find_valid_safe: "136 \<le> length buf \<Longrightarrow> find_valid ps info buf \<noteq> Inl Fault"
  by (induction ps) (auto simp: bindS_eq_Inl probe.check_no_fault)

lemma validate_locked_safe:
  "136 \<le> length buf \<Longrightarrow> validate_locked T timeout ri buf pending m w \<noteq> (Inl Fault, w')"
  unfolding validate_locked_def bindE_Inl
  by (auto simp: record_answer_def bindE_Inl io_run find_valid_safe callE_def
      split: option.splits prod.splits)

lemma fast_step_safe:
  assumes "fast_step J s t" "safe_state s" and ports: "tracer_ports (fj_tracer J) target"
  shows "safe_state t"
proof -
  note create = packet_source.create_no_fault [OF tracer_ports.axioms(1) [OF ports]]
  note send = data_sender.send_no_fault [OF tracer_ports.axioms(2) [OF ports]]
  note recv = data_sender.recv_no_fault [OF tracer_ports.axioms(2) [OF ports]]
    data_sender.recv_length [OF tracer_ports.axioms(2) [OF ports]]
  have one: "send_one (fj_tracer J) ttl w \<noteq> (Inl Fault, w')" for ttl w w'
    unfolding send_one_def bindE_Inl using create send by (auto simp: io_run split: if_splits)
  from assms(1) show ?thesis
  proof (rule fast_stepE)
    assume "t = sender_step J s"
    with assms(2) one show ?thesis
      by (auto simp: safe_state_def sender_step_def split: sender_pc.splits prod.splits sum.splits)
  next
    assume "t = receiver_step J s"
    with assms(2) create recv validate_locked_safe [of "fs_buffer s" "fj_tracer J"] show ?thesis
      by (auto simp: safe_state_def receiver_step_def Let_def
          split: receiver_pc.splits prod.splits sum.splits)
  qed
qed

lemma reach_safe:
  assumes "fast_reach J (Fast_start J ps buf w) s" "tracer_ports (fj_tracer J) target"
    "136 \<le> length buf"
  shows "safe_state s"
  using assms
proof (induction rule: fast_reach.induct)
  case start
  then show ?case by (simp add: safe_state_def Fast_start_def)
next
  case (step t u)
  then show ?case by (blast intro: fast_step_safe)
qed

section \<open>Timeouts below a millisecond\<close>

text \<open>The overall time is a multiple of the timeout in whole milliseconds.\<close>

lemma expectedMaxTimeTaken_zero: "0 \<le> timeout \<Longrightarrow> timeout < 1000 \<Longrightarrow>
    expectedMaxTimeTaken timeout n = 0"
  by (simp add: expectedMaxTimeTaken_def to_milliseconds_def div_pos_pos_trivial)

definition impatient :: "('w \<Rightarrow> int) \<Rightarrow> 'w fast_state \<Rightarrow> bool" where
  "impatient clk s \<longleftrightarrow> fs_results s = [] \<and> (case fs_receiver s of
       R_start \<Rightarrow> True | R_test b \<Rightarrow> b \<le> clk (fs_world s) | R_receive b \<Rightarrow> False
     | R_lock b r \<Rightarrow> False | R_collect \<Rightarrow> True | R_done res \<Rightarrow> res = [] | R_threw e \<Rightarrow> True)"

lemma fast_step_impatient:
  assumes "fast_step J s t" "impatient clk s" and ticks: "ticking (fj_tracer J) clk"
    and "0 \<le> fj_timeout J" "fj_timeout J < 1000"
  shows "impatient clk t"
  using assms(1)
proof (rule fast_stepE)
  assume "t = sender_step J s"
  moreover have "fs_receiver (sender_step J s) = fs_receiver s"
    "fs_results (sender_step J s) = fs_results s"
    by (auto simp: sender_step_def split: sender_pc.splits prod.splits sum.splits)
  ultimately show ?thesis
    using assms(2) sender_step_clock [OF ticks, of s]
    by (auto simp: impatient_def split: receiver_pc.splits)
next
  assume t: "t = receiver_step J s"
  show ?thesis
  proof (cases "fs_receiver s")
    case R_start
    with t assms(2) ticks show ?thesis
      by (auto simp: impatient_def receiver_step_def Let_def ticking_def split: prod.splits)
        (metis fst_conv snd_conv)
  next
    case (R_test b)
    with assms(2) have "b \<le> clk (fs_world s)" by (simp add: impatient_def)
    then have "fst (getTimeLeft (fj_tracer J) b 0 (fs_world s)) \<le> 0"
      using ticks by (intro no_time_left) simp_all
    with R_test t assms(2) show ?thesis
      by (auto simp: impatient_def receiver_step_def Let_def
          expectedMaxTimeTaken_zero [OF assms(4,5)] split: prod.splits)
  next
    case R_collect
    with t assms(2) show ?thesis
      by (auto simp: impatient_def receiver_step_def Let_def collect_results_def cut_at_target_def
          split: prod.splits sum.splits)
  qed (use t assms(2) in \<open>auto simp: impatient_def receiver_step_def Let_def\<close>)
qed

lemma reach_impatient:
  assumes "fast_reach J (Fast_start J ps buf w) s" "ticking (fj_tracer J) clk"
    "0 \<le> fj_timeout J" "fj_timeout J < 1000"
  shows "impatient clk s"
  using assms
proof (induction rule: fast_reach.induct)
  case start
  then show ?case by (simp add: impatient_def Fast_start_def)
next
  case (step t u)
  then show ?case by (blast intro: fast_step_impatient)
qed

end
