(* ===== verification/FastClaims.thy ===== *)
theory FastClaims
  imports Scenario FastEnds
begin

text \<open>
  The properties of the tracer with two threads, for every interleaving of them, on the library's own
  sender, factories and clock, each applied to a concrete run.
\<close>

definition fast_sample :: "world fast_job" where
  "fast_sample = fast_job_of scripted udp_sender udp_factory 1 2 1 20000"

definition fast_end :: "world fast_state" where
  "fast_end = fast_run fast_sample (replicate 7 True @ replicate 9 False)
     (Fast_start fast_sample [] sample_buffer two_hops)"

text \<open>The sample run, which sends both probes and then receives both answers, one a millisecond.\<close>

definition fast_sample_results :: "TracerouteResult list" where
  "fast_sample_results =
     [\<lparr>tr_ttl = 1, tr_probeResults = [successProbe 1000 router6]\<rparr>,
      \<lparr>tr_ttl = 2, tr_probeResults = [successProbe 2000 server6]\<rparr>]"

lemma fast_end_outcome: "Fast_outcome fast_end = Some (Inr fast_sample_results)"
  by code_simp

lemma fast_end_reached: "fast_reach fast_sample (Fast_start fast_sample [] sample_buffer two_hops) fast_end"
  unfolding fast_end_def by (rule fast_run_reach) (rule fast_reach.start)

text \<open>States on the way: one probe registered; an answer in hand before any probe is registered.\<close>

definition fast_mid :: "world fast_state" where
  "fast_mid = fast_run fast_sample (replicate 3 True)
     (Fast_start fast_sample [] sample_buffer two_hops)"

definition fast_early :: "world fast_state" where
  "fast_early = fast_run fast_sample [True, False, False, False]
     (Fast_start fast_sample [] sample_buffer two_hops)"

text \<open>The sample run with a timeout below a millisecond.\<close>

definition hasty_sample :: "world fast_job" where
  "hasty_sample = fast_job_of scripted udp_sender udp_factory 1 2 1 999"

definition hasty_end :: "world fast_state" where
  "hasty_end = fast_run hasty_sample (replicate 7 True @ replicate 3 False)
     (Fast_start hasty_sample [] sample_buffer two_hops)"

lemma sample_runs_reached:
  "fast_reach fast_sample (Fast_start fast_sample [] sample_buffer two_hops) fast_mid"
  "fast_reach fast_sample (Fast_start fast_sample [] sample_buffer two_hops) fast_early"
  "fast_reach hasty_sample (Fast_start hasty_sample [] sample_buffer two_hops) hasty_end"
  unfolding fast_mid_def fast_early_def hasty_end_def
  by (rule fast_run_reach, rule fast_reach.start)+

lemma fast_sample_parts [simp]:
  "fj_begin fast_sample = 1" "fj_end fast_sample = 2" "fj_retries fast_sample = 1"
  "fj_timeout fast_sample = 20000" "fj_tracer fast_sample = tracer_of scripted udp_sender udp_factory"
  by (simp_all add: fast_sample_def)

lemma real_ports: "tracer_ports (fj_tracer (fast_job_of os ds f b e r t)) (factory_destination f)"
  using real.tracer_ports_axioms by simp

section \<open>Results\<close>

text \<open>
  What the fast tracer returns, for every interleaving of its threads on a fresh tracer: results
  by strictly ascending TTL, all within the range that was asked for, each with at least one probe
  result and at most as many as there were to be retries. A probe result is a failure, or names the
  sender of a response that the validator accepted for a probe to the destination. Only the last TTL
  can contain the destination.
\<close>

lemma fast_trace:
  assumes "fast_reach (fast_job_of os ds f ttlBegin ttlEnd retries timeout)
      (Fast_start (fast_job_of os ds f ttlBegin ttlEnd retries timeout) [] buf w) s"
    and "Fast_outcome s = Some (Inr res)" "ttlEnd \<noteq> - 1"
  shows "sorted_wrt (<) (map tr_ttl res)
    \<and> (\<forall>r \<in> set res. ttlBegin \<le> tr_ttl r \<and> tr_ttl r \<le> ttlEnd
         \<and> tr_probeResults r \<noteq> [] \<and> length (tr_probeResults r) \<le> unat retries
         \<and> (\<forall>pr \<in> set (tr_probeResults r). settled_ok (factory_destination f) pr))
    \<and> (\<forall>r \<in> set (butlast res). \<not> target_seen (factory_destination f) r)"
proof -
  have "fast_inv (fast_job_of os ds f ttlBegin ttlEnd retries timeout) (factory_destination f) [] s"
    using reach_inv [OF assms(1) real_ports] assms(3) by simp
  from inv_result [OF this assms(2)] inv_result_fresh [OF this assms(2)] show ?thesis by simp
qed

lemma fast_trace_example:
  "sorted_wrt (<) (map tr_ttl fast_sample_results)
   \<and> length (tr_probeResults (last fast_sample_results)) \<le> 1
   \<and> \<not> target_seen server6 (hd fast_sample_results)"
  using fast_trace [OF fast_end_reached [unfolded fast_sample_def] fast_end_outcome]
  by (simp add: fast_sample_results_def)

text \<open>
  The books of the fast tracer. In every state of every interleaving, the probes of a TTL that
  are waiting and those that have a result are together exactly the ones the sending thread has
  registered: all of them for the TTLs it has finished, the ones so far for the TTL it is at. No
  probe is lost, none has two results.
\<close>

lemma fast_accounts:
  assumes "fast_reach (fast_job_of os ds f ttlBegin ttlEnd retries timeout)
      (Fast_start (fast_job_of os ds f ttlBegin ttlEnd retries timeout) [] buf w) s"
    and "fs_sender s = S_at ttl i" "ttlEnd \<noteq> - 1"
  shows "length (filter (\<lambda>p. pv_ttl p = t) (fs_pending s)) + length (results_of (fs_results s) t)
    = (if ttlBegin \<le> t \<and> t < ttl then unat retries else if t = ttl then unat i else 0)"
proof -
  have "fast_inv (fast_job_of os ds f ttlBegin ttlEnd retries timeout) (factory_destination f) [] s"
    using reach_inv [OF assms(1) real_ports] assms(3) by simp
  from inv_accounts_fresh [OF this assms(2), of t] show ?thesis by simp
qed

lemma fast_accounts_example:
  "length (filter (\<lambda>p. pv_ttl p = 1) (fs_pending fast_mid))
     + length (results_of (fs_results fast_mid) 1) = 1"
proof -
  have "fs_sender fast_mid = S_at 2 0" by code_simp
  then show ?thesis
    using fast_accounts [OF sample_runs_reached(1) [unfolded fast_sample_def], of 2 0 1] by simp
qed

text \<open>
  When the loop of the receiving thread stops because it has the expected number of results, and
  the number of probes fits an \<open>unsigned\<close>, then no probe is waiting and every TTL of the range has a
  result for each of its retries.
\<close>

lemma fast_complete:
  assumes "fast_reach (fast_job_of os ds f ttlBegin ttlEnd retries timeout)
      (Fast_start (fast_job_of os ds f ttlBegin ttlEnd retries timeout) [] buf w) s"
    and "ttlBegin \<le> ttlEnd" "ttlEnd \<noteq> - 1"
    and "(unat ttlEnd - unat ttlBegin + 1) * unat retries < 2 ^ 32"
    and "\<not> ucast (getCurrentSize (fs_results s)) < expectedSize ttlBegin ttlEnd retries"
    and "ttlBegin \<le> t" "t \<le> ttlEnd"
  shows "fs_pending s = [] \<and> length (results_of (fs_results s) t) = unat retries"
proof -
  let ?J = "fast_job_of os ds f ttlBegin ttlEnd retries timeout"
  have "fast_inv ?J (factory_destination f) [] s"
    using reach_inv [OF assms(1) real_ports] assms(3) by simp
  moreover have "no_overflow ?J" using assms(2,4) by (simp add: no_overflow_def)
  ultimately show ?thesis
    using complete_when_expected [of ?J "factory_destination f" s t] assms(5-7) by simp
qed

lemma fast_complete_example:
  "fs_pending fast_end = [] \<and> length (results_of (fs_results fast_end) 2) = 1"
proof -
  have "\<not> ucast (getCurrentSize (fs_results fast_end)) < expectedSize 1 2 1" by code_simp
  from fast_complete [OF fast_end_reached [unfolded fast_sample_def] _ _ _ this, of 2]
  show ?thesis by simp
qed

section \<open>The critical section\<close>

text \<open>
  C14. What the receiving thread does under the lock refines an abstract ledger: the waiting probes and
  the results change only by settling one probe after the other, each by a response its validator
  accepts or because less than the minimal time is left for it.
\<close>

theorem critical_section_settles:
  assumes "validate_locked T timeout respInfo buf pending m w = (Inr (pending', m'), w')"
  shows "(settles T timeout)\<^sup>*\<^sup>* (pending, m) (pending', m')"
  using assms by (rule validate_locked_settles)

theorem critical_section_settles_witness:
  "\<exists>m'. (settles (tracer_of scripted udp_sender udp_factory) 20000)\<^sup>*\<^sup>*
     ([\<lparr>pv_packet = UdpPacket home6 server6 sample_udp, pv_sentAt = - 20000000, pv_ttl = 7,
        pv_retry = 0\<rparr>], []) ([], m')"
proof -
  have "validate_locked (tracer_of scripted udp_sender udp_factory) 20000 None sample_buffer
      [\<lparr>pv_packet = UdpPacket home6 server6 sample_udp, pv_sentAt = - 20000000, pv_ttl = 7,
        pv_retry = 0\<rparr>] [] two_hops
    = (Inr ([], [(7, [failedProbe 20000])]), two_hops)"
    by code_simp
  then show ?thesis by (blast intro: critical_section_settles)
qed

text \<open>
  A probe is on the wire before it is registered. An answer that is handled in between is
  discarded, even when its validator would accept it: the results stay as they are, and the probe is
  then registered as one that waits.
\<close>

lemma early_answer_lost:
  assumes "fs_sender s = S_sent p ttl i" "fs_pending s = []" "fs_receiver s = R_lock b (Some info)"
  shows "fs_results (sender_step J (receiver_step J s)) = fs_results s
    \<and> map pv_packet (fs_pending (sender_step J (receiver_step J s))) = [p]"
  using assms
  by (simp add: receiver_step_def sender_step_def validate_locked_def record_answer_def io_simps
      Let_def split: prod.splits)

lemma early_answer_lost_example:
  "\<exists>p info. packet_isValid p info (fs_buffer fast_early) = Inr True
     \<and> fs_results (fast_run fast_sample [False, True] fast_early) = []
     \<and> map pv_packet (fs_pending (fast_run fast_sample [False, True] fast_early)) = [p]"
proof -
  let ?p = "UdpPacket home6 server6
      \<lparr>udp_source = htons 50007, udp_dest = htons 33434, udp_len = htons 8, udp_check = 0\<rparr>"
  let ?info = "\<lparr>ri_client = router6, ri_protocol = IPPROTO_ICMPV6, ri_size = 16\<rparr>"
  have "fs_sender fast_early = S_sent ?p 1 0 \<and> fs_pending fast_early = []
      \<and> fs_results fast_early = [] \<and> fs_receiver fast_early = R_lock 1 (Some ?info)
      \<and> packet_isValid ?p ?info (fs_buffer fast_early) = Inr True"
    by code_simp
  then show ?thesis
    using early_answer_lost [of fast_early ?p 1 0 1 ?info fast_sample] by auto
qed

section \<open>How a run ends\<close>

text \<open>
  C13. The steps of the fast tracer are bounded. When the clock advances whenever \<open>poll\<close> is called and
  the last TTL is not the largest \<open>unsigned\<close>, no interleaving has more steps than the bound below, and
  one that has no outcome yet can go on.
\<close>

theorem fast_ends:
  assumes "steady_os os clk" "ttlEnd \<noteq> - 1"
    and "(fast_step (fast_job_of os ds f ttlBegin ttlEnd retries timeout) ^^ n)
      (Fast_start (fast_job_of os ds f ttlBegin ttlEnd retries timeout) [] buf w) s"
  shows "n \<le> (Suc (unat ttlEnd) - unat ttlBegin) * (2 * unat retries + 2)
      + 4 * nat (expectedMaxTimeTaken timeout (expectedSize ttlBegin ttlEnd retries) * 1000) + 4
    \<and> (Fast_outcome s = None
        \<longrightarrow> (\<exists>t. fast_step (fast_job_of os ds f ttlBegin ttlEnd retries timeout) s t))"
proof -
  let ?J = "fast_job_of os ds f ttlBegin ttlEnd retries timeout"
  have "ticking (fj_tracer ?J) clk" using steady_ticking [OF assms(1)] by simp
  with fast_runs_bounded [OF assms(3) real_ports] assms(2)
  have "n \<le> step_bound ?J" by fastforce
  with fast_outcome_iff [of s ?J] show ?thesis
    by (auto simp: step_bound_def longest_def)
qed

theorem fast_ends_witness:
  "Fast_outcome (Fast_start fast_sample [] sample_buffer two_hops) = None
   \<and> (\<exists>t. fast_step fast_sample (Fast_start fast_sample [] sample_buffer two_hops) t)"
  using fast_ends [OF scripted_steady, of 2 0 udp_sender udp_factory 1 1 20000 sample_buffer two_hops,
      folded fast_sample_def]
  by (simp add: Fast_outcome_def Fast_start_def)

text \<open>
  No thread of the fast tracer reads outside the receive buffer, in any interleaving, whatever
  the network sends and whatever an earlier call left in the list of probes.
\<close>

lemma fast_memory_safe:
  assumes "fast_reach (fast_job_of os ds f ttlBegin ttlEnd retries timeout)
      (Fast_start (fast_job_of os ds f ttlBegin ttlEnd retries timeout) ps buf w) s"
    and "136 \<le> length buf"
  shows "fs_sender s \<noteq> S_threw Fault \<and> fs_receiver s \<noteq> R_threw Fault"
  using reach_safe [OF assms(1) real_ports assms(2)] by (simp add: safe_state_def)

lemma fast_memory_safe_example:
  "fs_sender fast_end \<noteq> S_threw Fault \<and> fs_receiver fast_end \<noteq> R_threw Fault"
  by (rule fast_memory_safe [OF fast_end_reached [unfolded fast_sample_def]])
    (simp add: sample_buffer_def)

text \<open>
  C37. With a timeout below a millisecond the fast tracer reports nothing, however its threads are
  interleaved, when no call turns the clock back and \<open>poll\<close> takes time: the time it gives itself is a
  multiple of whole milliseconds, and with none it does not receive at all.
\<close>

theorem fast_short_timeout:
  assumes "steady_os os clk" "0 \<le> timeout" "timeout < 1000"
    and "fast_reach (fast_job_of os ds f ttlBegin ttlEnd retries timeout)
      (Fast_start (fast_job_of os ds f ttlBegin ttlEnd retries timeout) ps buf w) s"
    and "Fast_outcome s = Some (Inr res)"
  shows "res = []"
proof -
  have "impatient clk s"
    using reach_impatient [OF assms(4)] steady_ticking [OF assms(1)] assms(2,3) by simp
  with assms(5) show ?thesis
    by (auto simp: impatient_def Fast_outcome_def split: receiver_pc.splits if_splits)
qed

theorem fast_short_timeout_witness:
  "Fast_outcome hasty_end = Some (Inr []) \<and> length (fs_pending hasty_end) = 2"
proof -
  have "(case Fast_outcome hasty_end of Some (Inr res) \<Rightarrow> True | _ \<Rightarrow> False)
      \<and> length (fs_pending hasty_end) = 2"
    by code_simp
  then obtain res where "Fast_outcome hasty_end = Some (Inr res)"
    "length (fs_pending hasty_end) = 2"
    by (auto split: option.splits sum.splits)
  then show ?thesis
    using fast_short_timeout [OF scripted_steady _ _
        sample_runs_reached(3) [unfolded hasty_sample_def]] by simp
qed

end
