(* ===== verification/FastObject.thy ===== *)
theory FastObject
  imports FastEnds
begin

text \<open>
  The object \<open>FastTraceroute\<close> over its whole life: its constructor, the calls of \<open>beginProbing\<close> one
  after the other, and what a call leaves behind. The list of unanswered probes is a member and is
  never cleared, so a call that runs out of time hands its probes to the next one. The lemmas show
  the type invariant of the object and what a call on a used object returns.
\<close>

section \<open>The class\<close>

text \<open>
  The members: those of the base class and its buffer, the list, and \<open>mTarget\<close>, which no operation
  reads or writes. Between two calls nobody holds the mutex.
\<close>

record 'w FastTraceroute =
  ft_base :: "'w tracer"
  ft_buffer :: "byte list"
  mPacketsToBeValidated :: "PacketToValidate list"
  mTarget :: "SocketAddress option"

definition FastTraceroute_ctor :: "'w tracer \<Rightarrow> 'w FastTraceroute" where
  "FastTraceroute_ctor base =
     \<lparr>ft_base = base, ft_buffer = initial_buffer, mPacketsToBeValidated = [], mTarget = None\<rparr>"

definition job_on :: "'w FastTraceroute \<Rightarrow> u32 \<Rightarrow> u32 \<Rightarrow> u32 \<Rightarrow> int \<Rightarrow> 'w fast_job" where
  "job_on obj ttlBegin ttlEnd retries timeout =
     \<lparr>fj_tracer = ft_base obj, fj_begin = ttlBegin, fj_end = ttlEnd, fj_retries = retries,
      fj_timeout = timeout\<rparr>"

definition begin_on :: "'w FastTraceroute \<Rightarrow> 'w fast_job \<Rightarrow> 'w \<Rightarrow> 'w fast_state" where
  "begin_on obj J w = Fast_start J (mPacketsToBeValidated obj) (ft_buffer obj) w"

definition left_by :: "'w FastTraceroute \<Rightarrow> 'w fast_state \<Rightarrow> 'w FastTraceroute" where
  "left_by obj s = obj\<lparr>ft_buffer := fs_buffer s, mPacketsToBeValidated := fs_pending s\<rparr>"

text \<open>
  One call, in any interleaving of its threads: from the object and the world it is made in to its
  outcome and the object and the world it leaves.
\<close>

inductive Fast_call ::
    "'w FastTraceroute \<Rightarrow> 'w fast_job \<Rightarrow> 'w \<Rightarrow> exn + TracerouteResult list \<Rightarrow> 'w FastTraceroute
       \<Rightarrow> 'w \<Rightarrow> bool" where
  returns: "J = job_on obj ttlBegin ttlEnd retries timeout \<Longrightarrow>
     fast_reach J (begin_on obj J w) s \<Longrightarrow> Fast_outcome s = Some out \<Longrightarrow>
     Fast_call obj J w out (left_by obj s) (fs_world s)"

inductive_cases Fast_callE: "Fast_call obj J w out obj' w'"

text \<open>The objects a program can have: constructed, and then used any number of times.\<close>

inductive fast_object :: "'w tracer \<Rightarrow> 'w FastTraceroute \<Rightarrow> bool" for T where
  constructed: "fast_object T (FastTraceroute_ctor T)"
| used: "fast_object T obj \<Longrightarrow> Fast_call obj J w out obj' w' \<Longrightarrow> fast_object T obj'"

section \<open>The type invariant\<close>

definition object_ok :: "'w tracer \<Rightarrow> SocketAddress \<Rightarrow> 'w FastTraceroute \<Rightarrow> bool" where
  "object_ok T target obj \<longleftrightarrow> ft_base obj = T \<and> length (ft_buffer obj) = BufferSize
     \<and> probes_ok target (mPacketsToBeValidated obj) \<and> mTarget obj = None"

text \<open>Whatever the bounds of a call, it only ever holds probes to the target.\<close>

definition addressed :: "SocketAddress \<Rightarrow> 'w fast_state \<Rightarrow> bool" where
  "addressed target s \<longleftrightarrow> probes_ok target (fs_pending s)
     \<and> (\<forall>p ttl i. fs_sender s = S_sent p ttl i \<longrightarrow> probe_ok target p)"

lemma settles_subset: "settles T timeout pm pm' \<Longrightarrow> set (fst pm') \<subseteq> set (fst pm)"
  by (induction rule: settles.induct) auto

lemma settles_many_subset: "(settles T timeout)\<^sup>*\<^sup>* pm pm' \<Longrightarrow> set (fst pm') \<subseteq> set (fst pm)"
  by (induction rule: rtranclp_induct) (use settles_subset in blast)+

lemma sender_step_addressed:
  assumes "tracer_ports (fj_tracer J) target" "addressed target s"
  shows "addressed target (sender_step J s)"
  using assms tracer_ports.send_one_result [OF assms(1)]
  by (auto simp: addressed_def sender_step_def probes_ok_def
      split: sender_pc.splits prod.splits sum.splits)

lemma receiver_step_addressed:
  assumes "addressed target s"
  shows "addressed target (receiver_step J s)"
proof -
  have "set pending \<subseteq> set (fs_pending s)"
    if "validate_locked (fj_tracer J) (fj_timeout J) ri (fs_buffer s) (fs_pending s) (fs_results s)
      (fs_world s) = (Inr (pending, results), w)" for ri pending results w
    using settles_many_subset [OF validate_locked_settles [OF that]] by simp
  with assms show ?thesis
    by (fastforce simp: addressed_def receiver_step_def probes_ok_def Let_def
        split: receiver_pc.splits prod.splits sum.splits)
qed

lemma fast_step_buffer:
  assumes "fast_step J s t" "tracer_ports (fj_tracer J) target"
  shows "length (fs_buffer t) = length (fs_buffer s)"
  using assms(1) data_sender.recv_length [OF tracer_ports.axioms(2) [OF assms(2)]]
  by (auto elim!: fast_stepE simp: sender_step_def receiver_step_def Let_def
      split: sender_pc.splits receiver_pc.splits prod.splits sum.splits)

lemma reach_addressed:
  assumes "fast_reach J s t" "tracer_ports (fj_tracer J) target" "addressed target s"
  shows "addressed target t \<and> length (fs_buffer t) = length (fs_buffer s)"
  using assms
proof (induction rule: fast_reach.induct)
  case (step t u)
  then show ?case
    by (metis fast_stepE fast_step_buffer receiver_step_addressed sender_step_addressed)
qed simp

lemma begin_addressed:
  "probes_ok target (mPacketsToBeValidated obj) \<Longrightarrow> addressed target (begin_on obj J w)"
  by (simp add: addressed_def begin_on_def Fast_start_def)

lemma object_ok_call:
  assumes "Fast_call obj J w out obj' w'" "object_ok T target obj" "tracer_ports T target"
  shows "object_ok T target obj'"
proof -
  from assms(1) obtain s ttlBegin ttlEnd retries timeout where
    call: "J = job_on obj ttlBegin ttlEnd retries timeout" "fast_reach J (begin_on obj J w) s"
    "obj' = left_by obj s"
    by (auto elim!: Fast_callE)
  have "tracer_ports (fj_tracer J) target"
    using assms(2,3) by (simp add: call(1) job_on_def object_ok_def)
  moreover have "addressed target (begin_on obj J w)"
    using assms(2) by (intro begin_addressed) (simp add: object_ok_def)
  ultimately have "addressed target s \<and> length (fs_buffer s) = length (fs_buffer (begin_on obj J w))"
    using call(2) by (intro reach_addressed)
  with assms(2) show ?thesis
    by (simp add: call(3) object_ok_def left_by_def addressed_def begin_on_def Fast_start_def)
qed

lemma fast_object_ok:
  assumes "fast_object T obj" "tracer_ports T target"
  shows "object_ok T target obj"
  using assms
proof (induction rule: fast_object.induct)
  case constructed
  show ?case
    by (simp add: object_ok_def FastTraceroute_ctor_def initial_buffer_def)
next
  case (used obj J w out obj' w')
  then show ?case by (blast intro: object_ok_call)
qed

section \<open>A call on a used object\<close>

lemma fast_call_result:
  assumes obj: "fast_object T obj" and ports: "tracer_ports T target"
    and call: "Fast_call obj J w (Inr res) obj' w'" and bound: "fj_end J \<noteq> - 1"
  shows "sorted_wrt (<) (map tr_ttl res)"
    and "r \<in> set res \<Longrightarrow>
      (in_range J (tr_ttl r) \<or> 0 < leftover (mPacketsToBeValidated obj) (tr_ttl r))
      \<and> tr_probeResults r \<noteq> []
      \<and> length (tr_probeResults r) \<le> (if in_range J (tr_ttl r) then unat (fj_retries J) else 0)
          + leftover (mPacketsToBeValidated obj) (tr_ttl r)
      \<and> (\<forall>pr \<in> set (tr_probeResults r). settled_ok target pr)"
    and "r \<in> set (butlast res) \<Longrightarrow> \<not> target_seen target r"
proof -
  have ok: "object_ok T target obj" using obj ports by (rule fast_object_ok)
  from call obtain s ttlBegin ttlEnd retries timeout where
    J: "J = job_on obj ttlBegin ttlEnd retries timeout"
    and reach: "fast_reach J (Fast_start J (mPacketsToBeValidated obj) (ft_buffer obj) w) s"
    and out: "Fast_outcome s = Some (Inr res)"
    by (auto elim!: Fast_callE simp: begin_on_def)
  have p: "tracer_ports (fj_tracer J) target"
    using ok ports by (simp add: J job_on_def object_ok_def)
  have old: "probes_ok target (mPacketsToBeValidated obj)" using ok by (simp add: object_ok_def)
  note result = inv_result [OF reach_inv [OF reach p bound old] out]
  show "sorted_wrt (<) (map tr_ttl res)" by (rule result(1))
  show "(in_range J (tr_ttl r) \<or> 0 < leftover (mPacketsToBeValidated obj) (tr_ttl r))
      \<and> tr_probeResults r \<noteq> []
      \<and> length (tr_probeResults r) \<le> (if in_range J (tr_ttl r) then unat (fj_retries J) else 0)
          + leftover (mPacketsToBeValidated obj) (tr_ttl r)
      \<and> (\<forall>pr \<in> set (tr_probeResults r). settled_ok target pr)" if "r \<in> set res"
    using that by (rule result(2))
  show "\<not> target_seen target r" if "r \<in> set (butlast res)"
    using that by (rule result(3))
qed

text \<open>No call, on a new or on a used object, accesses memory out of bounds.\<close>

lemma fast_call_safe:
  assumes "fast_object T obj" "tracer_ports T target" "Fast_call obj J w out obj' w'"
  shows "out \<noteq> Inl Fault"
proof -
  have ok: "object_ok T target obj" using assms(1,2) by (rule fast_object_ok)
  from assms(3) obtain s ttlBegin ttlEnd retries timeout where
    J: "J = job_on obj ttlBegin ttlEnd retries timeout"
    and reach: "fast_reach J (Fast_start J (mPacketsToBeValidated obj) (ft_buffer obj) w) s"
    and out: "Fast_outcome s = Some out"
    by (auto elim!: Fast_callE simp: begin_on_def)
  have "tracer_ports (fj_tracer J) target" "136 \<le> length (ft_buffer obj)"
    using ok assms(2) by (simp_all add: J job_on_def object_ok_def BufferSize_def)
  with reach have "safe_state s" by (rule reach_safe)
  with out show ?thesis
    by (auto simp: safe_state_def Fast_outcome_def split: receiver_pc.splits if_splits)
qed

section \<open>A sender that cannot send\<close>

text \<open>
  The sending thread ends with an exception that nobody looks at, and the receiving thread finds
  nothing to report.
\<close>

definition unsent :: "'w fast_job \<Rightarrow> 'w fast_state \<Rightarrow> bool" where
  "unsent J s \<longleftrightarrow> fs_pending s = [] \<and> fs_results s = []
     \<and> (fs_sender s = S_at (fj_begin J) 0 \<or> (\<exists>e. fs_sender s = S_threw e))
     \<and> (\<forall>res. fs_receiver s = R_done res \<longrightarrow> res = [])"

definition never_sends :: "'w tracer \<Rightarrow> bool" where
  "never_sends T \<longleftrightarrow> (\<forall>p ttl t w. fst (t_trySending T p ttl t w) \<noteq> Inr True)"

lemma send_one_fails:
  assumes "never_sends T"
  shows "\<exists>e w'. send_one T ttl w = (Inl e, w')"
proof -
  have "isl (fst (send_one T ttl w))"
    using assms unfolding never_sends_def send_one_def
    by (auto simp: io_simps split: prod.splits sum.splits) (metis fst_conv)
  then show ?thesis by (metis isl_def prod.collapse)
qed

lemma fast_step_unsent:
  assumes "fast_step J s t" "unsent J s" "never_sends (fj_tracer J)"
    and "fj_begin J \<le> fj_end J" "fj_retries J \<noteq> 0"
  shows "unsent J t"
  using assms(1)
proof (rule fast_stepE)
  assume "t = sender_step J s"
  moreover obtain e w where "send_one (fj_tracer J) (fj_begin J) (fs_world s) = (Inl e, w)"
    using send_one_fails [OF assms(3)] by blast
  ultimately show ?thesis
    using assms(2,4,5) by (auto simp: unsent_def sender_step_def word_gt_0)
next
  assume "t = receiver_step J s"
  with assms(2) show ?thesis
    by (auto simp: unsent_def receiver_step_def Let_def validate_locked_def record_answer_def
        io_simps collect_results_def cut_at_target_def
        split: receiver_pc.splits prod.splits sum.splits option.splits)
qed

lemma reach_unsent:
  assumes "fast_reach J (Fast_start J [] buf w) s" "never_sends (fj_tracer J)"
    and "fj_begin J \<le> fj_end J" "fj_retries J \<noteq> 0"
  shows "unsent J s"
  using assms
proof (induction rule: fast_reach.induct)
  case start
  then show ?case by (simp add: unsent_def Fast_start_def)
next
  case (step t u)
  then show ?case by (blast intro: fast_step_unsent)
qed

end
