(* ===== verification/FastProgress.thy ===== *)
theory FastProgress
  imports FastEnds
begin

text \<open>
  Progress of the tracer with two threads: no probe outlives its timeout by more than one iteration
  of the receiving thread, and that thread does not stop before every probe is settled or the whole
  time it has given itself is over.
\<close>

section \<open>Overdue probes are settled\<close>

lemma time_left_enough:
  assumes ticks: "ticking T clk" and left: "getTimeLeft T sentAt timeout w = (left, w')"
    and enough: "\<not> left < MinTimeWaitForResponse"
  shows "clk w < sentAt + (timeout - 9) * 1000"
proof -
  obtain n where now: "t_now T w = (n, w')" "n = clk w"
    using left ticks by (auto simp: getTimeLeft_def getTimePassedTillNow_def ticking_def
        split: prod.splits) (metis fst_conv)
  then have "tdiv (n - sentAt) 1000 \<le> timeout - 10"
    using left enough
    by (auto simp: getTimeLeft_def getTimePassedTillNow_def MinTimeWaitForResponse_def
        split: if_splits)
  then have "n - sentAt < (timeout - 9) * 1000"
    by (cases "0 \<le> n - sentAt") (auto simp: tdiv_def split: if_splits)
  with now(2) show ?thesis by simp
qed

lemma expire_remaining:
  assumes ticks: "ticking T clk"
  shows "expire T timeout ps (m :: result_map) w = ((rest, m'), w') \<Longrightarrow> p \<in> set rest \<Longrightarrow>
    p \<in> set ps \<and> clk w < pv_sentAt p + (timeout - 9) * 1000"
proof (induction ps arbitrary: m w rest m' w')
  case (Cons q ps)
  obtain left w1 where left: "getTimeLeft T (pv_sentAt q) timeout w = (left, w1)" by fastforce
  have mono: "clk w \<le> clk w1" using getTimeLeft_clock [OF ticks] left by (metis snd_conv)
  show ?case
  proof (cases "left < MinTimeWaitForResponse")
    case True
    obtain waited w2 where waited: "getTimePassedTillNow T (pv_sentAt q) w1 = (waited, w2)"
      by fastforce
    then have "clk w1 \<le> clk w2" using getTimePassed_clock [OF ticks] by (metis snd_conv)
    moreover have "p \<in> set ps \<and> clk w2 < pv_sentAt p + (timeout - 9) * 1000"
      using Cons.prems left True waited by (intro Cons.IH) auto
    ultimately show ?thesis using mono by auto
  next
    case False
    with Cons.prems left obtain rest' where rest':
      "expire T timeout ps m w1 = ((rest', m'), w')" "rest = q # rest'"
      by (auto simp: Let_def split: prod.splits)
    show ?thesis
    proof (cases "p = q")
      case True
      with time_left_enough [OF ticks left False] show ?thesis by simp
    next
      case other: False
      with rest' Cons.prems(2) have "p \<in> set rest'" by simp
      from Cons.IH [OF rest'(1) this] mono show ?thesis by auto
    qed
  qed
qed simp

lemma record_answer_parts:
  assumes "record_answer T info buf pending m w = (Inr (pending', m'), w')" "ticking T clk"
  shows "set pending' \<subseteq> set pending \<and> clk w \<le> clk w'"
proof (cases "find_valid pending info buf = Inr None")
  case True
  with assms(1) show ?thesis by (simp add: record_answer_def io_simps)
next
  case False
  with assms(1) obtain p rest where found: "find_valid pending info buf = Inr (Some (p, rest))"
    "pending' = rest" "w' = snd (getTimePassedTillNow T (pv_sentAt p) w)"
    by (auto simp: record_answer_def io_simps split: option.splits sum.splits)
  with getTimePassed_clock [OF assms(2)] show ?thesis by (auto dest!: find_valid_split)
qed

text \<open>
  A probe that is still waiting behind the critical section was sent less than its timeout before
  the critical section was entered (by the ten microseconds of \<open>MinTimeWaitForResponse\<close>, rounded).
\<close>

lemma locked_remaining:
  assumes ticks: "ticking T clk"
    and run: "validate_locked T timeout ri buf pending m w = (Inr (pending', m'), w')"
    and p: "p \<in> set pending'"
  shows "p \<in> set pending \<and> clk w < pv_sentAt p + (timeout - 9) * 1000"
proof -
  from run obtain ps m1 w1 where first:
    "(case ri of Some info \<Rightarrow> record_answer T info buf pending m
      | None \<Rightarrow> returnE (pending, m)) w = (Inr (ps, m1), w1)"
    and second: "expire T timeout ps m1 w1 = ((pending', m'), w')"
    unfolding validate_locked_def bindE_Inr by (auto simp: callE_Inr split: prod.splits)
  have "set ps \<subseteq> set pending \<and> clk w \<le> clk w1"
    using first by (auto simp: io_simps dest: record_answer_parts [OF _ ticks] split: option.splits)
  with expire_remaining [OF ticks second p] show ?thesis by auto
qed

section \<open>When the receiving thread gives up\<close>

definition gave_up :: "'w fast_job \<Rightarrow> ('w \<Rightarrow> int) \<Rightarrow> int \<Rightarrow> 'w fast_state \<Rightarrow> bool" where
  "gave_up J clk t0 s \<longleftrightarrow>
     \<not> ucast (getCurrentSize (fs_results s)) < expectedSize (fj_begin J) (fj_end J) (fj_retries J)
     \<or> t0 + longest J \<le> clk (fs_world s)"

definition patient :: "'w fast_job \<Rightarrow> ('w \<Rightarrow> int) \<Rightarrow> int \<Rightarrow> 'w fast_state \<Rightarrow> bool" where
  "patient J clk t0 s \<longleftrightarrow> t0 \<le> clk (fs_world s) \<and> (case fs_receiver s of
       R_start \<Rightarrow> True
     | R_test b \<Rightarrow> t0 \<le> b \<and> b \<le> clk (fs_world s)
     | R_receive b \<Rightarrow> t0 \<le> b \<and> b \<le> clk (fs_world s)
     | R_lock b r \<Rightarrow> t0 \<le> b \<and> b \<le> clk (fs_world s)
     | R_collect \<Rightarrow> gave_up J clk t0 s
     | R_done res \<Rightarrow> gave_up J clk t0 s
     | R_threw e \<Rightarrow> True)"

lemma no_time_left_late:
  assumes ticks: "ticking T clk" and left: "getTimeLeft T b timeout w = (left, w')"
    and "left \<le> 0" "b \<le> clk w"
  shows "b + timeout * 1000 \<le> clk w"
proof -
  have now: "fst (t_now T w) = clk w" using ticks by (simp add: ticking_def)
  then have "timeout \<le> (clk w - b) div 1000"
    using left assms(3,4) by (auto simp: getTimeLeft_def getTimePassedTillNow_def
        split: prod.splits if_splits)
  also have "\<dots> * 1000 \<le> clk w - b" by simp
  finally show ?thesis by simp
qed

lemma sender_step_patient:
  assumes ticks: "ticking (fj_tracer J) clk" and "patient J clk t0 s"
  shows "patient J clk t0 (sender_step J s)"
proof -
  have "fs_receiver (sender_step J s) = fs_receiver s" "fs_results (sender_step J s) = fs_results s"
    by (auto simp: sender_step_def split: sender_pc.splits prod.splits sum.splits)
  with assms(2) sender_step_clock [OF ticks, of s] show ?thesis
    by (auto simp: patient_def gave_up_def split: receiver_pc.splits)
qed

lemma receiver_step_patient:
  assumes ticks: "ticking (fj_tracer J) clk" and inv: "patient J clk t0 s"
  shows "patient J clk t0 (receiver_step J s)"
proof (cases "fs_receiver s")
  case R_start
  obtain b w where now: "t_now (fj_tracer J) (fs_world s) = (b, w)" by fastforce
  then have "b = clk (fs_world s)" "b \<le> clk w"
    using ticks unfolding ticking_def by (metis fst_conv, metis fst_conv snd_conv)
  with R_start now inv show ?thesis by (simp add: patient_def receiver_step_def)
next
  case (R_test b)
  obtain left w where left: "getTimeLeft (fj_tracer J) b (expectedMaxTimeTaken (fj_timeout J)
      (expectedSize (fj_begin J) (fj_end J) (fj_retries J))) (fs_world s) = (left, w)"
    by fastforce
  have mono: "clk (fs_world s) \<le> clk w"
    using getTimeLeft_clock [OF ticks] left by (metis snd_conv)
  have "b + longest J \<le> clk (fs_world s)" if "left \<le> 0"
    using no_time_left_late [OF ticks left that] inv R_test by (simp add: patient_def longest_def)
  with R_test left inv mono show ?thesis
    by (auto simp: patient_def gave_up_def receiver_step_def Let_def)
next
  case (R_receive b)
  obtain r w where recv: "t_tryReceiving (fj_tracer J) (fs_buffer s) BufferSize
      (to_milliseconds (fj_timeout J)) (fs_world s) = (r, w)"
    by fastforce
  then have "clk (fs_world s) < clk w" using ticks unfolding ticking_def by (metis snd_conv)
  with R_receive recv inv show ?thesis
    by (auto simp: patient_def receiver_step_def Let_def split: sum.splits prod.splits)
next
  case (R_lock b ri)
  have "clk (fs_world s) \<le> clk w" if "validate_locked (fj_tracer J) (fj_timeout J) ri
      (fs_buffer s) (fs_pending s) (fs_results s) (fs_world s) = (r, w)" for r w
    using validate_locked_clock [OF ticks] that by (metis snd_conv)
  with R_lock inv show ?thesis
    by (fastforce simp: patient_def receiver_step_def Let_def split: sum.splits prod.splits)
next
  case R_collect
  have "clk (fs_world s) \<le> clk w" if "t_createPacket (fj_tracer J) (fs_world s) = (r, w)" for r w
    using ticks that unfolding ticking_def by (metis snd_conv)
  with R_collect inv show ?thesis
    by (fastforce simp: patient_def gave_up_def receiver_step_def Let_def
        split: sum.splits prod.splits)
qed (use inv in \<open>simp_all add: receiver_step_def\<close>)

lemma reach_patient:
  assumes "fast_reach J (Fast_start J old buf w) s" "ticking (fj_tracer J) clk"
  shows "patient J clk (clk w) s"
  using assms
proof (induction rule: fast_reach.induct)
  case start
  show ?case by (simp add: patient_def Fast_start_def)
next
  case (step t u)
  then show ?case
    by (auto elim!: fast_stepE intro: sender_step_patient receiver_step_patient)
qed

text \<open>A run that ends before its time is over has the expected number of results.\<close>

lemma in_time_enough:
  assumes reach: "fast_reach J (Fast_start J old buf w) s" and out: "Fast_outcome s = Some (Inr res)"
    and ticks: "ticking (fj_tracer J) clk" and early: "clk (fs_world s) < clk w + longest J"
  shows "\<not> ucast (getCurrentSize (fs_results s))
      < expectedSize (fj_begin J) (fj_end J) (fj_retries J)"
proof -
  have "fs_receiver s = R_done res"
    using out by (auto simp: Fast_outcome_def split: receiver_pc.splits if_splits)
  with reach_patient [OF reach ticks] early show ?thesis
    by (simp add: patient_def gave_up_def)
qed

section \<open>The results of a run that has them all\<close>

lemma ascending_interval:
  assumes asc: "ascending m" and keys: "\<And>t. t \<in> fst ` set m \<longleftrightarrow> lo \<le> t \<and> t \<le> hi"
  shows "map (\<lambda>kv. unat (fst kv)) m = [unat lo..<Suc (unat hi)]"
proof (rule strict_sorted_equal)
  show "sorted_wrt (<) (map (\<lambda>kv. unat (fst kv)) m)"
    using asc by (simp add: ascending_def sorted_wrt_map word_less_nat_alt)
  have "n \<in> unat ` {lo..hi}" if "unat lo \<le> n" "n \<le> unat hi" for n
  proof
    have "n < 2 ^ 32" using that(2) unsigned_less [of hi, where 'a = nat] by simp
    then show "n = unat (of_nat n :: u32)" by (simp add: unat_of_nat)
    with that show "of_nat n \<in> {lo..hi}" by (simp add: word_le_nat_alt)
  qed
  then have "unat ` {lo..hi} = {unat lo..unat hi}" by (auto simp: word_le_nat_alt)
  moreover have "fst ` set m = {lo..hi}" by (rule set_eqI) (simp only: keys atLeastAtMost_iff)
  ultimately have "unat ` fst ` set m = {unat lo..unat hi}" by simp
  then show "set (map (\<lambda>kv. unat (fst kv)) m) = set [unat lo..<Suc (unat hi)]"
    by (simp only: set_map image_image set_upt atLeastLessThanSuc_atLeastAtMost)
qed (rule sorted_wrt_upt)

lemma cut_at_target_last:
  assumes "results = cut_at_target target results @ rest" "rest \<noteq> []"
  shows "target_seen target (last (cut_at_target target results))"
proof (cases "dropWhile (\<lambda>r. \<not> target_seen target r) results")
  case Nil
  then have "cut_at_target target results = results"
    by (metis append_Nil2 cut_at_target_def take_Nil takeWhile_dropWhile_id)
  with assms show ?thesis by (metis append_self_conv)
next
  case (Cons r rs)
  then have "target_seen target r" by (metis hd_dropWhile list.distinct(1) list.sel(1))
  with Cons show ?thesis by (simp add: cut_at_target_def)
qed

lemma cut_at_target_Nil: "cut_at_target target xs = [] \<longleftrightarrow> xs = []"
  by (cases xs) (simp_all add: cut_at_target_def)

lemma interval_prefix:
  assumes "map f (xs @ ys) = [a..<b]"
  shows "map f xs = [a..<a + length xs] \<and> length xs + length ys = b - a"
proof -
  have len: "length xs + length ys = b - a"
    using arg_cong [OF assms, of length] by (simp del: upt_Suc)
  have "map f xs = take (length xs) [a..<b]"
    using assms by (metis append_eq_conv_conj length_map map_append)
  moreover have "a + length xs \<le> b" if "xs \<noteq> []" using that len by (cases "a \<le> b") auto
  ultimately show ?thesis using len by (cases "xs = []") (simp_all add: take_upt del: upt_Suc)
qed

lemma complete_results:
  assumes inv: "fast_inv J target [] s" and out: "Fast_outcome s = Some (Inr res)"
    and no: "no_overflow J" and retries: "fj_retries J \<noteq> 0"
    and enough: "\<not> ucast (getCurrentSize (fs_results s))
      < expectedSize (fj_begin J) (fj_end J) (fj_retries J)"
  shows "map (\<lambda>r. unat (tr_ttl r)) res = [unat (fj_begin J)..<unat (fj_begin J) + length res]
    \<and> (\<forall>r \<in> set res. length (tr_probeResults r) = unat (fj_retries J)) \<and> res \<noteq> []
    \<and> (unat (fj_begin J) + length res \<le> unat (fj_end J) \<longrightarrow> target_seen target (last res))"
proof -
  let ?m = "fs_results s"
  have full: "in_range J t \<longrightarrow> length (results_of ?m t) = unat (fj_retries J)" for t
    using complete_when_expected [OF inv no enough] by (simp add: in_range_def)
  have asc: "ascending ?m" using inv by (simp add: fast_inv_def books_ok_def)
  have positive: "0 < unat (fj_retries J)" using retries by (simp add: unat_gt_0)
  have inside: "in_range J k \<and> length rs = unat (fj_retries J)" if "(k, rs) \<in> set ?m" for k rs
    using fast_inv_entry [OF inv that] full [of k] ascending_key [OF asc that] by auto
  have "t \<in> fst ` set ?m" if "in_range J t" for t
    using full [of t] that positive results_of_missing [of t ?m] by force
  with inside have "t \<in> fst ` set ?m \<longleftrightarrow> fj_begin J \<le> t \<and> t \<le> fj_end J" for t
    by (force simp: in_range_def)
  note keys = ascending_interval [OF asc this]
  from out have "fs_receiver s = R_done res"
    by (auto simp: Fast_outcome_def split: receiver_pc.splits if_splits)
  with inv have res: "res = cut_at_target target (collect_results ?m)" by (simp add: fast_inv_def)
  then obtain rest where prefix: "collect_results ?m = res @ rest"
    using cut_at_target_prefix by metis
  have whole: "collect_results ?m = cut_at_target target (collect_results ?m) @ rest"
    by (metis prefix res)
  note entries = collect_results_sorted [OF asc]
  have "map (\<lambda>r. unat (tr_ttl r)) (collect_results ?m) = map (\<lambda>kv. unat (fst kv)) ?m"
    by (simp add: entries split_beta)
  with keys prefix
  have "map (\<lambda>r. unat (tr_ttl r)) (res @ rest) = [unat (fj_begin J)..<Suc (unat (fj_end J))]"
    by simp
  from interval_prefix [OF this]
  have len: "length res + length rest = Suc (unat (fj_end J)) - unat (fj_begin J)"
    and "map (\<lambda>r. unat (tr_ttl r)) res = [unat (fj_begin J)..<unat (fj_begin J) + length res]"
    by (simp_all del: upt_Suc)
  moreover have "length (tr_probeResults r) = unat (fj_retries J)" if "r \<in> set res" for r
  proof -
    from that prefix have "r \<in> set (collect_results ?m)" by simp
    with inside show ?thesis by (auto simp: entries)
  qed
  moreover have "target_seen target (last res)"
    if "unat (fj_begin J) + length res \<le> unat (fj_end J)"
  proof -
    have "rest \<noteq> []" using that len by auto
    show ?thesis unfolding res by (rule cut_at_target_last [OF whole \<open>rest \<noteq> []\<close>])
  qed
  moreover have "res \<noteq> []"
    using len no prefix unfolding res cut_at_target_Nil
    by (auto simp: no_overflow_def word_le_nat_alt)
  ultimately show ?thesis by blast
qed

end
