(* ===== verification/ObjectClaims.thy ===== *)
theory ObjectClaims
  imports FastClaims FastObject FastProgress
begin

text \<open>
  The properties of \<open>FastTraceroute\<close> as an object that is used more than once, of a run that ends
  before its time is over, and of a sending thread that fails.
\<close>

section \<open>The life of the object\<close>

text \<open>
  The type of the object. Whatever calls are made on it, the tracer keeps its collaborators and
  a buffer of 4096 bytes, holds only well-formed probes to the destination of its factory, and never
  sets \<open>mTarget\<close>; the next call, on whatever range, leaves such an object again and does not access
  memory out of bounds.
\<close>

lemma fast_object_type:
  assumes "fast_object (tracer_of os ds f) obj"
  shows "object_ok (tracer_of os ds f) (factory_destination f) obj
    \<and> (Fast_call obj J w out obj' w' \<longrightarrow> out \<noteq> Inl Fault
        \<and> object_ok (tracer_of os ds f) (factory_destination f) obj')"
proof -
  note ports = real.tracer_ports_axioms [of os ds f]
  have ok: "object_ok (tracer_of os ds f) (factory_destination f) obj"
    using assms ports by (rule fast_object_ok)
  with fast_call_safe [OF assms ports] object_ok_call [OF _ ok ports] show ?thesis by blast
qed

lemma fast_object_type_example:
  "object_ok (tracer_of scripted udp_sender udp_factory) server6
     (FastTraceroute_ctor (tracer_of scripted udp_sender udp_factory))"
  using fast_object_type [OF fast_object.constructed, of scripted udp_sender udp_factory] by simp

text \<open>
  What a call returns on an object that may have been used before: results by strictly ascending
  TTL, each with at least one probe result. A TTL outside the range of the call can appear, for the
  probes an earlier call has left in the list, and these count on top of the retries of a TTL; their
  number is the only bound. Every probe result is a failure or an accepted answer for a probe to the
  destination, and only the last TTL can contain the destination.
\<close>

lemma fast_object_calls:
  assumes "fast_object (tracer_of os ds f) obj" "Fast_call obj J w (Inr res) obj' w'" "fj_end J \<noteq> - 1"
  shows "sorted_wrt (<) (map tr_ttl res)
    \<and> (\<forall>r \<in> set res. (in_range J (tr_ttl r) \<or> 0 < leftover (mPacketsToBeValidated obj) (tr_ttl r))
        \<and> tr_probeResults r \<noteq> []
        \<and> length (tr_probeResults r) \<le> (if in_range J (tr_ttl r) then unat (fj_retries J) else 0)
            + leftover (mPacketsToBeValidated obj) (tr_ttl r)
        \<and> (\<forall>pr \<in> set (tr_probeResults r). settled_ok (factory_destination f) pr))
    \<and> (\<forall>r \<in> set (butlast res). \<not> target_seen (factory_destination f) r)"
proof -
  note result = fast_call_result [OF assms(1) real.tracer_ports_axioms assms(2,3)]
  show ?thesis
    by (rule conjI [OF result(1) conjI [OF ballI ballI]]) (erule result(2), erule result(3))
qed

text \<open>Two calls on one object: the first range gets no answer, the second one is another range.\<close>

definition fast_of :: "world FastTraceroute" where
  "fast_of = FastTraceroute_ctor (tracer_of scripted udp_sender udp_factory)"

definition call_job :: "u32 \<Rightarrow> world fast_job" where
  "call_job ttl = fast_job_of scripted udp_sender udp_factory ttl ttl 1 20000"

definition first_call :: "byte list \<Rightarrow> world fast_state" where
  "first_call buf = fast_run (call_job 1) (replicate 6 False @ replicate 4 True)
     (Fast_start (call_job 1) [] buf (start_world []))"

definition second_call :: "byte list \<Rightarrow> world fast_state" where
  "second_call buf = fast_run (call_job 5) (replicate 6 False @ replicate 4 True)
     (Fast_start (call_job 5) (fs_pending (first_call buf)) (fs_buffer (first_call buf))
       (fs_world (first_call buf)))"

definition stale_results :: "TracerouteResult list" where
  "stale_results = [\<lparr>tr_ttl = 1, tr_probeResults = [failedProbe 20000]\<rparr>]"

definition sight :: "world fast_state \<Rightarrow> (exn + TracerouteResult list) option \<times> u32 list" where
  "sight s = (Fast_outcome s, map pv_ttl (fs_pending s))"

lemma call_sights:
  "sight (first_call buf) = (Some (Inr []), [1])"
  "sight (second_call buf) = (Some (Inr stale_results), [5])"
  by (code_simp, code_simp)

lemma call_outcomes:
  "Fast_outcome (first_call buf) = Some (Inr [])"
  "Fast_outcome (second_call buf) = Some (Inr stale_results)"
  "map pv_ttl (fs_pending (second_call buf)) = [5]"
  using call_sights [of buf] by (simp_all add: sight_def)

lemma call_job_on: "ft_base obj = ft_base fast_of \<Longrightarrow> job_on obj ttl ttl 1 20000 = call_job ttl"
  by (simp add: job_on_def call_job_def fast_job_of_def fast_of_def FastTraceroute_ctor_def)

lemma two_calls:
  defines "obj \<equiv> left_by fast_of (first_call initial_buffer)"
  shows "Fast_call fast_of (call_job 1) (start_world []) (Inr []) obj
      (fs_world (first_call initial_buffer))"
    and "Fast_call obj (call_job 5) (fs_world (first_call initial_buffer)) (Inr stale_results)
      (left_by obj (second_call initial_buffer)) (fs_world (second_call initial_buffer))"
proof -
  have begin1: "begin_on fast_of (call_job 1) (start_world [])
      = Fast_start (call_job 1) [] initial_buffer (start_world [])"
    by (simp add: begin_on_def fast_of_def FastTraceroute_ctor_def)
  have begin2: "begin_on obj (call_job 5) (fs_world (first_call initial_buffer))
      = Fast_start (call_job 5) (fs_pending (first_call initial_buffer))
          (fs_buffer (first_call initial_buffer)) (fs_world (first_call initial_buffer))"
    by (simp add: begin_on_def obj_def left_by_def)
  show "Fast_call fast_of (call_job 1) (start_world []) (Inr []) obj
      (fs_world (first_call initial_buffer))"
    unfolding obj_def
    by (rule Fast_call.returns [OF call_job_on [symmetric], OF refl _ call_outcomes(1)])
      (simp only: begin1 first_call_def fast_run_reach fast_reach.start)
  have "ft_base obj = ft_base fast_of" by (simp add: obj_def left_by_def)
  then show "Fast_call obj (call_job 5) (fs_world (first_call initial_buffer)) (Inr stale_results)
      (left_by obj (second_call initial_buffer)) (fs_world (second_call initial_buffer))"
    by (rule Fast_call.returns [OF call_job_on [symmetric] _ call_outcomes(2)])
      (simp only: begin2 second_call_def fast_run_reach fast_reach.start)
qed

lemma fast_object_calls_example:
  "sorted_wrt (<) (map tr_ttl stale_results)
   \<and> 0 < leftover (mPacketsToBeValidated (left_by fast_of (first_call initial_buffer))) 1"
proof -
  let ?obj = "left_by fast_of (first_call initial_buffer)"
  have "fast_object (tracer_of scripted udp_sender udp_factory) ?obj"
    using fast_object.used [OF fast_object.constructed two_calls(1) [unfolded fast_of_def]]
    by (simp add: fast_of_def)
  from fast_object_calls [OF this two_calls(2)] show ?thesis
    by (simp add: call_job_def stale_results_def in_range_def word_le_nat_alt)
qed

text \<open>
  C36. A probe of an earlier call is reported for a later one. A call for TTL 1 that gets no answer
  returns nothing and leaves its probe in the list; a following call for TTL 5 on the same object can
  return a result for TTL 1 only, because that probe's failure is counted as the one result it waits
  for, and leaves its own probe to the next call.
\<close>

theorem stale_probe_reported:
  "\<exists>obj w obj' w'.
     Fast_call fast_of (job_on fast_of 1 1 1 20000) (start_world []) (Inr []) obj w
   \<and> Fast_call obj (job_on obj 5 5 1 20000) w
       (Inr [\<lparr>tr_ttl = 1, tr_probeResults = [failedProbe 20000]\<rparr>]) obj' w'
   \<and> map pv_ttl (mPacketsToBeValidated obj') = [5]"
proof -
  let ?obj = "left_by fast_of (first_call initial_buffer)"
  let ?obj' = "left_by ?obj (second_call initial_buffer)"
  have "job_on fast_of 1 1 1 20000 = call_job 1" "job_on ?obj 5 5 1 20000 = call_job 5"
    by (simp_all add: call_job_on left_by_def)
  moreover have "map pv_ttl (mPacketsToBeValidated ?obj') = [5]"
    using call_outcomes(3) by (simp add: left_by_def)
  ultimately show ?thesis
    using two_calls unfolding stale_results_def by metis
qed

section \<open>A run that ends in time\<close>

text \<open>
  A fast tracer that has returned before the time it gives itself was over has an answer or a
  failure for every probe it was asked to send: the TTLs are consecutive from the first one on, each
  has exactly as many probe results as there were to be retries, no probe is waiting any more, and when
  the results end below the last TTL that was asked for, they end with the destination.
\<close>

lemma fast_in_time:
  assumes "steady_os os clk"
    and "fast_reach (fast_job_of os ds f ttlBegin ttlEnd retries timeout)
      (Fast_start (fast_job_of os ds f ttlBegin ttlEnd retries timeout) [] buf w) s"
    and "Fast_outcome s = Some (Inr res)" "ttlBegin \<le> ttlEnd" "ttlEnd \<noteq> - 1" "retries \<noteq> 0"
    and "(unat ttlEnd - unat ttlBegin + 1) * unat retries < 2 ^ 32"
    and "clk (fs_world s)
      < clk w + expectedMaxTimeTaken timeout (expectedSize ttlBegin ttlEnd retries) * 1000"
  shows "map (\<lambda>r. unat (tr_ttl r)) res = [unat ttlBegin..<unat ttlBegin + length res]
    \<and> (\<forall>r \<in> set res. length (tr_probeResults r) = unat retries) \<and> res \<noteq> [] \<and> fs_pending s = []
    \<and> (unat ttlBegin + length res \<le> unat ttlEnd \<longrightarrow> target_seen (factory_destination f) (last res))"
proof -
  let ?J = "fast_job_of os ds f ttlBegin ttlEnd retries timeout"
  have ticks: "ticking (fj_tracer ?J) clk" using steady_ticking [OF assms(1)] by simp
  have no: "no_overflow ?J" using assms(4,7) by (simp add: no_overflow_def)
  have early: "clk (fs_world s) < clk w + longest ?J" using assms(8) by (simp add: longest_def)
  have inv: "fast_inv ?J (factory_destination f) [] s"
    using reach_inv [OF assms(2) real_ports] assms(5) by simp
  note enough = in_time_enough [OF assms(2,3) ticks early]
  from complete_results [OF inv assms(3) no _ enough] complete_when_expected [OF inv no enough] assms(6)
  show ?thesis by simp
qed

lemma fast_in_time_example:
  "fs_pending fast_end = [] \<and> list_all (\<lambda>r. length (tr_probeResults r) = 1) fast_sample_results"
proof -
  have "wd_time (fs_world fast_end) < wd_time two_hops
      + expectedMaxTimeTaken 20000 (expectedSize 1 2 1) * 1000"
    by code_simp
  then show ?thesis
    using fast_in_time [OF scripted_steady fast_end_reached [unfolded fast_sample_def]
        fast_end_outcome]
    by (simp add: list_all_iff)
qed

section \<open>A sending thread that fails\<close>

text \<open>
  C25. When no packet can be sent, the sending thread of the fast tracer ends with an exception that
  nobody looks at: a call that returns gives an empty list, as if there had been nothing to report.
\<close>

theorem fast_lost_exception:
  assumes "\<forall>p ttl t v. fst (trySending os ds p ttl t v) \<noteq> Inr True"
    and "fast_reach (fast_job_of os ds f ttlBegin ttlEnd retries timeout)
      (Fast_start (fast_job_of os ds f ttlBegin ttlEnd retries timeout) [] buf w) s"
    and "Fast_outcome s = Some (Inr res)" "ttlBegin \<le> ttlEnd" "retries \<noteq> 0"
  shows "res = [] \<and> (\<exists>e. fs_sender s = S_threw e)"
proof -
  have "never_sends (fj_tracer (fast_job_of os ds f ttlBegin ttlEnd retries timeout))"
    using assms(1) by (simp add: never_sends_def tracer_of_def)
  from reach_unsent [OF assms(2) this] assms(3-5) show ?thesis
    by (auto simp: unsent_def Fast_outcome_def split: receiver_pc.splits if_splits)
qed

definition mute :: "world os" where
  "mute = scripted\<lparr>sys_sendto := (\<lambda>fd d a n w. (0, w))\<rparr>"

definition mute_end :: "world fast_state" where
  "mute_end = fast_run (fast_job_of mute udp_sender udp_factory 1 1 1 20000)
     (True # replicate 6 False)
     (Fast_start (fast_job_of mute udp_sender udp_factory 1 1 1 20000) [] [] (start_world []))"

lemma mute_never_sends: "fst (trySending mute ds p ttl t v) \<noteq> Inr True"
  by (auto simp: trySending_def setTtl_def io_simps Let_def mute_def split: prod.splits sum.splits)

theorem fast_lost_exception_witness:
  "Fast_outcome mute_end = Some (Inr []) \<and> (\<exists>e. fs_sender mute_end = S_threw e)"
proof -
  have "(case Fast_outcome mute_end of Some (Inr res) \<Rightarrow> True | _ \<Rightarrow> False)" by code_simp
  then obtain res where "Fast_outcome mute_end = Some (Inr res)"
    by (auto split: option.splits sum.splits)
  moreover have "fast_reach (fast_job_of mute udp_sender udp_factory 1 1 1 20000)
      (Fast_start (fast_job_of mute udp_sender udp_factory 1 1 1 20000) [] [] (start_world []))
      mute_end"
    unfolding mute_end_def by (rule fast_run_reach) (rule fast_reach.start)
  ultimately show ?thesis
    using fast_lost_exception [of mute udp_sender udp_factory 1 1 1 20000 "[]" "start_world []"
        mute_end res] mute_never_sends by simp
qed

end
