(* ===== verification/Syscalls.thy ===== *)
theory Syscalls
  imports Tracer
begin

text \<open>
  System calls one at a time. An operation of the program is a function of the system it runs on; run
  on the answers its calls have got so far, it either asks for the next call or returns. That is a
  thread between two of its system calls: what it is about to do depends on the answers alone, and the
  world may have changed in the meantime. The lemmas show that an operation which nobody interrupts
  does what its definition says.
\<close>

section \<open>Requests and answers\<close>

datatype request =
    Q_rand
  | Q_uninit16
  | Q_uninit32
  | Q_now
  | Q_socket int int int
  | Q_setsockopt int int int "byte list"
  | Q_bind int sockaddr_storage nat
  | Q_connect int sockaddr_storage nat
  | Q_getsockname int u32
  | Q_close int
  | Q_poll "pollfd list" int
  | Q_sendto int "byte list" sockaddr_storage nat
  | Q_recvfrom int nat

datatype answer =
    A_nat nat
  | A_u16 u16
  | A_u32 u32
  | A_int int
  | A_name "int \<times> sockaddr_storage"
  | A_poll "int \<times> u16 list"
  | A_recv "int \<times> byte list \<times> sockaddr_storage"

text \<open>An answer comes with the value of \<open>errno\<close> behind the call.\<close>

type_synonym reply = "answer \<times> int"

definition replied :: "'w os \<Rightarrow> ('a \<Rightarrow> answer) \<Rightarrow> 'a \<times> 'w \<Rightarrow> reply \<times> 'w" where
  "replied os wrap = (\<lambda>(x, w). ((wrap x, sys_errno os w), w))"

fun perform :: "'w os \<Rightarrow> request \<Rightarrow> 'w \<Rightarrow> reply \<times> 'w" where
  "perform os Q_rand w = replied os A_nat (sys_rand os w)"
| "perform os Q_uninit16 w = replied os A_u16 (sys_uninit16 os w)"
| "perform os Q_uninit32 w = replied os A_u32 (sys_uninit32 os w)"
| "perform os Q_now w = replied os A_int (sys_now os w)"
| "perform os (Q_socket d ty p) w = replied os A_int (sys_socket os d ty p w)"
| "perform os (Q_setsockopt fd l opt v) w = replied os A_int (sys_setsockopt os fd l opt v w)"
| "perform os (Q_bind fd a n) w = replied os A_int (sys_bind os fd a n w)"
| "perform os (Q_connect fd a n) w = replied os A_int (sys_connect os fd a n w)"
| "perform os (Q_getsockname fd n) w = replied os A_name (sys_getsockname os fd n w)"
| "perform os (Q_close fd) w = replied os A_int (sys_close os fd w)"
| "perform os (Q_poll fds t) w = replied os A_poll (sys_poll os fds t w)"
| "perform os (Q_sendto fd d a n) w = replied os A_int (sys_sendto os fd d a n w)"
| "perform os (Q_recvfrom fd n) w = replied os A_recv (sys_recvfrom os fd n w)"

section \<open>The system of the answers so far\<close>

record replay =
  rp_answers :: "reply list"
  rp_errno :: int
  rp_asked :: "request option"

text \<open>
  A call takes the next answer. When there is none, the call is the request of the operation, unless
  there is one already; what the operation does from there on is of no interest.
\<close>

definition ask :: "request \<Rightarrow> (answer \<Rightarrow> 'a) \<Rightarrow> replay \<Rightarrow> 'a \<times> replay" where
  "ask q read r =
     (case rp_answers r of
        (a, e) # rest \<Rightarrow> (read a, r\<lparr>rp_answers := rest, rp_errno := e\<rparr>)
      | [] \<Rightarrow> (read (A_int 0),
          r\<lparr>rp_asked := (case rp_asked r of None \<Rightarrow> Some q | Some q' \<Rightarrow> Some q')\<rparr>))"

definition get_nat :: "answer \<Rightarrow> nat" where
  "get_nat a = (case a of A_nat n \<Rightarrow> n | _ \<Rightarrow> 0)"

definition get_u16 :: "answer \<Rightarrow> u16" where
  "get_u16 a = (case a of A_u16 n \<Rightarrow> n | _ \<Rightarrow> 0)"

definition get_u32 :: "answer \<Rightarrow> u32" where
  "get_u32 a = (case a of A_u32 n \<Rightarrow> n | _ \<Rightarrow> 0)"

definition get_int :: "answer \<Rightarrow> int" where
  "get_int a = (case a of A_int n \<Rightarrow> n | _ \<Rightarrow> 0)"

definition no_address :: sockaddr_storage where
  "no_address = \<lparr>ss_family = 0, ss_port = 0, ss_word4 = 0, ss_word8 = 0, ss_word12 = 0,
                 ss_word16 = 0, ss_word20 = 0, ss_word24 = 0\<rparr>"

definition get_name :: "answer \<Rightarrow> int \<times> sockaddr_storage" where
  "get_name a = (case a of A_name x \<Rightarrow> x | _ \<Rightarrow> (0, no_address))"

definition get_poll :: "answer \<Rightarrow> int \<times> u16 list" where
  "get_poll a = (case a of A_poll x \<Rightarrow> x | _ \<Rightarrow> (0, []))"

definition get_recv :: "answer \<Rightarrow> int \<times> byte list \<times> sockaddr_storage" where
  "get_recv a = (case a of A_recv x \<Rightarrow> x | _ \<Rightarrow> (0, [], no_address))"

definition replaying :: "'w os \<Rightarrow> replay os" where
  "replaying os =
     \<lparr>sys_rand = ask Q_rand get_nat, sys_uninit16 = ask Q_uninit16 get_u16,
      sys_uninit32 = ask Q_uninit32 get_u32, sys_now = ask Q_now get_int,
      sys_errno = rp_errno, sys_strerror = sys_strerror os, sys_resolver = sys_resolver os,
      sys_socket = (\<lambda>d ty p. ask (Q_socket d ty p) get_int),
      sys_setsockopt = (\<lambda>fd l opt v. ask (Q_setsockopt fd l opt v) get_int),
      sys_bind = (\<lambda>fd a n. ask (Q_bind fd a n) get_int),
      sys_connect = (\<lambda>fd a n. ask (Q_connect fd a n) get_int),
      sys_getsockname = (\<lambda>fd n. ask (Q_getsockname fd n) get_name),
      sys_close = (\<lambda>fd. ask (Q_close fd) get_int),
      sys_poll = (\<lambda>fds t. ask (Q_poll fds t) get_poll),
      sys_sendto = (\<lambda>fd d a n. ask (Q_sendto fd d a n) get_int),
      sys_recvfrom = (\<lambda>fd n. ask (Q_recvfrom fd n) get_recv)\<rparr>"

definition given :: "reply list \<Rightarrow> int \<Rightarrow> replay" where
  "given as e = \<lparr>rp_answers = as, rp_errno = e, rp_asked = None\<rparr>"

section \<open>Operations that are not interrupted\<close>

fun performs :: "'w os \<Rightarrow> 'w \<Rightarrow> (request \<times> reply) list \<Rightarrow> 'w \<Rightarrow> bool" where
  "performs os w [] w' \<longleftrightarrow> w' = w"
| "performs os w ((q, a) # tr) w' \<longleftrightarrow>
     fst (perform os q w) = a \<and> performs os (snd (perform os q w)) tr w'"

definition last_errno :: "int \<Rightarrow> (request \<times> reply) list \<Rightarrow> int" where
  "last_errno e tr = (if tr = [] then e else snd (snd (last tr)))"

text \<open>Once it has asked, an operation that goes on asks nothing else.\<close>

definition stuck :: "(replay \<Rightarrow> 'a \<times> replay) \<Rightarrow> bool" where
  "stuck g \<longleftrightarrow> (\<forall>r q. rp_answers r = [] \<longrightarrow> rp_asked r = Some q \<longrightarrow>
     rp_answers (snd (g r)) = [] \<and> rp_asked (snd (g r)) = Some q)"

text \<open>
  \<open>follows_trace g e tr x\<close>: given the answers of the trace, \<open>g\<close> asks for its calls one after the other
  and then returns \<open>x\<close>. \<open>replays b os g f\<close>: \<open>g\<close> does on the answers what \<open>f\<close> does on the system; with
  \<open>b\<close> the operation may read \<open>errno\<close> before its first call.
\<close>

definition follows_trace ::
    "(replay \<Rightarrow> 'a \<times> replay) \<Rightarrow> int \<Rightarrow> (request \<times> reply) list \<Rightarrow> 'a \<Rightarrow> bool" where
  "follows_trace g e tr x \<longleftrightarrow>
     (\<forall>rest. g (given (map snd tr @ rest) e) = (x, given rest (last_errno e tr)))
   \<and> (\<forall>pre q a post. tr = pre @ (q, a) # post \<longrightarrow>
        rp_asked (snd (g (given (map snd pre) e))) = Some q
        \<and> rp_answers (snd (g (given (map snd pre) e))) = [])"

definition replays ::
    "bool \<Rightarrow> 'w os \<Rightarrow> (replay \<Rightarrow> 'a \<times> replay) \<Rightarrow> ('w \<Rightarrow> 'a \<times> 'w) \<Rightarrow> bool" where
  "replays b os g f \<longleftrightarrow> stuck g \<and> (\<forall>w e. (b \<longrightarrow> e = sys_errno os w) \<longrightarrow>
     (\<exists>tr. performs os w tr (snd (f w)) \<and> follows_trace g e tr (fst (f w))))"

named_theorems replay_intros \<open>operations that replay\<close>

lemma performs_append:
  "performs os w (tr @ tr') w' \<longleftrightarrow> (\<exists>v. performs os w tr v \<and> performs os v tr' w')"
  by (induction os w tr w' rule: performs.induct) auto

lemma perform_errno: "perform os q w = (a, v) \<Longrightarrow> snd a = sys_errno os v"
  by (cases q) (auto simp: replied_def split: prod.splits)

lemma performs_errno: "performs os w tr w' \<Longrightarrow> tr \<noteq> [] \<Longrightarrow> last_errno e tr = sys_errno os w'"
proof (induction os w tr w' rule: performs.induct)
  case (2 os w q a tr w')
  then show ?case
    using perform_errno [of os q w a "snd (perform os q w)"]
    by (cases "tr = []") (auto simp: last_errno_def prod_eq_iff)
qed simp

lemma last_errno_append: "last_errno (last_errno e tr) tr' = last_errno e (tr @ tr')"
  by (simp add: last_errno_def)

lemma replays_weaken: "replays False os g f \<Longrightarrow> replays True os g f"
  by (auto simp: replays_def)

section \<open>Closure\<close>

text \<open>Sequential composition without exceptions, of which \<open>bindE\<close> is a special case.\<close>

definition andThen :: "('w \<Rightarrow> 'a \<times> 'w) \<Rightarrow> ('a \<Rightarrow> 'w \<Rightarrow> 'b \<times> 'w) \<Rightarrow> 'w \<Rightarrow> 'b \<times> 'w" where
  "andThen m k = (\<lambda>w. case m w of (x, w') \<Rightarrow> k x w')"

lemma bindE_andThen: "bindE m k = andThen m (\<lambda>r. case r of Inl e \<Rightarrow> throwE e | Inr x \<Rightarrow> k x)"
  by (auto simp: bindE_def andThen_def throwE_def fun_eq_iff split: prod.splits sum.splits)

text \<open>An operation that cannot do without a system call.\<close>

definition asking :: "(replay \<Rightarrow> 'a \<times> replay) \<Rightarrow> bool" where
  "asking g \<longleftrightarrow> (\<forall>e. rp_asked (snd (g (given [] e))) \<noteq> None)"

lemma asking_trace: "asking g \<Longrightarrow> follows_trace g e tr x \<Longrightarrow> tr \<noteq> []"
proof
  assume "asking g" "follows_trace g e tr x" "tr = []"
  then have "g (given [] e) = (x, given [] e)"
    by (auto simp: follows_trace_def last_errno_def)
  with \<open>asking g\<close> show False unfolding asking_def by (metis given_def replay.select_convs(3) snd_conv)
qed

lemma stuck_andThen: "stuck g \<Longrightarrow> (\<And>x. stuck (k x)) \<Longrightarrow> stuck (andThen g k)"
  unfolding stuck_def andThen_def by (auto split: prod.splits)

lemma follows_trace_andThen:
  assumes g: "follows_trace g e tr x" and k: "follows_trace (k x) (last_errno e tr) tr' y"
    and stuck: "\<And>x. stuck (k x)"
  shows "follows_trace (andThen g k) e (tr @ tr') y"
  unfolding follows_trace_def
proof (intro conjI allI impI)
  show "andThen g k (given (map snd (tr @ tr') @ rest) e) = (y, given rest (last_errno e (tr @ tr')))"
    for rest
    using g k by (simp add: follows_trace_def andThen_def last_errno_append)
next
  fix pre q a post
  assume "tr @ tr' = pre @ (q, a) # post"
  then consider (first) us where "tr = pre @ (q, a) # us"
    | (second) us where "pre = tr @ us" "tr' = us @ (q, a) # post"
    by (auto simp: append_eq_append_conv2 append_eq_Cons_conv)
  then have "rp_asked (snd (andThen g k (given (map snd pre) e))) = Some q
      \<and> rp_answers (snd (andThen g k (given (map snd pre) e))) = []"
  proof cases
    case first
    then have "rp_asked (snd (g (given (map snd pre) e))) = Some q"
      "rp_answers (snd (g (given (map snd pre) e))) = []"
      using g by (auto simp: follows_trace_def)
    with stuck show ?thesis by (auto simp: andThen_def stuck_def split: prod.splits)
  next
    case second
    with g k show ?thesis by (simp add: follows_trace_def andThen_def)
  qed
  then show "rp_asked (snd (andThen g k (given (map snd pre) e))) = Some q"
    "rp_answers (snd (andThen g k (given (map snd pre) e))) = []"
    by simp_all
qed

lemma replays_andThen:
  assumes g: "replays b os g f" and k: "\<And>x. replays c os (k x) (l x)"
    and sync: "c \<Longrightarrow> b \<or> asking g"
  shows "replays b os (andThen g k) (andThen f l)"
  unfolding replays_def
proof (intro conjI allI impI)
  have stuck: "stuck (k x)" for x using k by (simp add: replays_def)
  show "stuck (andThen g k)" using g stuck by (auto simp: replays_def intro: stuck_andThen)
  fix w e
  assume start: "b \<longrightarrow> e = sys_errno os w"
  obtain x v where f: "f w = (x, v)" by fastforce
  with g start obtain tr where tr: "performs os w tr v" "follows_trace g e tr x"
    unfolding replays_def by (metis fst_conv snd_conv)
  have "last_errno e tr = sys_errno os v" if c
  proof (cases "tr = []")
    case True
    with tr asking_trace [of g e tr x] sync [OF that] start show ?thesis
      by (auto simp: last_errno_def)
  next
    case False
    show ?thesis by (rule performs_errno [OF tr(1) False])
  qed
  then obtain tr' where tr': "performs os v tr' (snd (l x v))"
    "follows_trace (k x) (last_errno e tr) tr' (fst (l x v))"
    using k [of x] unfolding replays_def by blast
  have "andThen f l w = l x v" by (simp add: andThen_def f)
  moreover have "performs os w (tr @ tr') (snd (l x v))"
    using tr(1) tr'(1) by (auto simp: performs_append)
  ultimately show "\<exists>tr. performs os w tr (snd (andThen f l w))
      \<and> follows_trace (andThen g k) e tr (fst (andThen f l w))"
    using follows_trace_andThen [of g e tr x k tr' "fst (l x v)"] tr(2) tr'(2) stuck by auto
qed

lemma replays_unit [replay_intros]:
  "replays b os (\<lambda>r. (x, r)) (\<lambda>w. (x, w))"
  by (auto simp: replays_def stuck_def follows_trace_def last_errno_def intro!: exI [of _ "[]"])

lemma replays_basic [replay_intros]:
  "replays b os (returnE x) (returnE x)" "replays b os (throwE ex) (throwE ex)"
  "replays b os (pureE m) (pureE m)"
  using replays_unit by (simp_all add: returnE_def throwE_def pureE_def)

lemma replays_bindE [replay_intros]:
  assumes "replays b os g f" "\<And>x. replays b os (k x) (l x)"
  shows "replays b os (bindE g k) (bindE f l)"
  unfolding bindE_andThen
  using assms by (intro replays_andThen [where c = b])
    (auto intro: replay_intros split: sum.splits)

lemma replays_cases [replay_intros]:
  "replays b os g f \<Longrightarrow> replays b os g' f' \<Longrightarrow> replays b os (if c then g else g') (if c then f else f')"
  "replays b os g f \<Longrightarrow> (\<And>x. replays b os (k x) (l x)) \<Longrightarrow>
     replays b os (case y of None \<Rightarrow> g | Some x \<Rightarrow> k x) (case y of None \<Rightarrow> f | Some x \<Rightarrow> l x)"
  "(\<And>x z. replays b os (k2 x z) (l2 x z)) \<Longrightarrow>
     replays b os (case p of (x, z) \<Rightarrow> k2 x z) (case p of (x, z) \<Rightarrow> l2 x z)"
  by (simp_all split: option.split prod.split)

section \<open>System calls\<close>

definition calls :: "'w os \<Rightarrow> (replay \<Rightarrow> 'a \<times> replay) \<Rightarrow> ('w \<Rightarrow> 'a \<times> 'w) \<Rightarrow> bool" where
  "calls os g f \<longleftrightarrow> (\<exists>q read. g = ask q read \<and>
     (\<forall>w. read (fst (fst (perform os q w))) = fst (f w) \<and> snd (perform os q w) = snd (f w)))"

lemma calls_intros:
  "calls os (sys_rand (replaying os)) (sys_rand os)"
  "calls os (sys_uninit16 (replaying os)) (sys_uninit16 os)"
  "calls os (sys_now (replaying os)) (sys_now os)"
  "calls os (sys_setsockopt (replaying os) fd l opt v) (sys_setsockopt os fd l opt v)"
  "calls os (sys_poll (replaying os) fds t) (sys_poll os fds t)"
  "calls os (sys_sendto (replaying os) fd d a n) (sys_sendto os fd d a n)"
  "calls os (sys_recvfrom (replaying os) fd n) (sys_recvfrom os fd n)"
  by (force simp: calls_def replaying_def replied_def get_nat_def get_u16_def get_int_def
      get_poll_def get_recv_def split_beta)+

lemma calls_asking: "calls os g f \<Longrightarrow> asking g"
  by (auto simp: calls_def asking_def ask_def given_def)

lemma calls_replays:
  assumes "calls os g f"
  shows "replays b os g f"
proof -
  from assms obtain q read where g: "g = ask q read"
    and f: "\<And>w. read (fst (fst (perform os q w))) = fst (f w)"
      "\<And>w. snd (perform os q w) = snd (f w)"
    unfolding calls_def by blast
  have "stuck g" by (auto simp: g stuck_def ask_def)
  moreover have "\<exists>tr. performs os w tr (snd (f w)) \<and> follows_trace g e tr (fst (f w))" for w e
    by (rule exI [of _ "[(q, fst (perform os q w))]"])
      (auto simp: f [symmetric] g follows_trace_def ask_def given_def last_errno_def split_beta
        Cons_eq_append_conv)
  ultimately show ?thesis by (simp add: replays_def)
qed

lemmas call_replays [replay_intros] = calls_intros [THEN calls_replays]

lemma replays_callE [replay_intros]:
  assumes "replays b os g f"
  shows "replays b os (callE g) (callE f)"
proof -
  have call: "callE m = andThen m (\<lambda>x w. (Inr x, w))" for m :: "'x \<Rightarrow> 'y \<times> 'x"
    by (auto simp: callE_def andThen_def fun_eq_iff split: prod.splits)
  show ?thesis
    unfolding call by (rule replays_andThen [OF assms, where c = b]) (rule replays_unit, simp)
qed

text \<open>Behind a call \<open>errno\<close> is the system's.\<close>

lemma replays_bind_call:
  assumes "calls os g f" "\<And>x. replays True os (k x) (l x)"
  shows "replays b os (bindE (callE g) k) (bindE (callE f) l)"
proof -
  have "asking (callE g)" using calls_asking [OF assms(1)] by (simp add: asking_def callE_def)
  moreover have "replays b os (callE g) (callE f)"
    using assms(1) by (intro replays_callE calls_replays)
  ultimately show ?thesis
    unfolding bindE_andThen using assms(2)
    by (intro replays_andThen [where c = True]) (auto intro: replays_basic split: sum.splits)
qed

lemma replays_failE [replay_intros]:
  assumes "\<And>r w. rp_errno r = sys_errno os w \<Longrightarrow> msg' r = msg w"
  shows "replays True os (failE msg') (failE msg)"
  unfolding replays_def
proof (intro conjI allI impI)
  show "stuck (failE msg')" by (simp add: stuck_def failE_def)
  fix w e
  assume "True \<longrightarrow> e = sys_errno os w"
  then have "msg' (given as e) = msg w" for as by (intro assms) (simp add: given_def)
  then show "\<exists>tr. performs os w tr (snd (failE msg w)) \<and> follows_trace (failE msg') e tr (fst (failE msg w))"
    by (intro exI [of _ "[]"]) (simp add: follows_trace_def failE_def last_errno_def)
qed

lemma replaying_errno: "rp_errno r = sys_errno os w \<Longrightarrow>
    errno_string (replaying os) r = errno_string os w"
  by (simp add: errno_string_def replaying_def)

section \<open>The program's operations\<close>

text \<open>
  None of them reads \<open>errno\<close> before its first call, so each replays from whatever value an earlier
  call, of either thread, has left.
\<close>

lemma Poll_replays [replay_intros]:
  "replays b os (Poll_one (replaying os) fd ev t) (Poll_one os fd ev t)"
  "replays b os (Poll_any (replaying os) fds ev t) (Poll_any os fds ev t)"
  unfolding Poll_one_def Poll_any_def Let_def
  by (intro replays_bind_call calls_intros replay_intros; simp add: replaying_errno)+

lemma setTtl_replays [replay_intros]:
  "replays b os (setTtl (replaying os) ds ttl) (setTtl os ds ttl)"
  unfolding setTtl_def Let_def
  by (intro replays_bind_call calls_intros replay_intros) (simp add: replaying_errno)

lemma trySending_replays [replay_intros]:
  "replays b os (trySending (replaying os) ds p ttl t) (trySending os ds p ttl t)"
  unfolding trySending_def Let_def
  by (intro replays_bind_call calls_intros replay_intros) (simp add: replaying_errno)

lemma tryReceiving_replays [replay_intros]:
  "replays b os (tryReceiving (replaying os) ds buf n t) (tryReceiving os ds buf n t)"
  unfolding tryReceiving_def getAnySocketReadyToReceive_def
  by (intro replays_bind_call calls_intros replay_intros) (simp add: replaying_errno)

lemma createPacket_replays [replay_intros]:
  "replays b os (createPacket (replaying os) f) (createPacket os f)"
  by (cases f; simp only: createPacket.simps ctor_defs Let_def;
      intro replays_bind_call calls_intros replay_intros)

section \<open>Tracers\<close>

definition replays_tracer :: "'w os \<Rightarrow> replay tracer \<Rightarrow> 'w tracer \<Rightarrow> bool" where
  "replays_tracer os U T \<longleftrightarrow> (\<forall>b. replays b os (t_createPacket U) (t_createPacket T)
     \<and> (\<forall>p ttl t. replays b os (t_trySending U p ttl t) (t_trySending T p ttl t))
     \<and> (\<forall>buf n t. replays b os (t_tryReceiving U buf n t) (t_tryReceiving T buf n t))
     \<and> replays b os (t_now U) (t_now T))"

lemma tracer_of_replays: "replays_tracer os (tracer_of (replaying os) ds f) (tracer_of os ds f)"
  by (simp add: replays_tracer_def tracer_of_def replay_intros)

lemma ports_replay [replay_intros]:
  assumes "replays_tracer os U T"
  shows "replays b os (t_createPacket U) (t_createPacket T)"
    "replays b os (t_trySending U p ttl t) (t_trySending T p ttl t)"
    "replays b os (t_tryReceiving U buf n t) (t_tryReceiving T buf n t)"
    "replays b os (t_now U) (t_now T)"
  using assms by (simp_all add: replays_tracer_def)

lemma timers_replay [replay_intros]:
  assumes "replays_tracer os U T"
  shows "replays b os (getTimePassedTillNow U start) (getTimePassedTillNow T start)"
    "replays b os (getTimeLeft U start timeout) (getTimeLeft T start timeout)"
proof -
  have passed: "getTimePassedTillNow V start = andThen (t_now V) (\<lambda>n w. (tdiv (n - start) 1000, w))"
    for V :: "'v tracer"
    by (simp add: getTimePassedTillNow_def andThen_def fun_eq_iff)
  have left: "getTimeLeft V start timeout = andThen (getTimePassedTillNow V start)
      (\<lambda>passed w. (if passed > timeout then 0 else timeout - passed, w))" for V :: "'v tracer"
    by (simp add: getTimeLeft_def andThen_def fun_eq_iff)
  show "replays b os (getTimePassedTillNow U start) (getTimePassedTillNow T start)"
    unfolding passed by (rule replays_andThen [where c = b]) (auto intro: ports_replay assms replays_unit)
  then show "replays b os (getTimeLeft U start timeout) (getTimeLeft T start timeout)"
    unfolding left by (rule replays_andThen [where c = b]) (auto intro: replays_unit)
qed

end
