(* ===== verification/FastFine.thy ===== *)
theory FastFine
  imports Syscalls FastEnds
begin

text \<open>
  The tracer with two threads, interleaved at the granularity of system calls. Between two of its calls
  a thread is determined by the answers it has got since its last step of \<open>Fast\<close>; the mutex is part
  of the state. The invariants of \<open>FastRuns\<close> hold for these runs too, the list of probes is changed by
  the owner of the mutex only, and every run of \<open>Fast\<close> is one of these runs.
\<close>

section \<open>Threads, calls and the mutex\<close>

datatype thread = Sending | Receiving

fun move :: "thread \<Rightarrow> 'w fast_job \<Rightarrow> 'w fast_state \<Rightarrow> 'w fast_state" where
  "move Sending = sender_step"
| "move Receiving = receiver_step"

fun finished :: "thread \<Rightarrow> 'w fast_state \<Rightarrow> bool" where
  "finished Sending s = sender_finished (fs_sender s)"
| "finished Receiving s = receiver_finished (fs_receiver s)"

text \<open>The two blocks under the lock guard: registering a packet; validating and expiring.\<close>

fun critical :: "thread \<Rightarrow> 'w fast_state \<Rightarrow> bool" where
  "critical Sending s = (case fs_sender s of S_sent p ttl i \<Rightarrow> True | _ \<Rightarrow> False)"
| "critical Receiving s = (case fs_receiver s of R_lock b r \<Rightarrow> True | _ \<Rightarrow> False)"

type_synonym 'a per_thread = "'a \<times> 'a"

fun of_thread :: "thread \<Rightarrow> 'a per_thread \<Rightarrow> 'a" where
  "of_thread Sending (x, y) = x"
| "of_thread Receiving (x, y) = y"

fun for_thread :: "thread \<Rightarrow> 'a per_thread \<Rightarrow> 'a \<Rightarrow> 'a per_thread" where
  "for_thread Sending (x, y) z = (z, y)"
| "for_thread Receiving (x, y) z = (x, z)"

lemma for_thread_simps [simp]:
  "of_thread th (for_thread th p x) = x"
  "for_thread th (for_thread th p x) y = for_thread th p y"
  "for_thread th p (of_thread th p) = p"
  "of_thread th (x, x) = x" "for_thread th (x, x) x = (x, x)"
  by (cases th; cases p; simp)+

lemma other_thread [simp]: "th \<noteq> th' \<Longrightarrow> of_thread th' (for_thread th p x) = of_thread th' p"
  by (cases th; cases th'; cases p) simp_all

text \<open>
  \<open>fi_local\<close> is the state of \<open>Fast\<close> but for its world, which is \<open>fi_world\<close>; \<open>fi_replies\<close> are the
  answers a thread has got in the step it is in.
\<close>

record 'w fine_state =
  fi_world :: 'w
  fi_mutex :: "thread option"
  fi_local :: "replay fast_state"
  fi_replies :: "reply list per_thread"
  fi_errno :: "int per_thread"

definition attempt :: "replay fast_job \<Rightarrow> thread \<Rightarrow> 'w fine_state \<Rightarrow> replay fast_state" where
  "attempt J th s = move th J ((fi_local s)\<lparr>fs_world :=
     given (of_thread th (fi_replies s)) (of_thread th (fi_errno s))\<rparr>)"

definition asks_for :: "replay fast_job \<Rightarrow> thread \<Rightarrow> 'w fine_state \<Rightarrow> request option" where
  "asks_for J th s = rp_asked (fs_world (attempt J th s))"

definition may_run :: "thread \<Rightarrow> 'w fine_state \<Rightarrow> bool" where
  "may_run th s \<longleftrightarrow> \<not> finished th (fi_local s)
     \<and> (critical th (fi_local s) \<longrightarrow> fi_mutex s = Some th)"

definition answered_call :: "thread \<Rightarrow> reply \<Rightarrow> 'w \<Rightarrow> 'w fine_state \<Rightarrow> 'w fine_state" where
  "answered_call th a w s = s\<lparr>fi_world := w,
     fi_replies := for_thread th (fi_replies s) (of_thread th (fi_replies s) @ [a])\<rparr>"

definition completed :: "replay fast_job \<Rightarrow> thread \<Rightarrow> 'w fine_state \<Rightarrow> 'w fine_state" where
  "completed J th s = s\<lparr>fi_local := attempt J th s,
     fi_replies := for_thread th (fi_replies s) [],
     fi_errno := for_thread th (fi_errno s) (rp_errno (fs_world (attempt J th s))),
     fi_mutex := (if critical th (fi_local s) then None else fi_mutex s)\<rparr>"

inductive fine_step :: "'w os \<Rightarrow> replay fast_job \<Rightarrow> 'w fine_state \<Rightarrow> 'w fine_state \<Rightarrow> bool"
  for os J where
  lock: "critical th (fi_local s) \<Longrightarrow> fi_mutex s = None \<Longrightarrow>
     fine_step os J s (s\<lparr>fi_mutex := Some th\<rparr>)"
| call: "may_run th s \<Longrightarrow> asks_for J th s = Some q \<Longrightarrow> perform os q (fi_world s) = (a, w) \<Longrightarrow>
     fine_step os J s (answered_call th a w s)"
| complete: "may_run th s \<Longrightarrow> asks_for J th s = None \<Longrightarrow> fine_step os J s (completed J th s)"

inductive_cases fine_stepE: "fine_step os J s t"

definition fine_reach :: "'w os \<Rightarrow> replay fast_job \<Rightarrow> 'w fine_state \<Rightarrow> 'w fine_state \<Rightarrow> bool" where
  "fine_reach os J = (fine_step os J)\<^sup>*\<^sup>*"

definition fine_start ::
    "replay fast_job \<Rightarrow> PacketToValidate list \<Rightarrow> byte list \<Rightarrow> 'w \<Rightarrow> 'w fine_state" where
  "fine_start J old buf w =
     \<lparr>fi_world = w, fi_mutex = None, fi_local = Fast_start J old buf (given [] 0),
      fi_replies = ([], []), fi_errno = (0, 0)\<rparr>"

definition fine_outcome :: "'w fine_state \<Rightarrow> (exn + TracerouteResult list) option" where
  "fine_outcome s = Fast_outcome (fi_local s)"

section \<open>Invariants that do not look at the world\<close>

lemma sending_keeps [simp]: "fs_receiver (sender_step J l) = fs_receiver l"
  by (auto simp: sender_step_def split: sender_pc.splits prod.splits sum.splits)

lemma receiving_keeps [simp]: "fs_sender (receiver_step J l) = fs_sender l"
  by (auto simp: receiver_step_def Let_def split: receiver_pc.splits prod.splits sum.splits)

lemma move_step: "\<not> finished th s \<Longrightarrow> fast_step J s (move th J s)"
  by (cases th) (auto intro: fast_step.intros)

lemma finished_world [simp]: "finished th (s\<lparr>fs_world := r\<rparr>) = finished th s"
  by (cases th) simp_all

lemma attempt_step: "may_run th s \<Longrightarrow>
    fast_step J ((fi_local s)\<lparr>fs_world := given (of_thread th (fi_replies s))
      (of_thread th (fi_errno s))\<rparr>) (attempt J th s)"
  unfolding attempt_def by (rule move_step) (simp add: may_run_def)

lemma fine_invariant:
  assumes "fine_reach os J s0 s" "P (fi_local s0)"
    and world: "\<And>l r. P l \<Longrightarrow> P (l\<lparr>fs_world := r\<rparr>)"
    and step: "\<And>l l'. P l \<Longrightarrow> fast_step J l l' \<Longrightarrow> P l'"
  shows "P (fi_local s)"
  using assms(1) unfolding fine_reach_def
proof (induction rule: rtranclp_induct)
  case base
  show ?case by (rule assms(2))
next
  case (step s t)
  from step(2) show ?case
  proof (rule fine_stepE)
    fix th
    assume "t = completed J th s" "may_run th s"
    with assms(4) [OF world [OF step(3)] attempt_step] show ?thesis by (simp add: completed_def)
  qed (use step(3) in \<open>simp_all add: answered_call_def\<close>)
qed

lemma fast_inv_world: "fast_inv J target old l \<Longrightarrow> fast_inv J target old (l\<lparr>fs_world := r\<rparr>)"
  by (simp add: fast_inv_def)

lemma fine_reach_inv:
  assumes "fine_reach os J (fine_start J old buf w) s"
    and "tracer_ports (fj_tracer J) target" "fj_end J \<noteq> - 1" "probes_ok target old"
  shows "fast_inv J target old (fi_local s)"
  using assms(1)
proof (rule fine_invariant)
  show "fast_inv J target old (fi_local (fine_start J old buf w))"
    using assms(4) by (simp add: fine_start_def fast_inv_start)
  show "fast_inv J target old l'" if "fast_inv J target old l" "fast_step J l l'" for l l'
    using that assms(2,3) by (auto elim!: fast_stepE intro: sender_step_inv receiver_step_inv)
qed (rule fast_inv_world)

lemma fine_reach_safe:
  assumes "fine_reach os J (fine_start J old buf w) s"
    and "tracer_ports (fj_tracer J) target" "136 \<le> length buf"
  shows "safe_state (fi_local s)"
  using assms(1)
proof (rule fine_invariant)
  show "safe_state (fi_local (fine_start J old buf w))"
    using assms(3) by (simp add: fine_start_def safe_state_def Fast_start_def)
  show "safe_state (l\<lparr>fs_world := r\<rparr>)" if "safe_state l" for l r
    using that by (simp add: safe_state_def)
  show "safe_state l'" if "safe_state l" "fast_step J l l'" for l l'
    using fast_step_safe [OF that(2,1) assms(2)] .
qed

section \<open>Mutual exclusion\<close>

lemma move_pending: "\<not> critical th l \<Longrightarrow> fs_pending (move th J l) = fs_pending l"
  by (cases th) (auto simp: sender_step_def receiver_step_def Let_def
      split: sender_pc.splits receiver_pc.splits prod.splits sum.splits)

lemma critical_world [simp]: "critical th (l\<lparr>fs_world := r\<rparr>) = critical th l"
  by (cases th) simp_all

text \<open>A change of the list is the work of the owner of the mutex.\<close>

lemma fine_owner:
  assumes "fine_step os J s t" "fs_pending (fi_local t) \<noteq> fs_pending (fi_local s)"
  shows "\<exists>th. fi_mutex s = Some th \<and> critical th (fi_local s) \<and> t = completed J th s"
  using assms(1)
proof (rule fine_stepE)
  fix th
  assume ended: "t = completed J th s" "may_run th s"
  have "critical th (fi_local s)"
  proof (rule ccontr)
    assume "\<not> critical th (fi_local s)"
    then have "fs_pending (attempt J th s) = fs_pending (fi_local s)"
      unfolding attempt_def by (subst move_pending) simp_all
    with ended assms(2) show False by (simp add: completed_def)
  qed
  with ended show ?thesis by (auto simp: may_run_def)
qed (use assms(2) in \<open>simp_all add: answered_call_def\<close>)

text \<open>The owner of the mutex is inside its block, and where there is no outcome a thread can go on.\<close>

lemma move_other: "th \<noteq> other \<Longrightarrow> critical other (move th J l) = critical other l"
  by (cases th; cases other) (auto simp: sender_step_def receiver_step_def Let_def
      split: sender_pc.splits receiver_pc.splits prod.splits sum.splits)

definition owner_inside :: "'w fine_state \<Rightarrow> bool" where
  "owner_inside s \<longleftrightarrow> (\<forall>th. fi_mutex s = Some th \<longrightarrow> critical th (fi_local s))"

lemma fine_step_owner:
  assumes "fine_step os J s t" "owner_inside s"
  shows "owner_inside t"
  using assms(1)
proof (rule fine_stepE)
  fix th
  assume ended: "t = completed J th s" "may_run th s"
  show ?thesis
    unfolding owner_inside_def
  proof (intro allI impI)
    fix other
    assume owner: "fi_mutex t = Some other"
    with ended have "\<not> critical th (fi_local s)" "fi_mutex s = Some other"
      by (auto simp: completed_def split: if_splits)
    with assms(2) have "critical other (fi_local s)" "th \<noteq> other"
      by (auto simp: owner_inside_def)
    with ended(1) show "critical other (fi_local t)"
      by (simp add: completed_def attempt_def move_other)
  qed
qed (use assms(2) in \<open>auto simp: owner_inside_def answered_call_def\<close>)

lemma fine_reach_owner:
  assumes "fine_reach os J (fine_start J old buf w) s"
  shows "owner_inside s"
  using assms unfolding fine_reach_def
proof (induction rule: rtranclp_induct)
  case base
  show ?case by (simp add: owner_inside_def fine_start_def)
next
  case (step s t)
  then show ?case by (blast intro: fine_step_owner)
qed

lemma critical_unfinished: "critical th l \<Longrightarrow> \<not> finished th l"
  by (cases th) (auto split: sender_pc.splits receiver_pc.splits)

lemma may_run_steps: "may_run th s \<Longrightarrow> \<exists>t. fine_step os J s t"
  by (cases "asks_for J th s") (blast intro: fine_step.complete, metis surj_pair fine_step.call)

lemma fine_progress:
  assumes "owner_inside s" "fine_outcome s = None"
  shows "\<exists>t. fine_step os J s t"
proof -
  obtain th where unfinished: "\<not> finished th (fi_local s)"
  proof (rule ccontr)
    assume "\<not> thesis"
    then have "finished th (fi_local s)" for th using that by blast
    from this [of Sending] this [of Receiving] assms(2) show False
      by (auto simp: fine_outcome_def Fast_outcome_def split: receiver_pc.splits)
  qed
  show ?thesis
  proof (cases "fi_mutex s")
    case None
    then show ?thesis
      using unfinished by (cases "critical th (fi_local s)")
        (blast intro: fine_step.lock, simp add: may_run_def may_run_steps)
  next
    case (Some owner)
    with assms(1) have "critical owner (fi_local s)" by (simp add: owner_inside_def)
    with Some have "may_run owner s" by (simp add: may_run_def critical_unfinished)
    then show ?thesis by (rule may_run_steps)
  qed
qed

section \<open>One interleaving\<close>

text \<open>A thread that waits for the mutex or has ended stays where it is.\<close>

definition fine_next :: "'w os \<Rightarrow> replay fast_job \<Rightarrow> thread \<Rightarrow> 'w fine_state \<Rightarrow> 'w fine_state" where
  "fine_next os J th s =
     (if critical th (fi_local s) \<and> fi_mutex s = None then s\<lparr>fi_mutex := Some th\<rparr>
      else if may_run th s
      then (case asks_for J th s of
              Some q \<Rightarrow> (let (a, w) = perform os q (fi_world s) in answered_call th a w s)
            | None \<Rightarrow> completed J th s)
      else s)"

fun fine_run :: "'w os \<Rightarrow> replay fast_job \<Rightarrow> thread list \<Rightarrow> 'w fine_state \<Rightarrow> 'w fine_state" where
  "fine_run os J [] s = s"
| "fine_run os J (th # ths) s = fine_run os J ths (fine_next os J th s)"

lemma fine_run_reach: "fine_reach os J s (fine_run os J ths s)"
proof (induction ths arbitrary: s)
  case Nil
  show ?case by (simp add: fine_reach_def)
next
  case (Cons th ths)
  have "fine_next os J th s = s \<or> fine_step os J s (fine_next os J th s)"
    by (auto simp: fine_next_def Let_def intro: fine_step.intros split: option.splits prod.splits)
  with Cons [of "fine_next os J th s"] show ?case
    by (auto simp: fine_reach_def intro: converse_rtranclp_into_rtranclp)
qed

section \<open>The runs of Fast are runs of this machine\<close>

text \<open>A step of \<open>Fast\<close> as an operation on the world: what it leaves besides.\<close>

type_synonym books = "PacketToValidate list \<times> byte list \<times> result_map \<times> sender_pc \<times> receiver_pc"

definition books :: "'w fast_state \<Rightarrow> books" where
  "books s = (fs_pending s, fs_buffer s, fs_results s, fs_sender s, fs_receiver s)"

definition moving :: "thread \<Rightarrow> 'w fast_job \<Rightarrow> 'w fast_state \<Rightarrow> 'w \<Rightarrow> books \<times> 'w" where
  "moving th J s w = (let t = move th J (s\<lparr>fs_world := w\<rparr>) in (books t, fs_world t))"

definition same_job :: "'v fast_job \<Rightarrow> 'w fast_job \<Rightarrow> bool" where
  "same_job J J' \<longleftrightarrow> fj_begin J = fj_begin J' \<and> fj_end J = fj_end J'
     \<and> fj_retries J = fj_retries J' \<and> fj_timeout J = fj_timeout J'"

lemma send_one_replays [replay_intros]:
  "replays_tracer os U T \<Longrightarrow> replays b os (send_one U ttl) (send_one T ttl)"
  unfolding send_one_def by (intro replay_intros)

lemma expire_andThen:
  "expire T timeout (p # ps) m = andThen (getTimeLeft T (pv_sentAt p) timeout) (\<lambda>timeLeft.
     if timeLeft < MinTimeWaitForResponse
     then andThen (getTimePassedTillNow T (pv_sentAt p)) (\<lambda>waited.
            expire T timeout ps (push_result (pv_ttl p) (failedProbe waited) m))
     else andThen (expire T timeout ps m) (\<lambda>(rest, m') w. ((p # rest, m'), w)))"
  by (auto simp: andThen_def fun_eq_iff Let_def split: prod.splits)

lemma expire_replays [replay_intros]:
  assumes "replays_tracer os U T"
  shows "replays b os (expire U timeout ps m) (expire T timeout ps (m :: result_map))"
proof (induction ps arbitrary: m)
  case Nil
  have "expire V timeout [] m = (\<lambda>w. (([], m), w))" for V :: "'v tracer" and m
    by (simp add: fun_eq_iff)
  then show ?case by (simp add: replays_unit)
next
  case (Cons p ps)
  show ?case
    unfolding expire_andThen
    by (intro replays_andThen [where c = b] replay_intros assms Cons; simp)
qed

lemma validate_locked_replays [replay_intros]:
  "replays_tracer os U T \<Longrightarrow> replays b os (validate_locked U timeout ri buf ps m)
     (validate_locked T timeout ri buf ps m)"
  unfolding validate_locked_def record_answer_def by (intro replay_intros)

lemma replays_case_sum [replay_intros]:
  "(\<And>e. replays b os (g e) (f e)) \<Longrightarrow> (\<And>x. replays b os (k x) (l x)) \<Longrightarrow>
     replays b os (case r of Inl e \<Rightarrow> g e | Inr x \<Rightarrow> k x) (case r of Inl e \<Rightarrow> f e | Inr x \<Rightarrow> l x)"
  by (simp split: sum.split)

lemma moving_Sending:
  "moving Sending J s =
     (let stay = (\<lambda>pc w. ((fs_pending s, fs_buffer s, fs_results s, pc, fs_receiver s), w)) in
      case fs_sender s of
        S_at ttl i \<Rightarrow>
          if ttl \<le> fj_end J
          then (if i < fj_retries J
                then andThen (send_one (fj_tracer J) ttl)
                  (\<lambda>r. case r of Inl e \<Rightarrow> stay (S_threw e) | Inr p \<Rightarrow> stay (S_sent p ttl i))
                else stay (S_at (ttl + 1) 0))
          else stay S_done
      | S_sent p ttl i \<Rightarrow> andThen (t_now (fj_tracer J)) (\<lambda>n w.
          ((fs_pending s @ [\<lparr>pv_packet = p, pv_sentAt = n, pv_ttl = ttl, pv_retry = i\<rparr>],
            fs_buffer s, fs_results s, S_at ttl (i + 1), fs_receiver s), w))
      | S_done \<Rightarrow> stay S_done
      | S_threw e \<Rightarrow> stay (S_threw e))"
  by (auto simp: moving_def books_def sender_step_def andThen_def Let_def fun_eq_iff
      split: sender_pc.splits prod.splits sum.splits)

lemma moving_Receiving:
  "moving Receiving J s =
     (let T = fj_tracer J; timeout = fj_timeout J;
          expected = expectedSize (fj_begin J) (fj_end J) (fj_retries J);
          stay = (\<lambda>pc w. ((fs_pending s, fs_buffer s, fs_results s, fs_sender s, pc), w)) in
      case fs_receiver s of
        R_start \<Rightarrow> andThen (t_now T) (\<lambda>beginAt. stay (R_test beginAt))
      | R_test beginAt \<Rightarrow>
          if ucast (getCurrentSize (fs_results s)) < expected
          then andThen (getTimeLeft T beginAt (expectedMaxTimeTaken timeout expected))
            (\<lambda>timeLeft. stay (if timeLeft > 0 then R_receive beginAt else R_collect))
          else stay R_collect
      | R_receive beginAt \<Rightarrow>
          andThen (t_tryReceiving T (fs_buffer s) BufferSize (to_milliseconds timeout))
            (\<lambda>r. case r of Inl e \<Rightarrow> stay (R_threw e)
             | Inr x \<Rightarrow> (\<lambda>w. ((fs_pending s, snd x, fs_results s, fs_sender s,
                               R_lock beginAt (fst x)), w)))
      | R_lock beginAt respInfo \<Rightarrow>
          andThen (validate_locked T timeout respInfo (fs_buffer s) (fs_pending s) (fs_results s))
            (\<lambda>r. case r of Inl e \<Rightarrow> stay (R_threw e)
             | Inr x \<Rightarrow> (\<lambda>w. ((fst x, fs_buffer s, snd x, fs_sender s, R_test beginAt), w)))
      | R_collect \<Rightarrow>
          andThen (t_createPacket T)
            (\<lambda>r. case r of Inl e \<Rightarrow> stay (R_threw e)
             | Inr p \<Rightarrow> stay (R_done (cut_at_target (getDestinationAddress p)
                                       (collect_results (fs_results s)))))
      | R_done results \<Rightarrow> stay (R_done results)
      | R_threw e \<Rightarrow> stay (R_threw e))"
  by (cases "fs_receiver s") (auto simp: moving_def books_def receiver_step_def andThen_def Let_def
      fun_eq_iff split: prod.splits sum.splits)

lemma moving_replays:
  assumes "replays_tracer os (fj_tracer J') (fj_tracer J)" "same_job J' J" "books l = books s"
  shows "replays b os (moving th J' l) (moving th J s)"
proof (cases th)
  case Sending
  from assms(2,3) show ?thesis
    by (cases "fs_sender s") (auto simp: Sending moving_Sending same_job_def books_def Let_def
        intro!: replays_andThen [where c = b] replay_intros replays_unit assms(1))
next
  case Receiving
  from assms(2,3) show ?thesis
    by (cases "fs_receiver s") (auto simp: Receiving moving_Receiving same_job_def books_def Let_def
        intro!: replays_andThen [where c = b] replay_intros replays_unit assms(1))
qed

section \<open>A step that is not interrupted\<close>

definition stands_for :: "'w fine_state \<Rightarrow> 'w fast_state \<Rightarrow> bool" where
  "stands_for u s \<longleftrightarrow> fi_world u = fs_world s \<and> fi_mutex u = None
     \<and> books (fi_local u) = books s \<and> fi_replies u = ([], [])"

lemma attempt_moving:
  "moving th J (fi_local u) (given (of_thread th (fi_replies u)) (of_thread th (fi_errno u)))
    = (books (attempt J th u), fs_world (attempt J th u))"
  by (simp add: moving_def attempt_def Let_def)

lemma finished_books: "books l = books s \<Longrightarrow> finished th l = finished th s"
  "books l = books s \<Longrightarrow> critical th l = critical th s"
  by (cases th; simp add: books_def)+

text \<open>The calls of the step, answered one after the other.\<close>

lemma calls_answered:
  assumes "follows_trace (moving th J (fi_local u)) (of_thread th (fi_errno u)) (pre @ tr) x"
    and "of_thread th (fi_replies u) = map snd pre" "performs os (fi_world u) tr w" "may_run th u"
  shows "(fine_step os J)\<^sup>*\<^sup>* u (u\<lparr>fi_world := w,
      fi_replies := for_thread th (fi_replies u) (map snd (pre @ tr))\<rparr>)"
  using assms
proof (induction tr arbitrary: pre u)
  case Nil
  then show ?case by (simp flip: Nil(2))
next
  case (Cons qa tr)
  obtain q a where qa: "qa = (q, a)" by (cases qa)
  obtain v where v: "perform os q (fi_world u) = (a, v)" "performs os v tr w"
    using Cons.prems(3) by (cases "perform os q (fi_world u)") (auto simp: qa)
  have "rp_asked (snd (moving th J (fi_local u) (given (map snd pre) (of_thread th (fi_errno u))))) = Some q"
    using Cons.prems(1) by (auto simp: follows_trace_def qa)
  then have "asks_for J th u = Some q"
    unfolding Cons.prems(2) [symmetric] attempt_moving by (simp add: asks_for_def)
  with Cons.prems(4) v(1) have "fine_step os J u (answered_call th a v u)"
    by (blast intro: fine_step.call)
  moreover have "(fine_step os J)\<^sup>*\<^sup>* (answered_call th a v u) ((answered_call th a v u)\<lparr>fi_world := w,
      fi_replies := for_thread th (fi_replies (answered_call th a v u)) (map snd ((pre @ [qa]) @ tr))\<rparr>)"
    by (rule Cons.IH) (use Cons.prems v(2) in
        \<open>simp_all add: answered_call_def may_run_def qa\<close>)
  ultimately have "(fine_step os J)\<^sup>*\<^sup>* u ((answered_call th a v u)\<lparr>fi_world := w,
      fi_replies := for_thread th (fi_replies (answered_call th a v u)) (map snd ((pre @ [qa]) @ tr))\<rparr>)"
    by (rule converse_rtranclp_into_rtranclp)
  moreover have "(answered_call th a v u)\<lparr>fi_world := w,
      fi_replies := for_thread th (fi_replies (answered_call th a v u)) (map snd ((pre @ [qa]) @ tr))\<rparr>
    = u\<lparr>fi_world := w, fi_replies := for_thread th (fi_replies u) (map snd (pre @ qa # tr))\<rparr>"
    by (simp add: answered_call_def fun_eq_iff)
  ultimately show ?case by (simp only:)
qed

text \<open>The last step is the one that completes the step of \<open>Fast\<close>.\<close>

lemma step_completed:
  assumes "replays_tracer os (fj_tracer J') (fj_tracer J)" "same_job J' J"
    and u: "stands_for u s" and "\<not> finished th s"
  shows "\<exists>v u'. (fine_step os J')\<^sup>*\<^sup>* u v \<and> books (fi_local v) = books s
    \<and> fine_step os J' v u' \<and> stands_for u' (move th J s)"
proof -
  define u1 where "u1 = (if critical th s then u\<lparr>fi_mutex := Some th\<rparr> else u)"
  have same: "books (fi_local u) = books s" using u by (simp add: stands_for_def)
  have local: "fi_local u1 = fi_local u" "fi_world u1 = fs_world s" "fi_replies u1 = ([], [])"
    "fi_errno u1 = fi_errno u"
    using u by (auto simp: u1_def stands_for_def)
  have locked: "(fine_step os J')\<^sup>*\<^sup>* u u1"
    using u finished_books(2) [OF same, of th]
    by (auto simp: u1_def stands_for_def intro: fine_step.lock)
  have may: "may_run th u1"
    using assms(4) finished_books [OF same, of th] by (simp add: may_run_def u1_def)
  obtain tr where tr: "performs os (fs_world s) tr (snd (moving th J s (fs_world s)))"
    "follows_trace (moving th J' (fi_local u1)) (of_thread th (fi_errno u1)) tr
      (fst (moving th J s (fs_world s)))"
    using moving_replays [OF assms(1,2) same, of False th] unfolding replays_def local by metis
  define u2 where "u2 = u1\<lparr>fi_world := fs_world (move th J s),
      fi_replies := for_thread th (fi_replies u1) (map snd tr)\<rparr>"
  have world: "snd (moving th J s (fs_world s)) = fs_world (move th J s)"
    "fst (moving th J s (fs_world s)) = books (move th J s)"
    by (simp_all add: moving_def Let_def)
  have "(fine_step os J')\<^sup>*\<^sup>* u1 u2"
    unfolding u2_def
    using calls_answered [where pre = "[]" and tr = tr and u = u1 and os = os, OF _ _ _ may] tr local
    by (simp add: world)
  note calls = this
  have "moving th J' (fi_local u2) (given (of_thread th (fi_replies u2)) (of_thread th (fi_errno u2)))
      = (books (move th J s), given [] (last_errno (of_thread th (fi_errno u1)) tr))"
    using tr(2) by (auto simp: follows_trace_def u2_def world
        dest: spec [of _ "[] :: reply list"])
  then have ended: "books (attempt J' th u2) = books (move th J s)"
    "fs_world (attempt J' th u2) = given [] (last_errno (of_thread th (fi_errno u1)) tr)"
    by (simp_all add: attempt_moving)
  then have "asks_for J' th u2 = None" by (simp add: asks_for_def given_def)
  with may have "fine_step os J' u2 (completed J' th u2)"
    by (auto simp: may_run_def u2_def intro!: fine_step.complete)
  moreover have "stands_for (completed J' th u2) (move th J s)"
    using u local ended(1) finished_books(2) [OF same, of th]
    by (auto simp: stands_for_def completed_def u2_def u1_def)
  moreover have "books (fi_local u2) = books s" using same local by (simp add: u2_def)
  ultimately show ?thesis using rtranclp_trans [OF locked calls] by blast
qed

lemma step_uninterrupted:
  assumes "replays_tracer os (fj_tracer J') (fj_tracer J)" "same_job J' J"
    and "stands_for u s" "\<not> finished th s"
  shows "\<exists>u'. (fine_step os J')\<^sup>*\<^sup>* u u' \<and> stands_for u' (move th J s)"
  using step_completed [OF assms] by (meson rtranclp.rtrancl_into_rtrancl)

lemma fast_reach_fine:
  assumes "replays_tracer os (fj_tracer J') (fj_tracer J)" "same_job J' J"
    and "fast_reach J s t" "stands_for u s"
  shows "\<exists>u'. fine_reach os J' u u' \<and> stands_for u' t"
  using assms(3)
proof (induction rule: fast_reach.induct)
  case start
  then show ?case using assms(4) by (auto simp: fine_reach_def)
next
  case (step t v)
  then obtain u' where u': "fine_reach os J' u u'" "stands_for u' t" by blast
  from step(2) obtain th where "\<not> finished th t" "v = move th J t"
    by (cases rule: fast_step.cases) (metis finished.simps move.simps)+
  with step_uninterrupted [OF assms(1,2) u'(2)] u'(1) show ?case
    unfolding fine_reach_def by (meson rtranclp_trans)
qed

lemma stands_for_start:
  "same_job J' J \<Longrightarrow> stands_for (fine_start J' old buf w) (Fast_start J old buf w)"
  by (simp add: stands_for_def fine_start_def Fast_start_def books_def same_job_def)

lemma stands_for_outcome: "stands_for u s \<Longrightarrow> fine_outcome u = Fast_outcome s"
  by (auto simp: stands_for_def fine_outcome_def Fast_outcome_def books_def split: receiver_pc.split)

end
