(* ===== verification/FineCalls.thy ===== *)
theory FineCalls
  imports FastFine
begin

text \<open>
  The calls of a step of \<open>Fast\<close>: how many it makes at most, whatever the system answers, and which; the
  receiving thread neither sets options nor sends. And the trace of an operation that has returned: the
  traces of its parts, one behind the other.
\<close>

section \<open>The calls of an operation\<close>

text \<open>
  Given some answers, the operation asks for a call of \<open>A\<close>, having used the answers up, or it returns,
  having used those in front. With \<open>n\<close> answers it returns.
\<close>

definition returned :: "nat \<Rightarrow> (replay \<Rightarrow> 'a \<times> replay) \<Rightarrow> reply list \<Rightarrow> int \<Rightarrow> bool" where
  "returned n g as e \<longleftrightarrow> (\<exists>us rest e'. as = us @ rest \<and> length us \<le> n
     \<and> (\<forall>rest'. g (given (us @ rest') e) = (fst (g (given as e)), given rest' e')))"

definition interrupted ::
    "request set \<Rightarrow> nat \<Rightarrow> (replay \<Rightarrow> 'a \<times> replay) \<Rightarrow> reply list \<Rightarrow> int \<Rightarrow> bool" where
  "interrupted A n g as e \<longleftrightarrow> length as < n \<and> rp_answers (snd (g (given as e))) = []
     \<and> (\<exists>q \<in> A. rp_asked (snd (g (given as e))) = Some q)"

definition within :: "request set \<Rightarrow> nat \<Rightarrow> (replay \<Rightarrow> 'a \<times> replay) \<Rightarrow> bool" where
  "within A n g \<longleftrightarrow> stuck g \<and> (\<forall>as e. returned n g as e \<or> interrupted A n g as e)"

named_theorems within_intros \<open>bounds on the calls of an operation\<close>

lemma returned_mono: "returned m g as e \<Longrightarrow> m \<le> n \<Longrightarrow> returned n g as e"
  unfolding returned_def by (elim exE conjE, intro exI conjI) (assumption, erule order_trans)

lemma interrupted_mono:
  "interrupted A m g as e \<Longrightarrow> A \<subseteq> B \<Longrightarrow> m \<le> n \<Longrightarrow> interrupted B n g as e"
  by (auto simp: interrupted_def)

lemma within_mono: "within A m g \<Longrightarrow> A \<subseteq> B \<Longrightarrow> m \<le> n \<Longrightarrow> within B n g"
  unfolding within_def by (blast intro: returned_mono interrupted_mono)

lemma returned_not_asked:
  assumes "returned n g as e"
  shows "rp_asked (snd (g (given as e))) = None"
proof -
  obtain us rest e' where "as = us @ rest"
    and eq: "g (given (us @ rest') e) = (fst (g (given as e)), given rest' e')" for rest'
    using assms unfolding returned_def by blast
  then have "snd (g (given as e)) = given rest e'" using eq [of rest] by (metis snd_conv)
  then show ?thesis by (simp add: given_def)
qed

lemma within_asks:
  assumes "within A n g" "rp_asked (snd (g (given as e))) = Some q"
  shows "q \<in> A" "rp_answers (snd (g (given as e))) = []" "length as < n"
proof -
  have "\<not> returned n g as e" using returned_not_asked [of n g as e] assms(2) by auto
  with assms(1) have "interrupted A n g as e" unfolding within_def by blast
  with assms(2) show "q \<in> A" "rp_answers (snd (g (given as e))) = []" "length as < n"
    by (simp_all add: interrupted_def)
qed

lemma within_returns:
  assumes "within A n g" "rp_asked (snd (g (given as e))) = None"
  shows "returned n g as e"
proof -
  have "\<not> interrupted A n g as e" using assms(2) by (simp add: interrupted_def)
  with assms(1) show ?thesis unfolding within_def by blast
qed

lemma within_stuck: "within A n g \<Longrightarrow> stuck g"
  by (simp add: within_def)

lemma within_basic [within_intros]:
  "within A 0 (\<lambda>r. (x, r))" "within A 0 (returnE y)" "within A 0 (throwE ex)"
  "within A 0 (pureE m)"
proof -
  have unit: "within A 0 (\<lambda>r. (x, r))" for x :: 'z
    by (auto simp: within_def stuck_def returned_def)
  then show "within A 0 (\<lambda>r. (x, r))" "within A 0 (returnE y)" "within A 0 (throwE ex)"
    "within A 0 (pureE m)"
    by (simp_all add: returnE_def throwE_def pureE_def)
qed

text \<open>A message with the text of \<open>errno\<close>.\<close>

lemma within_failE [within_intros]: "within A 0 (failE (\<lambda>w. msg @ errno_string (replaying os) w))"
  by (auto simp: within_def stuck_def returned_def failE_def errno_string_def replaying_def given_def)

lemma within_ask: "q \<in> A \<Longrightarrow> within A 1 (ask q read)"
  unfolding within_def
proof (intro conjI allI)
  fix as e
  assume "q \<in> A"
  show "returned 1 (ask q read) as e \<or> interrupted A 1 (ask q read) as e"
  proof (cases as)
    case Nil
    with \<open>q \<in> A\<close> have "interrupted A 1 (ask q read) as e"
      by (simp add: interrupted_def ask_def given_def)
    then show ?thesis ..
  next
    case (Cons a rest)
    then have "returned 1 (ask q read) as e"
      unfolding returned_def
      by (intro exI [of _ "[a]"] exI [of _ rest] exI [of _ "snd a"])
        (simp add: ask_def given_def split: prod.split)
    then show ?thesis ..
  qed
qed (simp add: stuck_def ask_def)

lemma within_calls [within_intros]:
  "Q_rand \<in> A \<Longrightarrow> within A 1 (sys_rand (replaying os))"
  "Q_uninit16 \<in> A \<Longrightarrow> within A 1 (sys_uninit16 (replaying os))"
  "Q_setsockopt fd l opt v \<in> A \<Longrightarrow> within A 1 (sys_setsockopt (replaying os) fd l opt v)"
  "Q_poll fds t \<in> A \<Longrightarrow> within A 1 (sys_poll (replaying os) fds t)"
  "Q_sendto fd d a n \<in> A \<Longrightarrow> within A 1 (sys_sendto (replaying os) fd d a n)"
  "Q_recvfrom fd n \<in> A \<Longrightarrow> within A 1 (sys_recvfrom (replaying os) fd n)"
  unfolding replaying_def by (simp_all only: os.simps within_ask)

lemma returned_andThen:
  assumes "returned m g as e" "\<And>x. within A n (k x)"
  shows "returned (m + n) (andThen g k) as e \<or> interrupted A (m + n) (andThen g k) as e"
proof -
  obtain us rest e' where us: "as = us @ rest" "length us \<le> m"
    "\<And>rest'. g (given (us @ rest') e) = (fst (g (given as e)), given rest' e')"
    using assms(1) unfolding returned_def by blast
  let ?x = "fst (g (given as e))"
  have through: "andThen g k (given (us @ rest') e) = k ?x (given rest' e')" for rest'
    by (simp add: andThen_def us(3))
  show ?thesis
  proof (cases "rp_asked (snd (k ?x (given rest e')))")
    case None
    then obtain us2 rest2 e2 where two: "rest = us2 @ rest2" "length us2 \<le> n"
      "\<And>rest'. k ?x (given (us2 @ rest') e') = (fst (k ?x (given rest e')), given rest' e2)"
      using within_returns [OF assms(2) None] unfolding returned_def by blast
    have "andThen g k (given ((us @ us2) @ rest') e)
        = (fst (andThen g k (given as e)), given rest' e2)" for rest'
      using through [of "us2 @ rest'"] through [of rest] two(3) [of rest'] us(1) by simp
    moreover have "as = (us @ us2) @ rest2" "length (us @ us2) \<le> m + n"
      using us(1,2) two(1,2) by simp_all
    ultimately have "returned (m + n) (andThen g k) as e" unfolding returned_def by blast
    then show ?thesis ..
  next
    case (Some q)
    note asks = within_asks [OF assms(2) Some]
    have "length as < m + n" using asks(3) us(1,2) by simp
    moreover have "andThen g k (given as e) = k ?x (given rest e')" using through us(1) by simp
    ultimately have "interrupted A (m + n) (andThen g k) as e"
      using asks(1,2) Some by (simp add: interrupted_def)
    then show ?thesis ..
  qed
qed

lemma within_andThen [within_intros]:
  assumes g: "within A m g" and k: "\<And>x. within A n (k x)"
  shows "within A (m + n) (andThen g k)"
  unfolding within_def
proof (intro conjI allI)
  show "stuck (andThen g k)" using within_stuck [OF g] within_stuck [OF k] by (rule stuck_andThen)
  fix as e
  show "returned (m + n) (andThen g k) as e \<or> interrupted A (m + n) (andThen g k) as e"
  proof (cases "rp_asked (snd (g (given as e)))")
    case None
    from returned_andThen [OF within_returns [OF g None] k] show ?thesis .
  next
    case (Some q)
    note asks = within_asks [OF g Some]
    obtain x r1 where x: "g (given as e) = (x, r1)" by fastforce
    with asks(2) Some within_stuck [OF k [of x]]
    have "rp_asked (snd (k x r1)) = Some q" "rp_answers (snd (k x r1)) = []"
      by (auto simp: stuck_def)
    with asks x have "interrupted A (m + n) (andThen g k) as e"
      by (simp add: interrupted_def andThen_def)
    then show ?thesis ..
  qed
qed

lemma within_max: "within A m g \<Longrightarrow> within A (max m n) g" "within A n g \<Longrightarrow> within A (max m n) g"
  by (auto elim: within_mono)

lemma within_cases [within_intros]:
  "within A m g \<Longrightarrow> within A n g' \<Longrightarrow> within A (max m n) (if c then g else g')"
  "within A m g \<Longrightarrow> (\<And>x. within A n (k x)) \<Longrightarrow>
     within A (max m n) (case y of None \<Rightarrow> g | Some x \<Rightarrow> k x)"
  "(\<And>e. within A m (k1 e)) \<Longrightarrow> (\<And>x. within A n (k2 x)) \<Longrightarrow>
     within A (max m n) (case z of Inl e \<Rightarrow> k1 e | Inr x \<Rightarrow> k2 x)"
  "(\<And>x v. within A n (k3 x v)) \<Longrightarrow> within A n (case p of (x, v) \<Rightarrow> k3 x v)"
  by (auto intro: within_max split: option.split sum.split prod.split)

lemma callE_andThen: "callE g = andThen g (\<lambda>x w. (Inr x, w))"
  by (auto simp: callE_def andThen_def fun_eq_iff split: prod.splits)

lemma within_callE [within_intros]: "within A n g \<Longrightarrow> within A n (callE g)"
  using within_andThen [OF _ within_basic(1), of A n g Inr] by (simp add: callE_andThen)

lemma within_bindE [within_intros]:
  "within A m g \<Longrightarrow> (\<And>x. within A n (k x)) \<Longrightarrow> within A (m + n) (bindE g k)"
  unfolding bindE_andThen
  by (rule within_mono [OF within_andThen [OF _ within_cases(3)]]) (auto intro: within_basic)

section \<open>The number of calls of a step\<close>

text \<open>
  The calls that leave no trace on the wire, and what the steps need to know of the tracer's ports.
\<close>

fun quiet :: "request \<Rightarrow> bool" where
  "quiet (Q_setsockopt fd l opt v) = False"
| "quiet (Q_sendto fd d a n) = False"
| "quiet _ = True"

lemma quiet_calls:
  "Q_rand \<in> {q. quiet q}" "Q_uninit16 \<in> {q. quiet q}" "Q_now \<in> {q. quiet q}"
  "Q_poll fds t \<in> {q. quiet q}" "Q_recvfrom fd n \<in> {q. quiet q}"
  by simp_all

definition asking_ports :: "replay tracer \<Rightarrow> bool" where
  "asking_ports U \<longleftrightarrow> t_now U = ask Q_now get_int \<and> within {q. quiet q} 3 (t_createPacket U)
     \<and> (\<forall>p ttl t. within UNIV 3 (t_trySending U p ttl t))
     \<and> (\<forall>buf n t. within {q. quiet q} 2 (t_tryReceiving U buf n t))
     \<and> (\<forall>buf n t e. \<exists>fds t'. rp_asked (snd (t_tryReceiving U buf n t (given [] e)))
          = Some (Q_poll fds t'))"

lemma within_createPacket: "within {q. quiet q} 3 (createPacket (replaying os) f)"
  by (cases f; simp only: createPacket.simps ctor_defs Let_def;
      rule within_mono [OF _ subset_refl], (rule within_intros quiet_calls)+; simp)

lemma within_trySending: "within UNIV 3 (trySending (replaying os) ds p ttl t)"
  unfolding trySending_def setTtl_def Poll_one_def Let_def
  by (rule within_mono [OF _ subset_refl], (rule within_intros UNIV_I quiet_calls)+) simp

lemma within_tryReceiving: "within {q. quiet q} 2 (tryReceiving (replaying os) ds buf n t)"
  unfolding tryReceiving_def getAnySocketReadyToReceive_def Poll_any_def Let_def
  by (rule within_mono [OF _ subset_refl], (rule within_intros UNIV_I quiet_calls)+) simp

lemma receiving_polls:
  "\<exists>fds t'. rp_asked (snd (tryReceiving (replaying os) ds buf n t (given [] e))) = Some (Q_poll fds t')"
  by (auto simp: tryReceiving_def getAnySocketReadyToReceive_def Poll_any_def Let_def io_simps
      replaying_def ask_def given_def get_poll_def)

lemma tracer_of_asking: "asking_ports (tracer_of (replaying os) ds f)"
  by (simp add: asking_ports_def tracer_of_def within_createPacket within_trySending
      within_tryReceiving receiving_polls) (simp add: replaying_def)

lemma ports_within:
  assumes "asking_ports U"
  shows "within {q. quiet q} 3 (t_createPacket U)" "within UNIV 3 (t_trySending U p ttl t)"
    "within {q. quiet q} 2 (t_tryReceiving U buf n t)" "within {q. quiet q} 1 (t_now U)"
  using assms by (auto simp: asking_ports_def simp del: One_nat_def intro: within_ask)

lemma timers_within:
  assumes "asking_ports U"
  shows "within {q. quiet q} 1 (getTimePassedTillNow U start)" "within {q. quiet q} 1 (getTimeLeft U start timeout)"
proof -
  have passed: "getTimePassedTillNow U start = andThen (t_now U) (\<lambda>n w. (tdiv (n - start) 1000, w))"
    by (simp add: getTimePassedTillNow_def andThen_def fun_eq_iff)
  have left: "getTimeLeft U start timeout = andThen (getTimePassedTillNow U start)
      (\<lambda>passed w. (if passed > timeout then 0 else timeout - passed, w))"
    by (simp add: getTimeLeft_def andThen_def fun_eq_iff)
  show "within {q. quiet q} 1 (getTimePassedTillNow U start)"
    unfolding passed
    by (rule within_mono [OF within_andThen [OF ports_within(4) [OF assms] within_basic(1)]]) simp_all
  then show "within {q. quiet q} 1 (getTimeLeft U start timeout)"
    unfolding left by (rule within_mono [OF within_andThen [OF _ within_basic(1)]]) simp_all
qed

lemma expire_within:
  assumes "asking_ports U"
  shows "within {q. quiet q} (2 * length ps) (expire U timeout ps (m :: result_map))"
proof (induction ps arbitrary: m)
  case Nil
  have "expire U timeout [] m = (\<lambda>w. (([], m), w))" by (simp add: fun_eq_iff)
  with within_basic(1) show ?case by simp
next
  case (Cons p ps)
  have "within {q. quiet q} (1 + max (1 + 2 * length ps) (2 * length ps + 0)) (expire U timeout (p # ps) m)"
    unfolding expire_andThen
    by (intro within_andThen within_cases timers_within assms Cons.IH within_basic)
  then show ?case by (rule within_mono) simp_all
qed

text \<open>A probe that has been answered is not looked at again.\<close>

lemma validate_locked_within:
  assumes "asking_ports U"
  shows "within {q. quiet q} (2 * length ps + 1) (validate_locked U timeout ri buf ps m)"
proof (cases ri)
  case None
  then have "validate_locked U timeout ri buf ps m = callE (expire U timeout ps m)"
    by (simp add: validate_locked_def io_simps fun_eq_iff)
  then show ?thesis
    by (simp only:) (rule within_mono [OF within_callE [OF expire_within [OF assms]]], simp_all)
next
  case (Some info)
  show ?thesis
  proof (cases "find_valid ps info buf")
    case (Inl e)
    then have "validate_locked U timeout ri buf ps m = throwE e"
      by (simp add: Some validate_locked_def record_answer_def io_simps fun_eq_iff)
    then show ?thesis by (simp only:) (rule within_mono [OF within_basic(3) subset_refl], simp)
  next
    case (Inr found)
    show ?thesis
    proof (cases found)
      case None
      with Inr have "validate_locked U timeout ri buf ps m = callE (expire U timeout ps m)"
        by (simp add: Some validate_locked_def record_answer_def io_simps fun_eq_iff)
      then show ?thesis
        by (simp only:) (rule within_mono [OF within_callE [OF expire_within [OF assms]]], simp_all)
    next
      case found: (Some pr)
      obtain p rest where pr: "pr = (p, rest)" by fastforce
      have "length rest \<le> length ps"
        using find_valid_split [of ps info buf p rest] Inr found pr by auto
      have "validate_locked U timeout ri buf ps m =
          bindE (callE (getTimePassedTillNow U (pv_sentAt p))) (\<lambda>waited.
            callE (expire U timeout rest
              (push_result (pv_ttl p) (successProbe waited (ri_client info)) m)))"
        using Inr
        by (simp add: Some found pr validate_locked_def record_answer_def io_simps fun_eq_iff)
      moreover have "within {q. quiet q} (1 + 2 * length rest)
          (bindE (callE (getTimePassedTillNow U (pv_sentAt p))) (\<lambda>waited.
            callE (expire U timeout rest
              (push_result (pv_ttl p) (successProbe waited (ri_client info)) m))))"
        by (intro within_bindE within_callE timers_within expire_within assms)
      ultimately show ?thesis
        using within_mono [OF _ subset_refl] \<open>length rest \<le> length ps\<close> by fastforce
    qed
  qed
qed

definition most_calls :: "'w fast_state \<Rightarrow> nat" where
  "most_calls l = 2 * length (fs_pending l) + 6"

lemma send_one_within:
  assumes "asking_ports U"
  shows "within UNIV 6 (send_one U ttl)"
  unfolding send_one_def
  by (rule within_mono [OF _ subset_refl], (rule within_intros ports_within(2) [OF assms]
        within_mono [OF ports_within(1) [OF assms] subset_UNIV order_refl])+) simp

lemma sending_within:
  assumes "asking_ports (fj_tracer J)"
  shows "within UNIV (most_calls l) (moving Sending J l)"
proof -
  note one = send_one_within [OF assms]
  have now: "within UNIV 1 (t_now (fj_tracer J))"
    using ports_within(4) [OF assms] by (rule within_mono) simp_all
  show ?thesis
    unfolding moving_Sending Let_def
    by (cases "fs_sender l"; simp only: sender_pc.case;
        rule within_mono [OF _ subset_refl], (rule within_intros one now)+; simp add: most_calls_def)
qed

lemma receiving_within:
  assumes "asking_ports (fj_tracer J)"
  shows "within {q. quiet q} (most_calls l) (moving Receiving J l)"
  unfolding moving_Receiving Let_def
  by (cases "fs_receiver l"; simp only: receiver_pc.case;
      rule within_mono [OF _ subset_refl],
      (rule within_intros ports_within [OF assms] timers_within [OF assms]
        validate_locked_within [OF assms])+; simp add: most_calls_def)

lemma moving_within: "asking_ports (fj_tracer J) \<Longrightarrow> within UNIV (most_calls l) (moving th J l)"
  by (cases th) (auto intro: sending_within within_mono [OF receiving_within])

lemma asks_moving:
  "asks_for J th s = rp_asked (snd (moving th J (fi_local s)
     (given (of_thread th (fi_replies s)) (of_thread th (fi_errno s)))))"
  by (simp add: attempt_moving asks_for_def)

lemma asks_most_calls:
  assumes "asking_ports (fj_tracer J)" "asks_for J th s = Some q"
  shows "length (of_thread th (fi_replies s)) < most_calls (fi_local s)"
  using within_asks(3) [OF moving_within [OF assms(1)]] assms(2) by (simp add: asks_moving)

lemma receiving_quiet:
  assumes "asking_ports (fj_tracer J)" "asks_for J Receiving s = Some q"
  shows "quiet q"
  using within_asks(1) [OF receiving_within [OF assms(1)]] assms(2) by (simp add: asks_moving)

end
