(* ===== verification/FineEnds.thy ===== *)
theory FineEnds
  imports FineCalls
begin

text \<open>
  The machine with single system calls comes to an end: a measure of what the two threads still have
  to do decreases with every completed step, whatever has happened to the clock since the step began,
  and no step makes more calls than \<open>most_calls\<close>.
\<close>

section \<open>What is left to do\<close>

text \<open>No call turns the clock back, and \<open>poll\<close> takes time.\<close>

definition steady_calls :: "'w os \<Rightarrow> ('w \<Rightarrow> int) \<Rightarrow> bool" where
  "steady_calls os clk \<longleftrightarrow> (\<forall>q w. clk w \<le> clk (snd (perform os q w)))
     \<and> (\<forall>fds t w. clk w < clk (snd (perform os (Q_poll fds t) w)))
     \<and> (\<forall>w. fst (sys_now os w) = clk w)"

text \<open>The time a step that reads the clock goes by: the one it has read, or will read.\<close>

fun time_read :: "int \<Rightarrow> reply list \<Rightarrow> int" where
  "time_read now [] = now"
| "time_read now ((a, e) # rest) = get_int a"

abbreviation reading :: "('w \<Rightarrow> int) \<Rightarrow> 'w fine_state \<Rightarrow> int" where
  "reading clk s \<equiv> time_read (clk (fi_world s)) (of_thread Receiving (fi_replies s))"

definition fine_receiver_left :: "replay fast_job \<Rightarrow> ('w \<Rightarrow> int) \<Rightarrow> 'w fine_state \<Rightarrow> nat" where
  "fine_receiver_left J clk s =
     (case fs_receiver (fi_local s) of
        R_test b \<Rightarrow> receiver_left J id (R_test b) (reading clk s)
      | R_receive b \<Rightarrow>
          if of_thread Receiving (fi_replies s) = []
          then receiver_left J clk (R_receive b) (fi_world s)
          else 4 * time_left J clk b (fi_world s) + 4
      | pc \<Rightarrow> receiver_left J clk pc (fi_world s))"

definition fine_left :: "replay fast_job \<Rightarrow> ('w \<Rightarrow> int) \<Rightarrow> 'w fine_state \<Rightarrow> nat" where
  "fine_left J clk s = sender_left J (fs_sender (fi_local s)) + fine_receiver_left J clk s"

text \<open>The calls of the steps the threads are in, and the taking of the mutex.\<close>

definition calls_left :: "'w fine_state \<Rightarrow> nat" where
  "calls_left s = (most_calls (fi_local s) - length (of_thread Sending (fi_replies s)))
     + (most_calls (fi_local s) - length (of_thread Receiving (fi_replies s)))
     + (if fi_mutex s = None then 1 else 0)"

text \<open>What has been read of the clock is not in the future.\<close>

fun reads_clock :: "receiver_pc \<Rightarrow> bool" where
  "reads_clock R_start = True"
| "reads_clock (R_test b) = True"
| "reads_clock (R_receive b) = False"
| "reads_clock (R_lock b r) = False"
| "reads_clock R_collect = False"
| "reads_clock (R_done res) = False"
| "reads_clock (R_threw e) = False"

definition readings_ok :: "('w \<Rightarrow> int) \<Rightarrow> 'w fine_state \<Rightarrow> bool" where
  "readings_ok clk s \<longleftrightarrow> (reads_clock (fs_receiver (fi_local s)) \<longrightarrow>
     (\<forall>(a, e) \<in> set (of_thread Receiving (fi_replies s)). get_int a \<le> clk (fi_world s)))"

text \<open>The only call of a step that reads the clock, and the first call of the one that receives.\<close>

lemma asks_for_clock:
  assumes "asking_ports (fj_tracer J)" "asks_for J Receiving s = Some q"
    and "reads_clock (fs_receiver (fi_local s))"
  shows "q = Q_now \<and> of_thread Receiving (fi_replies s) = []"
proof -
  have "t_now (fj_tracer J) = ask Q_now get_int" using assms(1) by (simp add: asking_ports_def)
  with assms(2,3) show ?thesis
    by (cases "fs_receiver (fi_local s)"; cases "of_thread Receiving (fi_replies s)")
      (auto simp: asks_for_def attempt_def receiver_step_def Let_def ask_def given_def
        getTimeLeft_def getTimePassedTillNow_def split: if_splits prod.splits)
qed

lemma asks_for_poll:
  assumes "asking_ports (fj_tracer J)" "fs_receiver (fi_local s) = R_receive b"
    and "of_thread Receiving (fi_replies s) = []"
  shows "\<exists>fds t. asks_for J Receiving s = Some (Q_poll fds t)"
proof -
  obtain fds t where "rp_asked (snd (t_tryReceiving (fj_tracer J) (fs_buffer (fi_local s)) BufferSize
      (to_milliseconds (fj_timeout J)) (given [] (of_thread Receiving (fi_errno s)))))
    = Some (Q_poll fds t)"
    using assms(1) unfolding asking_ports_def by blast
  with assms(2,3) show ?thesis
    by (auto simp: asks_for_def attempt_def receiver_step_def Let_def split: prod.splits sum.splits)
qed

lemma fine_receiver_left_call:
  assumes ports: "asking_ports (fj_tracer J)" and steady: "steady_calls os clk"
    and asks: "asks_for J th s = Some q" and answer: "perform os q (fi_world s) = (a, w)"
  shows "fine_receiver_left J clk (answered_call th a w s) \<le> fine_receiver_left J clk s"
proof -
  have later: "clk (fi_world s) \<le> clk w"
    using steady answer unfolding steady_calls_def by (metis snd_conv)
  note mono = receiver_left_mono [of clk, OF later, of J] time_left_mono [of clk, OF later, of J]
  show ?thesis
  proof (cases th)
    case Sending
    then show ?thesis
      using mono(1) [of "fs_receiver (fi_local s)"] mono(2) receiver_left_mono [of id _ _ J]
      by (cases "fs_receiver (fi_local s)"; cases "of_thread Receiving (fi_replies s)")
        (auto simp: fine_receiver_left_def answered_call_def time_left_def)
  next
    case Receiving
    show ?thesis
    proof (cases "fs_receiver (fi_local s)")
      case (R_test b)
      then have q: "q = Q_now" "of_thread Receiving (fi_replies s) = []"
        using asks_for_clock [OF ports asks [unfolded Receiving]] by simp_all
      with answer steady have "get_int (fst a) = clk (fi_world s)"
        by (auto simp: replied_def get_int_def steady_calls_def split: prod.splits) (metis fst_conv)
      with R_test q show ?thesis
        by (cases a) (simp add: Receiving fine_receiver_left_def answered_call_def)
    next
      case (R_receive b)
      show ?thesis
      proof (cases "of_thread Receiving (fi_replies s) = []")
        case True
        from asks_for_poll [OF ports R_receive True] asks Receiving
        obtain fds t where "q = Q_poll fds t" by auto
        with answer steady have "clk (fi_world s) < clk w"
          unfolding steady_calls_def by (metis snd_conv)
        with True R_receive show ?thesis
          by (auto simp: Receiving fine_receiver_left_def answered_call_def time_left_def)
      next
        case False
        with R_receive mono(2) show ?thesis
          by (simp add: Receiving fine_receiver_left_def answered_call_def)
      qed
    qed (use mono(1) [of "fs_receiver (fi_local s)"] in
        \<open>simp_all add: Receiving fine_receiver_left_def answered_call_def\<close>)
  qed
qed

section \<open>Every step is progress\<close>

lemma sender_left_complete:
  assumes inv: "fast_inv J target old (fi_local s)" and bound: "fj_end J \<noteq> - 1"
    and run: "may_run Sending s"
  shows "fine_left J clk (completed J Sending s) < fine_left J clk s"
proof -
  have "\<not> sender_finished (fs_sender (fi_local s))" using run by (simp add: may_run_def)
  then have "sender_left J (fs_sender (attempt J Sending s)) < sender_left J (fs_sender (fi_local s))"
    using sender_left_step [OF fast_inv_world [OF inv] bound] by (simp add: attempt_def)
  moreover have "fs_receiver (attempt J Sending s) = fs_receiver (fi_local s)"
    unfolding attempt_def by simp
  ultimately show ?thesis
    by (simp add: fine_left_def fine_receiver_left_def completed_def
        split: receiver_pc.split)
qed

text \<open>A step that tests the deadline and goes on has read a time before it.\<close>

lemma test_goes_on:
  assumes "asking_ports (fj_tracer J)" "fs_receiver (fi_local s) = R_test b"
    and "asks_for J Receiving s = None"
  shows "fs_receiver (attempt J Receiving s) = R_collect
    \<or> (fs_receiver (attempt J Receiving s) = R_receive b \<and> 0 < time_left J id b (reading clk s))"
proof -
  let ?max = "expectedMaxTimeTaken (fj_timeout J)
      (expectedSize (fj_begin J) (fj_end J) (fj_retries J))"
  have now: "t_now (fj_tracer J) = ask Q_now get_int" using assms(1) by (simp add: asking_ports_def)
  show ?thesis
  proof (cases "ucast (getCurrentSize (fs_results (fi_local s)))
      < expectedSize (fj_begin J) (fj_end J) (fj_retries J)")
    case False
    with assms(2) show ?thesis by (simp add: attempt_def receiver_step_def)
  next
    case True
    with assms(2,3) now obtain a e rest where as: "of_thread Receiving (fi_replies s) = (a, e) # rest"
      by (cases "of_thread Receiving (fi_replies s)")
        (auto simp: asks_for_def attempt_def receiver_step_def Let_def ask_def given_def
          getTimeLeft_def getTimePassedTillNow_def)
    have "\<not> b + ?max * 1000 \<le> get_int a" if "\<not> ?max \<le> tdiv (get_int a - b) 1000"
      using tdiv_late that by blast
    with True assms(2) now as show ?thesis
      by (auto simp: attempt_def receiver_step_def Let_def ask_def given_def getTimeLeft_def
          getTimePassedTillNow_def time_left_def longest_def not_le)
  qed
qed

lemma receiver_left_complete:
  assumes ports: "asking_ports (fj_tracer J)" and read: "readings_ok clk s"
    and run: "may_run Receiving s" and asks: "asks_for J Receiving s = None"
  shows "fine_left J clk (completed J Receiving s) < fine_left J clk s"
proof -
  let ?l = "attempt J Receiving s"
  have sender: "fs_sender ?l = fs_sender (fi_local s)" unfolding attempt_def by simp
  have "fine_receiver_left J clk (completed J Receiving s) < fine_receiver_left J clk s"
  proof (cases "fs_receiver (fi_local s)")
    case R_start
    moreover obtain a e rest where as: "of_thread Receiving (fi_replies s) = (a, e) # rest"
      using asks R_start ports
      by (cases "of_thread Receiving (fi_replies s)")
        (auto simp: asks_for_def attempt_def receiver_step_def Let_def ask_def given_def
          asking_ports_def)
    moreover have "get_int a \<le> clk (fi_world s)"
      using read R_start as by (simp add: readings_ok_def)
    moreover have "fs_receiver ?l = R_test (get_int a)"
      using R_start as ports
      by (simp add: attempt_def receiver_step_def ask_def given_def asking_ports_def Let_def)
    ultimately show ?thesis
      by (simp add: fine_receiver_left_def completed_def time_left_def)
  next
    case (R_test b)
    have "time_left J clk b (fi_world s) \<le> time_left J id b (reading clk s)"
      using read R_test
      by (cases "of_thread Receiving (fi_replies s)")
        (auto simp: readings_ok_def time_left_def)
    with test_goes_on [OF ports R_test asks, of clk] R_test show ?thesis
      by (auto simp: fine_receiver_left_def completed_def)
  next
    case (R_receive b)
    have "of_thread Receiving (fi_replies s) \<noteq> []"
      using asks_for_poll [OF ports R_receive] asks by auto
    moreover have "(\<exists>e. fs_receiver ?l = R_threw e) \<or> (\<exists>r. fs_receiver ?l = R_lock b r)"
      using R_receive
      by (auto simp: attempt_def receiver_step_def Let_def split: prod.splits sum.splits)
    ultimately show ?thesis using R_receive by (auto simp: fine_receiver_left_def completed_def)
  next
    case (R_lock b r)
    then have "(\<exists>e. fs_receiver ?l = R_threw e) \<or> fs_receiver ?l = R_test b"
      by (auto simp: attempt_def receiver_step_def Let_def split: prod.splits sum.splits)
    with R_lock show ?thesis
      by (auto simp: fine_receiver_left_def completed_def time_left_def)
  next
    case R_collect
    then have "(\<exists>e. fs_receiver ?l = R_threw e) \<or> (\<exists>res. fs_receiver ?l = R_done res)"
      by (auto simp: attempt_def receiver_step_def Let_def split: prod.splits sum.splits)
    with R_collect show ?thesis by (auto simp: fine_receiver_left_def completed_def)
  qed (use run in \<open>simp_all add: may_run_def\<close>)
  with sender show ?thesis by (simp add: fine_left_def completed_def)
qed

lemma fine_step_left:
  assumes "fine_step os J s t" and ports: "asking_ports (fj_tracer J)"
    and steady: "steady_calls os clk" and inv: "fast_inv J target old (fi_local s)"
    and bound: "fj_end J \<noteq> - 1" and read: "readings_ok clk s"
  shows "(t, s) \<in> measures [fine_left J clk, calls_left]"
  using assms(1)
proof (rule fine_stepE)
  fix th
  assume locked: "t = s\<lparr>fi_mutex := Some th\<rparr>" "fi_mutex s = None"
  then have "reading clk t = reading clk s" by simp
  with locked show ?thesis
    by (simp add: fine_left_def fine_receiver_left_def calls_left_def split: receiver_pc.split)
next
  fix th q a w
  assume call: "t = answered_call th a w s" "asks_for J th s = Some q"
    "perform os q (fi_world s) = (a, w)"
  have "fine_left J clk t \<le> fine_left J clk s"
    using fine_receiver_left_call [OF ports steady call(2,3)] call(1)
    by (simp add: fine_left_def) (simp add: answered_call_def)
  moreover have "calls_left t < calls_left s"
    using asks_most_calls [OF ports call(2)] call(1)
    by (cases th) (auto simp: calls_left_def answered_call_def)
  ultimately show ?thesis by auto
next
  fix th
  assume ended: "t = completed J th s" "may_run th s" "asks_for J th s = None"
  have "fine_left J clk t < fine_left J clk s"
  proof (cases th)
    case Sending
    with ended sender_left_complete [OF inv bound] show ?thesis by simp
  next
    case Receiving
    with ended receiver_left_complete [OF ports read] show ?thesis by simp
  qed
  then show ?thesis by simp
qed

lemma fine_step_readings:
  assumes "fine_step os J s t" and ports: "asking_ports (fj_tracer J)"
    and steady: "steady_calls os clk" and read: "readings_ok clk s"
  shows "readings_ok clk t"
  using assms(1)
proof (rule fine_stepE)
  fix th q a w
  assume call: "t = answered_call th a w s" "asks_for J th s = Some q"
    "perform os q (fi_world s) = (a, w)"
  have later: "clk (fi_world s) \<le> clk w"
    using steady call(3) unfolding steady_calls_def by (metis snd_conv)
  show ?thesis
  proof (cases th)
    case Sending
    with read later call(1) show ?thesis
      by (fastforce simp: readings_ok_def answered_call_def)
  next
    case Receiving
    show ?thesis
    proof (cases "reads_clock (fs_receiver (fi_local s))")
      case True
      have "q = Q_now" "of_thread Receiving (fi_replies s) = []"
        using asks_for_clock [OF ports call(2) [unfolded Receiving] True] by simp_all
      moreover have "get_int (fst a) = clk (fi_world s)" if "q = Q_now"
        using that call(3) steady
        by (auto simp: replied_def get_int_def steady_calls_def split: prod.splits) (metis fst_conv)
      ultimately show ?thesis
        using call(1) later by (cases a) (simp add: Receiving readings_ok_def answered_call_def)
    qed (use call(1) in \<open>simp add: readings_ok_def answered_call_def\<close>)
  qed
next
  fix th
  assume "t = completed J th s"
  with read show ?thesis
    by (cases th) (auto simp: readings_ok_def completed_def attempt_def)
qed (use read in \<open>simp add: readings_ok_def\<close>)

section \<open>The end of a run\<close>

lemma fine_start_readings: "readings_ok clk (fine_start J old buf w)"
  by (simp add: readings_ok_def fine_start_def)

lemma fine_reach_readings:
  assumes "fine_reach os J (fine_start J old buf w) s" "asking_ports (fj_tracer J)"
    and "steady_calls os clk"
  shows "readings_ok clk s"
  using assms(1) unfolding fine_reach_def
proof (induction rule: rtranclp_induct)
  case base
  show ?case by (rule fine_start_readings)
next
  case (step s t)
  then show ?case using fine_step_readings assms(2,3) by blast
qed

text \<open>A step from a reachable state, and the order of the two measures.\<close>

lemma fine_run_left:
  assumes "fine_reach os J (fine_start J old buf w) s" "fine_step os J s t"
    and "tracer_ports (fj_tracer J) target" "asking_ports (fj_tracer J)" "steady_calls os clk"
    and "fj_end J \<noteq> - 1" "probes_ok target old"
  shows "(t, s) \<in> measures [fine_left J clk, calls_left]"
  using assms(2,4,5) fine_reach_inv [OF assms(1,3,6,7)] assms(6) fine_reach_readings [OF assms(1,4,5)]
  by (rule fine_step_left)

lemma fine_reach_trans: "fine_reach os J s t \<Longrightarrow> fine_step os J t u \<Longrightarrow> fine_reach os J s u"
  by (auto simp: fine_reach_def)

text \<open>A state from which a run leads to an outcome, however the threads are scheduled.\<close>

lemma fine_no_infinite_run:
  assumes "tracer_ports (fj_tracer J) target" "asking_ports (fj_tracer J)" "steady_calls os clk"
    and "fj_end J \<noteq> - 1" "probes_ok target old" "\<sigma> 0 = fine_start J old buf w"
  shows "\<exists>n. \<not> fine_step os J (\<sigma> n) (\<sigma> (Suc n))"
proof (rule ccontr)
  assume "\<nexists>n. \<not> fine_step os J (\<sigma> n) (\<sigma> (Suc n))"
  then have steps: "fine_step os J (\<sigma> n) (\<sigma> (Suc n))" for n by blast
  have "fine_reach os J (fine_start J old buf w) (\<sigma> n)" for n
  proof (induction n)
    case 0
    show ?case by (simp add: assms(6) fine_reach_def)
  next
    case (Suc n)
    then show ?case using steps fine_reach_trans by blast
  qed
  then have "(\<sigma> (Suc n), \<sigma> n) \<in> measures [fine_left J clk, calls_left]" for n
    using fine_run_left [OF _ steps assms(1-5)] by blast
  then show False
    using wf_measures [of "[fine_left J clk, calls_left]"]
    unfolding wf_iff_no_infinite_down_chain by blast
qed

lemma fine_outcome_reached:
  assumes "tracer_ports (fj_tracer J) target" "asking_ports (fj_tracer J)" "steady_calls os clk"
    and "fj_end J \<noteq> - 1" "probes_ok target old"
    and "fine_reach os J (fine_start J old buf w) s"
  shows "\<exists>t. fine_reach os J s t \<and> fine_outcome t \<noteq> None"
  using assms(6)
proof (induction s rule: wf_induct_rule [OF wf_measures [of "[fine_left J clk, calls_left]"]])
  case (1 s)
  show ?case
  proof (cases "fine_outcome s")
    case None
    then obtain t where t: "fine_step os J s t"
      using fine_progress [OF fine_reach_owner [OF "1.prems"]] by blast
    from "1.IH" [OF fine_run_left [OF "1.prems" t assms(1-5)] fine_reach_trans [OF "1.prems" t]] t
    show ?thesis unfolding fine_reach_def by (meson converse_rtranclp_into_rtranclp)
  next
    case (Some out)
    then show ?thesis by (auto simp: fine_reach_def)
  qed
qed

end
