(* ===== verification/FineProgress.thy ===== *)
theory FineProgress
  imports FineEnds FastProgress
begin

text \<open>
  Progress of the machine with single system calls: the receiving thread does not stop before it has
  the expected number of results or the whole time it has given itself is over.
\<close>

section \<open>When the receiving thread gives up\<close>

definition fine_gave_up :: "replay fast_job \<Rightarrow> ('w \<Rightarrow> int) \<Rightarrow> int \<Rightarrow> 'w fine_state \<Rightarrow> bool" where
  "fine_gave_up J clk t0 s \<longleftrightarrow>
     \<not> ucast (getCurrentSize (fs_results (fi_local s)))
         < expectedSize (fj_begin J) (fj_end J) (fj_retries J)
     \<or> t0 + longest J \<le> clk (fi_world s)"

definition fine_patient :: "replay fast_job \<Rightarrow> ('w \<Rightarrow> int) \<Rightarrow> int \<Rightarrow> 'w fine_state \<Rightarrow> bool" where
  "fine_patient J clk t0 s \<longleftrightarrow> t0 \<le> clk (fi_world s) \<and> (case fs_receiver (fi_local s) of
       R_start \<Rightarrow> \<forall>(a, e) \<in> set (of_thread Receiving (fi_replies s)). t0 \<le> get_int a
     | R_test b \<Rightarrow> t0 \<le> b \<and> b \<le> clk (fi_world s)
         \<and> (\<forall>(a, e) \<in> set (of_thread Receiving (fi_replies s)). b \<le> get_int a)
     | R_receive b \<Rightarrow> t0 \<le> b \<and> b \<le> clk (fi_world s)
     | R_lock b r \<Rightarrow> t0 \<le> b \<and> b \<le> clk (fi_world s)
     | R_collect \<Rightarrow> fine_gave_up J clk t0 s
     | R_done res \<Rightarrow> fine_gave_up J clk t0 s
     | R_threw e \<Rightarrow> True)"

lemma fine_patient_call:
  assumes "fine_patient J clk t0 s" "asking_ports (fj_tracer J)" "steady_calls os clk"
    and asks: "asks_for J th s = Some q" and answer: "perform os q (fi_world s) = (a, w)"
  shows "fine_patient J clk t0 (answered_call th a w s)"
proof -
  have later: "clk (fi_world s) \<le> clk w"
    using assms(3) answer unfolding steady_calls_def by (metis snd_conv)
  show ?thesis
  proof (cases "th = Receiving \<and> reads_clock (fs_receiver (fi_local s))")
    case True
    then have "q = Q_now" "of_thread Receiving (fi_replies s) = []"
      using asks_for_clock [OF assms(2), of s q] asks by auto
    moreover have "get_int (fst a) = clk (fi_world s)" if "q = Q_now"
      using that answer assms(3)
      by (auto simp: replied_def get_int_def steady_calls_def split: prod.splits) (metis fst_conv)
    ultimately show ?thesis
      using True assms(1) later
      by (cases a; cases "fs_receiver (fi_local s)")
        (auto simp: fine_patient_def answered_call_def)
  next
    case False
    then have "of_thread Receiving (for_thread th (fi_replies s) as) = of_thread Receiving (fi_replies s)
      \<or> \<not> reads_clock (fs_receiver (fi_local s))" for as
      by (cases th) simp_all
    with assms(1) later show ?thesis
      by (cases "fs_receiver (fi_local s)")
        (fastforce simp: fine_patient_def fine_gave_up_def answered_call_def)+
  qed
qed

text \<open>A step that stops waiting has counted enough results, or has read a time behind the deadline.\<close>

lemma test_gives_up:
  assumes "asking_ports (fj_tracer J)" "fs_receiver (fi_local s) = R_test b"
    and "asks_for J Receiving s = None" "fs_receiver (attempt J Receiving s) = R_collect"
    and "fine_patient J clk t0 s" "readings_ok clk s"
  shows "fine_gave_up J clk t0 s"
proof (cases "ucast (getCurrentSize (fs_results (fi_local s)))
    < expectedSize (fj_begin J) (fj_end J) (fj_retries J)")
  case True
  have now: "t_now (fj_tracer J) = ask Q_now get_int" using assms(1) by (simp add: asking_ports_def)
  from True assms(2,3) now obtain a e rest where
    as: "of_thread Receiving (fi_replies s) = (a, e) # rest"
    by (cases "of_thread Receiving (fi_replies s)")
      (auto simp: asks_for_def attempt_def receiver_step_def Let_def ask_def given_def
        getTimeLeft_def getTimePassedTillNow_def)
  let ?max = "expectedMaxTimeTaken (fj_timeout J)
      (expectedSize (fj_begin J) (fj_end J) (fj_retries J))"
  have bounds: "t0 \<le> b" "b \<le> get_int a" "get_int a \<le> clk (fi_world s)"
    using assms(2,5,6) as by (auto simp: fine_patient_def readings_ok_def)
  have "?max \<le> tdiv (get_int a - b) 1000"
    using True assms(2,4) now as
    by (auto simp: attempt_def receiver_step_def Let_def ask_def given_def getTimeLeft_def
        getTimePassedTillNow_def split: if_splits)
  then have "?max \<le> (get_int a - b) div 1000" using bounds(2) by simp
  also have "\<dots> * 1000 \<le> get_int a - b" by simp
  finally have "b + longest J \<le> get_int a" by (simp add: longest_def)
  with bounds show ?thesis by (simp add: fine_gave_up_def)
qed (simp add: fine_gave_up_def)

lemma attempt_results:
  "reads_clock (fs_receiver (fi_local s)) \<or> fs_receiver (fi_local s) = R_collect \<Longrightarrow>
     fs_results (attempt J Receiving s) = fs_results (fi_local s)"
  by (cases "fs_receiver (fi_local s)")
    (auto simp: attempt_def receiver_step_def Let_def split: prod.splits sum.splits)

lemma fine_patient_complete:
  assumes inv: "fine_patient J clk t0 s" and ports: "asking_ports (fj_tracer J)"
    and read: "readings_ok clk s" and run: "may_run Receiving s" and asks: "asks_for J Receiving s = None"
  shows "fine_patient J clk t0 (completed J Receiving s)"
proof (cases "fs_receiver (fi_local s)")
  case R_start
  moreover obtain a e rest where as: "of_thread Receiving (fi_replies s) = (a, e) # rest"
    using asks R_start ports
    by (cases "of_thread Receiving (fi_replies s)")
      (auto simp: asks_for_def attempt_def receiver_step_def Let_def ask_def given_def
        asking_ports_def)
  moreover have "t0 \<le> get_int a \<and> get_int a \<le> clk (fi_world s)"
    using read inv R_start as by (simp add: readings_ok_def fine_patient_def)
  moreover have "fs_receiver (attempt J Receiving s) = R_test (get_int a)"
    using R_start as ports
    by (simp add: attempt_def receiver_step_def ask_def given_def asking_ports_def Let_def)
  ultimately show ?thesis using inv by (simp add: fine_patient_def completed_def)
next
  case (R_test b)
  have "fine_gave_up J clk t0 (completed J Receiving s)"
    if "fs_receiver (attempt J Receiving s) = R_collect"
    using test_gives_up [OF ports R_test asks that inv read] R_test
    by (simp add: fine_gave_up_def completed_def attempt_results)
  with test_goes_on [OF ports R_test asks, of clk] R_test inv show ?thesis
    by (auto simp: fine_patient_def completed_def)
next
  case (R_receive b)
  then have "(\<exists>e. fs_receiver (attempt J Receiving s) = R_threw e)
      \<or> (\<exists>r. fs_receiver (attempt J Receiving s) = R_lock b r)"
    by (auto simp: attempt_def receiver_step_def Let_def split: prod.splits sum.splits)
  with R_receive inv show ?thesis by (auto simp: fine_patient_def completed_def)
next
  case (R_lock b r)
  then have "(\<exists>e. fs_receiver (attempt J Receiving s) = R_threw e)
      \<or> fs_receiver (attempt J Receiving s) = R_test b"
    by (auto simp: attempt_def receiver_step_def Let_def split: prod.splits sum.splits)
  with R_lock inv show ?thesis by (auto simp: fine_patient_def completed_def)
next
  case R_collect
  then have "(\<exists>e. fs_receiver (attempt J Receiving s) = R_threw e)
      \<or> (\<exists>res. fs_receiver (attempt J Receiving s) = R_done res)"
    by (auto simp: attempt_def receiver_step_def Let_def split: prod.splits sum.splits)
  with R_collect inv show ?thesis
    by (auto simp: fine_patient_def fine_gave_up_def completed_def attempt_results)
qed (use run in \<open>simp_all add: may_run_def\<close>)

lemma sending_results: "fs_results (attempt J Sending s) = fs_results (fi_local s)"
  by (auto simp: attempt_def sender_step_def split: sender_pc.splits prod.splits sum.splits)

lemma fine_step_patient:
  assumes "fine_step os J s t" and inv: "fine_patient J clk t0 s"
    and ports: "asking_ports (fj_tracer J)" and steady: "steady_calls os clk"
    and read: "readings_ok clk s"
  shows "fine_patient J clk t0 t"
  using assms(1)
proof (rule fine_stepE)
  fix th
  assume "t = s\<lparr>fi_mutex := Some th\<rparr>"
  with inv show ?thesis
    by (simp add: fine_patient_def fine_gave_up_def split: receiver_pc.splits)
next
  fix th q a w
  assume "t = answered_call th a w s" "asks_for J th s = Some q"
    "perform os q (fi_world s) = (a, w)"
  with fine_patient_call [OF inv ports steady] show ?thesis by simp
next
  fix th
  assume ended: "t = completed J th s" "may_run th s" "asks_for J th s = None"
  show ?thesis
  proof (cases th)
    case Sending
    have "fs_receiver (attempt J Sending s) = fs_receiver (fi_local s)" by (simp add: attempt_def)
    with inv Sending ended(1) show ?thesis
      by (simp add: fine_patient_def fine_gave_up_def completed_def sending_results
          split: receiver_pc.splits)
  next
    case Receiving
    with ended fine_patient_complete [OF inv ports read] show ?thesis by simp
  qed
qed

lemma fine_reach_patient:
  assumes "fine_reach os J (fine_start J old buf w) s" "asking_ports (fj_tracer J)"
    and "steady_calls os clk"
  shows "fine_patient J clk (clk w) s"
  using assms(1) unfolding fine_reach_def
proof (induction rule: rtranclp_induct)
  case base
  show ?case by (simp add: fine_patient_def fine_start_def Fast_start_def)
next
  case (step s t)
  then show ?case
    using fine_step_patient assms(2,3) fine_reach_readings [OF _ assms(2,3)]
    unfolding fine_reach_def by blast
qed

text \<open>A run that ends before its time is over has the expected number of results.\<close>

lemma fine_in_time_enough:
  assumes "fine_reach os J (fine_start J old buf w) s" "asking_ports (fj_tracer J)"
    and "steady_calls os clk" "fine_outcome s = Some (Inr res)"
    and "clk (fi_world s) < clk w + longest J"
  shows "\<not> ucast (getCurrentSize (fs_results (fi_local s)))
      < expectedSize (fj_begin J) (fj_end J) (fj_retries J)"
proof -
  have "fs_receiver (fi_local s) = R_done res"
    using assms(4) by (auto simp: fine_outcome_def Fast_outcome_def split: receiver_pc.splits if_splits)
  with fine_reach_patient [OF assms(1-3)] assms(5) show ?thesis
    by (simp add: fine_patient_def fine_gave_up_def)
qed

end
