(* ===== verification/FineWire.thy ===== *)
theory FineWire
  imports FineCalls Wire
begin

text \<open>
  What the two threads put on the wire when they are interleaved at every system call. An operation
  that returns has a trace, its calls with their answers, made up of the traces of its parts; the
  calls of the thread that sends, between which the other thread may have made its own, are those of
  a probe with its hop limit.
\<close>

section \<open>Traces\<close>

text \<open>
  \<open>prompted g e tr\<close>: each call of the trace is the one \<open>g\<close> asks for, given the answers before it.
  \<open>executes g e tr x e'\<close>: with all of them \<open>g\<close> returns \<open>x\<close>.
\<close>

definition prompted :: "(replay \<Rightarrow> 'a \<times> replay) \<Rightarrow> int \<Rightarrow> (request \<times> reply) list \<Rightarrow> bool" where
  "prompted g e tr \<longleftrightarrow> (\<forall>pre q a post. tr = pre @ (q, a) # post \<longrightarrow>
     rp_asked (snd (g (given (map snd pre) e))) = Some q)"

definition executes ::
    "(replay \<Rightarrow> 'a \<times> replay) \<Rightarrow> int \<Rightarrow> (request \<times> reply) list \<Rightarrow> 'a \<Rightarrow> int \<Rightarrow> bool" where
  "executes g e tr x e' \<longleftrightarrow> prompted g e tr \<and> g (given (map snd tr) e) = (x, given [] e')"

lemma given_inject [simp]: "given as e = given as' e' \<longleftrightarrow> as = as' \<and> e = e'"
  by (auto simp: given_def)

lemma given_not_asked [simp]: "rp_asked (given as e) = None"
  by (simp add: given_def)

lemma promptedD:
  "prompted g e tr \<Longrightarrow> tr = pre @ (q, a) # post \<Longrightarrow>
     rp_asked (snd (g (given (map snd pre) e))) = Some q"
  by (simp add: prompted_def)

lemma prompted_Nil [simp]: "prompted g e []"
  by (simp add: prompted_def)

lemma prompted_snoc:
  assumes "prompted g e tr" "rp_asked (snd (g (given (map snd tr) e))) = Some q"
  shows "prompted g e (tr @ [(q, a)])"
  unfolding prompted_def
proof (intro allI impI)
  fix pre q' a' post
  assume split: "tr @ [(q, a)] = pre @ (q', a') # post"
  show "rp_asked (snd (g (given (map snd pre) e))) = Some q'"
  proof (cases post rule: rev_cases)
    case Nil
    with split assms(2) show ?thesis by simp
  next
    case (snoc ys y)
    with split have "tr = pre @ (q', a') # ys" by simp
    with assms(1) show ?thesis by (rule promptedD)
  qed
qed

lemma returnedE:
  assumes "returned n g as e"
  obtains us rest e' where "as = us @ rest" "length us \<le> n"
    "\<And>rest'. g (given (us @ rest') e) = (fst (g (given as e)), given rest' e')"
  using assms unfolding returned_def by blast

lemma prompted_executes:
  assumes "within A n g" "prompted g e tr" "rp_asked (snd (g (given (map snd tr) e))) = None"
  shows "\<exists>x e'. executes g e tr x e'"
proof -
  obtain us rest e' where us: "map snd tr = us @ rest"
    and eq: "\<And>rest'. g (given (us @ rest') e) = (fst (g (given (map snd tr) e)), given rest' e')"
    using returnedE [OF within_returns [OF assms(1,3)]] by metis
  have "rest = []"
  proof (rule ccontr)
    assume "rest \<noteq> []"
    with us obtain pre q a post where "tr = pre @ (q, a) # post" "map snd pre = us"
      by (cases rest) (auto simp: map_eq_append_conv map_eq_Cons_conv)
    with promptedD [OF assms(2)] have "rp_asked (snd (g (given us e))) = Some q" by metis
    moreover have "snd (g (given us e)) = given [] e'" using eq [of "[]"] by simp
    ultimately show False by simp
  qed
  with eq [of "[]"] us have "g (given (map snd tr) e) = (fst (g (given (map snd tr) e)), given [] e')"
    by simp
  with assms(2) show ?thesis unfolding executes_def by blast
qed

lemma executes_within:
  assumes "within A n g" "executes g e tr x e'" "(q, a) \<in> set tr"
  shows "q \<in> A"
proof -
  from assms(3) obtain pre post where "tr = pre @ (q, a) # post" by (meson split_list)
  with assms(2) have "rp_asked (snd (g (given (map snd pre) e))) = Some q"
    by (auto simp: executes_def dest: promptedD)
  with assms(1) show ?thesis by (rule within_asks(1))
qed

lemma prompted_first:
  assumes tr: "prompted (andThen g k) e (tr1 @ tr2)" and g: "within A m g" and k: "\<And>x. stuck (k x)"
    and first: "g (given (map snd tr1) e) = (x, given [] e1)"
  shows "prompted g e tr1"
  unfolding prompted_def
proof (intro allI impI)
  fix pre q a post
  assume pre: "tr1 = pre @ (q, a) # post"
  with promptedD [OF tr, of pre q a "post @ tr2"]
  have asks: "rp_asked (snd (andThen g k (given (map snd pre) e))) = Some q" by simp
  show "rp_asked (snd (g (given (map snd pre) e))) = Some q"
  proof (cases "rp_asked (snd (g (given (map snd pre) e)))")
    case None
    obtain us rest e' where us: "map snd pre = us @ rest"
      and eq: "\<And>rest'. g (given (us @ rest') e) = (fst (g (given (map snd pre) e)), given rest' e')"
      using returnedE [OF within_returns [OF g None]] by metis
    have "snd (g (given (map snd tr1) e)) = given (rest @ a # map snd post) e'"
      using eq [of "rest @ a # map snd post"] us pre by simp
    with first show ?thesis by simp
  next
    case (Some q')
    moreover note within_asks(2) [OF g Some]
    ultimately have "rp_asked (snd (andThen g k (given (map snd pre) e))) = Some q'"
      using k by (auto simp: andThen_def stuck_def split: prod.split)
    with asks Some show ?thesis by simp
  qed
qed

lemma executes_andThen:
  assumes run: "executes (andThen g k) e tr y e'" and g: "within A m g" and k: "\<And>x. stuck (k x)"
  obtains tr1 tr2 x e1 where "tr = tr1 @ tr2" "executes g e tr1 x e1" "executes (k x) e1 tr2 y e'"
proof -
  let ?as = "map snd tr"
  have whole: "andThen g k (given ?as e) = (y, given [] e')" and prompts: "prompted (andThen g k) e tr"
    using run by (simp_all add: executes_def)
  have "rp_asked (snd (g (given ?as e))) = None"
  proof (rule ccontr)
    assume "rp_asked (snd (g (given ?as e))) \<noteq> None"
    then obtain q where "rp_asked (snd (g (given ?as e))) = Some q" by blast
    with within_asks(2) [OF g this] k
    have "rp_asked (snd (andThen g k (given ?as e))) = Some q"
      by (auto simp: andThen_def stuck_def split: prod.split)
    with whole show False by simp
  qed
  then obtain us rest e1 where us: "?as = us @ rest"
    and eq: "\<And>rest'. g (given (us @ rest') e) = (fst (g (given ?as e)), given rest' e1)"
    using returnedE [OF within_returns [OF g]] by metis
  then obtain tr1 tr2 where tr: "tr = tr1 @ tr2" "map snd tr1 = us" "map snd tr2 = rest"
    by (auto simp: map_eq_append_conv)
  let ?x = "fst (g (given ?as e))"
  have through: "andThen g k (given (us @ rest') e) = k ?x (given rest' e1)" for rest'
    by (simp add: andThen_def eq)
  have first: "g (given (map snd tr1) e) = (?x, given [] e1)" using eq [of "[]"] tr(2) by simp
  have "executes g e tr1 ?x e1"
    using prompted_first [OF prompts [unfolded tr(1)] g k first] first by (simp add: executes_def)
  moreover have "prompted (k ?x) e1 tr2"
    unfolding prompted_def
  proof (intro allI impI)
    fix pre q a post
    assume "tr2 = pre @ (q, a) # post"
    with promptedD [OF prompts, of "tr1 @ pre" q a post] tr through [of "map snd pre"]
    show "rp_asked (snd (k ?x (given (map snd pre) e1))) = Some q" by simp
  qed
  then have "executes (k ?x) e1 tr2 y e'"
    using through [of rest] us whole tr(3) by (simp add: executes_def)
  ultimately show thesis using tr(1) that by blast
qed

lemma executes_ask:
  assumes "executes (ask q read) e tr x e'"
  shows "\<exists>a. tr = [(q, a)] \<and> x = read (fst a) \<and> e' = snd a"
proof (cases tr)
  case Nil
  with assms show ?thesis by (auto simp: executes_def ask_def given_def)
next
  case (Cons qa rest)
  obtain q' a where qa: "qa = (q', a)" by (cases qa)
  with Cons assms have "rp_asked (snd (ask q read (given [] e))) = Some q'"
    by (auto simp: executes_def dest: promptedD [of _ _ _ "[]"])
  then have "q' = q" by (simp add: ask_def given_def)
  with Cons qa assms show ?thesis
    by (cases a) (auto simp: executes_def ask_def given_def)
qed

lemma executes_unit: "executes (\<lambda>r. (x, r)) e tr y e' \<longleftrightarrow> tr = [] \<and> y = x \<and> e' = e"
  by (auto simp: executes_def prompted_def neq_Nil_conv)

lemma executes_basic [simp]:
  "executes (returnE x) e tr y e' \<longleftrightarrow> tr = [] \<and> y = Inr x \<and> e' = e"
  "executes (throwE ex) e tr z e' \<longleftrightarrow> tr = [] \<and> z = Inl ex \<and> e' = e"
  "executes (pureE m) e tr u e' \<longleftrightarrow> tr = [] \<and> u = m \<and> e' = e"
  by (simp_all add: returnE_def throwE_def pureE_def executes_unit)

lemma executes_failE: "executes (failE msg) e tr y e' \<Longrightarrow> isl y"
  by (auto simp: executes_def failE_def)

lemma executes_bindE:
  assumes "executes (bindE g k) e tr (Inr y) e'" "within A m g" "\<And>x. stuck (k x)"
  obtains tr1 tr2 x e1 where "tr = tr1 @ tr2" "executes g e tr1 (Inr x) e1"
    "executes (k x) e1 tr2 (Inr y) e'"
proof -
  have stuck: "stuck (case r of Inl ex \<Rightarrow> throwE ex | Inr x \<Rightarrow> k x)" for r
    using assms(3) by (auto simp: stuck_def throwE_def split: sum.split)
  obtain tr1 tr2 r e1 where parts: "tr = tr1 @ tr2" "executes g e tr1 r e1"
    "executes (case r of Inl ex \<Rightarrow> throwE ex | Inr x \<Rightarrow> k x) e1 tr2 (Inr y) e'"
    using executes_andThen [OF assms(1) [unfolded bindE_andThen] assms(2) stuck] by metis
  from parts(3) obtain x where "r = Inr x" by (cases r) simp_all
  with parts that show thesis by simp
qed

lemma executes_callE: "executes (callE g) e tr y e' \<Longrightarrow> \<exists>x. y = Inr x \<and> executes g e tr x e'"
  by (cases "g (given (map snd tr) e)") (auto simp: executes_def prompted_def callE_def
      split: prod.splits)

lemma executes_call:
  assumes "executes (callE (ask q read)) e tr (Inr r) e'"
  shows "\<exists>a. tr = [(q, a)] \<and> r = read (fst a)"
proof -
  have "executes (ask q read) e tr r e'" using executes_callE [OF assms] by simp
  from executes_ask [OF this] show ?thesis by blast
qed

section \<open>The trace of sending a probe\<close>

definition silent :: "(request \<times> reply) list \<Rightarrow> bool" where
  "silent tr \<longleftrightarrow> (\<forall>(q, a) \<in> set tr. quiet q)"

lemma stuck_intros:
  "stuck (returnE x)" "stuck (throwE ex)" "stuck (failE msg)" "stuck (pureE m)"
  by (simp_all add: stuck_def returnE_def throwE_def failE_def pureE_def)

lemma replaying_calls:
  "sys_setsockopt (replaying os) fd l opt v = ask (Q_setsockopt fd l opt v) get_int"
  "sys_sendto (replaying os) fd d a n = ask (Q_sendto fd d a n) get_int"
  by (simp_all add: replaying_def)

lemma create_trace: "executes (createPacket (replaying os) f) e tr r e' \<Longrightarrow> silent tr"
  using executes_within [OF within_createPacket] by (auto simp: silent_def)

lemma setTtl_trace:
  assumes "executes (setTtl (replaying os) ds (sint (ttl :: u32))) e tr (Inr u) e'"
  shows "\<exists>a. 0 \<le> get_int (fst a) \<and> tr = [(Q_setsockopt (mSendingSocket ds)
      (if mFamily ds = AF_INET then 0 else 41) (if mFamily ds = AF_INET then 2 else 16) (le32 ttl), a)]"
proof -
  let ?q = "Q_setsockopt (mSendingSocket ds) (if mFamily ds = AF_INET then 0 else 41)
      (if mFamily ds = AF_INET then 2 else 16) (le32 ttl)"
  let ?k = "\<lambda>r. if r < 0 then failE (\<lambda>w. ''Could not set ttl:'' @ errno_string (replaying os) w)
      else returnE ()"
  have "setTtl (replaying os) ds (sint ttl) = bindE (callE (ask ?q get_int)) ?k"
    by (simp add: setTtl_def Let_def replaying_calls)
  with assms have run: "executes (bindE (callE (ask ?q get_int)) ?k) e tr (Inr u) e'" by simp
  have "stuck (?k r)" for r by (simp add: stuck_intros)
  then obtain tr1 tr2 r e1 where parts: "tr = tr1 @ tr2"
    "executes (callE (ask ?q get_int)) e tr1 (Inr r) e1" "executes (?k r) e1 tr2 (Inr u) e'"
    by (rule executes_bindE [OF run within_callE [OF within_ask [OF UNIV_I]]], blast)
  from parts(3) have "0 \<le> r" "tr2 = []"
    by (auto dest: executes_failE split: if_splits)
  moreover obtain a where "tr1 = [(?q, a)]" "r = get_int (fst a)"
    using executes_call [OF parts(2)] by blast
  ultimately show ?thesis using parts(1) by (intro exI [of _ a]) simp
qed

lemma poll_trace:
  assumes "executes (Poll_one (replaying os) fd ev t) e tr r e'"
  shows "silent tr"
proof -
  have "within {q. quiet q} 1 (Poll_one (replaying os) fd ev t)"
    unfolding Poll_one_def
    by (rule within_mono [OF _ subset_refl], (rule within_intros quiet_calls)+) simp
  from executes_within [OF this assms] show ?thesis by (auto simp: silent_def)
qed

text \<open>The calls of a probe that has been sent.\<close>

definition probe_calls :: "DataSender \<Rightarrow> u32 \<Rightarrow> packet \<Rightarrow> (request \<times> reply) list \<Rightarrow> bool" where
  "probe_calls ds ttl p tr \<longleftrightarrow> (\<exists>before between a1 a2.
     silent before \<and> silent between \<and> 0 \<le> get_int (fst a1) \<and> 0 < get_int (fst a2)
     \<and> tr = before @ (Q_setsockopt (mSendingSocket ds) (if mFamily ds = AF_INET then 0 else 41)
                (if mFamily ds = AF_INET then 2 else 16) (le32 ttl), a1)
            # between @ [(Q_sendto (mSendingSocket ds) (serialize p)
                (sockaddrP (getDestinationAddress p)) (addr_size (getDestinationAddress p)), a2)])"

lemma within_setTtl: "within UNIV 1 (setTtl (replaying os) ds ttl)"
  unfolding setTtl_def Let_def
  by (rule within_mono [OF _ subset_refl], (rule within_intros UNIV_I)+) simp

lemma within_Poll_one: "within UNIV 1 (Poll_one (replaying os) fd ev t)"
  unfolding Poll_one_def
  by (rule within_mono [OF _ subset_refl], (rule within_intros UNIV_I)+) simp

lemma trySending_trace:
  assumes "executes (trySending (replaying os) ds p (sint ttl) t) e tr (Inr True) e'"
  shows "probe_calls ds ttl p tr"
proof -
  let ?a = "getDestinationAddress p"
  let ?q = "Q_sendto (mSendingSocket ds) (serialize p) (sockaddrP ?a) (addr_size ?a)"
  let ?k3 = "\<lambda>result. if result < 0
      then failE (\<lambda>w. ''Error occured while sending data '' @ errno_string (replaying os) w)
      else returnE (result \<noteq> 0)"
  let ?k2 = "\<lambda>ready. if ready then bindE (callE (ask ?q get_int)) ?k3 else returnE False"
  let ?k1 = "\<lambda>_. if mFamily ds \<noteq> family ?a
      then throwE (Invalid_argument
             ''Provided address's family doesn't match family of source address'')
      else bindE (Poll_one (replaying os) (mSendingSocket ds) POLLOUT t) ?k2"
  have ask: "within UNIV 1 (callE (ask ?q get_int))" by (intro within_callE within_ask UNIV_I)
  have k3: "within UNIV 0 (?k3 r)" for r
    by (rule within_mono [OF _ subset_refl], (rule within_intros)+) simp
  have k2: "within UNIV 1 (?k2 b)" for b
    by (rule within_mono [OF _ subset_refl], (rule within_intros ask k3)+) simp
  have k1: "within UNIV 2 (?k1 u)" for u
    by (rule within_mono [OF _ subset_refl], (rule within_intros within_Poll_one k2)+) simp
  have "trySending (replaying os) ds p (sint ttl) t = bindE (setTtl (replaying os) ds (sint ttl)) ?k1"
    unfolding trySending_def Let_def replaying_calls ..
  with assms have run: "executes (bindE (setTtl (replaying os) ds (sint ttl)) ?k1) e tr (Inr True) e'"
    by simp
  obtain tr1 tr2 u e1 where one: "tr = tr1 @ tr2"
    "executes (setTtl (replaying os) ds (sint ttl)) e tr1 (Inr u) e1"
    "executes (?k1 u) e1 tr2 (Inr True) e'"
    by (rule executes_bindE [OF run within_setTtl within_stuck [OF k1]], blast)
  from one(3) have run2: "executes (bindE (Poll_one (replaying os) (mSendingSocket ds) POLLOUT t) ?k2)
      e1 tr2 (Inr True) e'"
    by (cases "mFamily ds = family ?a") simp_all
  obtain tr3 tr4 b e2 where two: "tr2 = tr3 @ tr4"
    "executes (Poll_one (replaying os) (mSendingSocket ds) POLLOUT t) e1 tr3 (Inr b) e2"
    "executes (?k2 b) e2 tr4 (Inr True) e'"
    by (rule executes_bindE [OF run2 within_Poll_one within_stuck [OF k2]], blast)
  from two(3) have run3: "executes (bindE (callE (ask ?q get_int)) ?k3) e2 tr4 (Inr True) e'"
    by (cases b) simp_all
  obtain tr5 tr6 r e3 where three: "tr4 = tr5 @ tr6"
    "executes (callE (ask ?q get_int)) e2 tr5 (Inr r) e3" "executes (?k3 r) e3 tr6 (Inr True) e'"
    by (rule executes_bindE [OF run3 ask within_stuck [OF k3]], blast)
  from three(3) have "0 < r" "tr6 = []" by (auto dest: executes_failE split: if_splits)
  moreover obtain a2 where "tr5 = [(?q, a2)]" "r = get_int (fst a2)"
    using executes_call [OF three(2)] by blast
  moreover obtain a1 where "0 \<le> get_int (fst a1)" "tr1 = [(Q_setsockopt (mSendingSocket ds)
      (if mFamily ds = AF_INET then 0 else 41) (if mFamily ds = AF_INET then 2 else 16) (le32 ttl), a1)]"
    using setTtl_trace [OF one(2)] by blast
  ultimately show ?thesis
    unfolding probe_calls_def one(1) two(1) three(1)
    using poll_trace [OF two(2)]
    by (intro exI [of _ "[]"] exI [of _ tr3] exI [of _ a1] exI [of _ a2]) (simp add: silent_def)
qed

lemma send_one_trace:
  assumes "executes (send_one (tracer_of (replaying os) ds f) ttl) e tr (Inr p) e'"
  shows "probe_calls ds ttl p tr"
proof -
  let ?k2 = "\<lambda>packet sent. if \<not> sent
      then throwE (Runtime_error ''Failed to send a packet'') else returnE packet"
  let ?k1 = "\<lambda>packet. bindE (trySending (replaying os) ds packet (sint ttl) 5000) (?k2 packet)"
  have k2: "within UNIV 0 (?k2 packet b)" for packet b
    by (rule within_mono [OF _ subset_refl], (rule within_intros)+) simp
  have k1: "within UNIV 3 (?k1 packet)" for packet
    by (rule within_mono [OF _ subset_refl], (rule within_intros within_trySending k2)+) simp
  have "send_one (tracer_of (replaying os) ds f) ttl = bindE (createPacket (replaying os) f) ?k1"
    by (simp add: send_one_def tracer_of_def)
  with assms have run: "executes (bindE (createPacket (replaying os) f) ?k1) e tr (Inr p) e'" by simp
  obtain tr1 tr2 packet e1 where one: "tr = tr1 @ tr2"
    "executes (createPacket (replaying os) f) e tr1 (Inr packet) e1"
    "executes (?k1 packet) e1 tr2 (Inr p) e'"
    by (rule executes_bindE [OF run within_createPacket within_stuck [OF k1]], blast)
  obtain tr3 tr4 b e2 where two: "tr2 = tr3 @ tr4"
    "executes (trySending (replaying os) ds packet (sint ttl) 5000) e1 tr3 (Inr b) e2"
    "executes (?k2 packet b) e2 tr4 (Inr p) e'"
    by (rule executes_bindE [OF one(3) within_trySending within_stuck [OF k2]], blast)
  from two(3) have "b" "p = packet" "tr4 = []" by (cases b; simp)+
  with two(2) have "probe_calls ds ttl p tr3" by (intro trySending_trace) simp
  then obtain before between a1 a2 where "silent before" "silent between" "0 \<le> get_int (fst a1)"
    "0 < get_int (fst a2)" "tr3 = before @ (Q_setsockopt (mSendingSocket ds)
        (if mFamily ds = AF_INET then 0 else 41) (if mFamily ds = AF_INET then 2 else 16) (le32 ttl), a1)
      # between @ [(Q_sendto (mSendingSocket ds) (serialize p)
        (sockaddrP (getDestinationAddress p)) (addr_size (getDestinationAddress p)), a2)]"
    unfolding probe_calls_def by blast
  with create_trace [OF one(2)] \<open>tr4 = []\<close> show ?thesis
    unfolding probe_calls_def one(1) two(1)
    by (intro exI [of _ "tr1 @ before"] exI [of _ between] exI [of _ a1] exI [of _ a2])
      (auto simp: silent_def)
qed

section \<open>The record\<close>

fun events_of :: "request \<times> reply \<Rightarrow> wire_event list" where
  "events_of (Q_setsockopt fd level opt v, a) = [Option_set fd level opt v (get_int (fst a))]"
| "events_of (Q_sendto fd d to n, a) = [Datagram fd d to (get_int (fst a))]"
| "events_of _ = []"

definition events :: "(request \<times> reply) list \<Rightarrow> wire_event list" where
  "events tr = concat (map events_of tr)"

lemma events_simps [simp]: "events [] = []" "events (qa # tr) = events_of qa @ events tr"
  "events (tr @ tr') = events tr @ events tr'"
  by (simp_all add: events_def)

lemma quiet_events: "quiet q \<Longrightarrow> events_of (q, a) = []"
  by (cases q) simp_all

lemma silent_events: "silent tr \<Longrightarrow> events tr = []"
  by (induction tr) (auto simp: silent_def quiet_events)

lemma perform_recording:
  "perform (recording os) q (w, es)
     = (fst (perform os q w), (snd (perform os q w), es @ events_of (q, fst (perform os q w))))"
  by (cases q) (auto simp: replied_def recording_def recorded_def unrecorded_def get_int_def
      split: prod.splits)

text \<open>The calls of a probe are one departure, with the probe's own hop limit.\<close>

lemma probe_departs:
  assumes "probe_calls ds ttl p tr"
  shows "departs ds (w, es) (w', es @ events tr) [(ttl, p)]"
  using assms by (auto simp: probe_calls_def departs_def silent_events)

lemma replaying_recording [simp]: "replaying (recording os) = replaying os"
  by (simp add: replaying_def recording_def)

section \<open>Recording changes nothing\<close>

definition with_record :: "wire_event list \<Rightarrow> 'w fine_state \<Rightarrow> ('w \<times> wire_event list) fine_state" where
  "with_record es s = \<lparr>fi_world = (fi_world s, es), fi_mutex = fi_mutex s, fi_local = fi_local s,
     fi_replies = fi_replies s, fi_errno = fi_errno s\<rparr>"

lemma with_record_simps [simp]:
  "fi_world (with_record es s) = (fi_world s, es)" "fi_mutex (with_record es s) = fi_mutex s"
  "fi_local (with_record es s) = fi_local s" "fi_replies (with_record es s) = fi_replies s"
  "fi_errno (with_record es s) = fi_errno s" "fine_outcome (with_record es s) = fine_outcome s"
  by (simp_all add: with_record_def fine_outcome_def)

lemma with_record_steps [simp]:
  "attempt J th (with_record es s) = attempt J th s"
  "asks_for J th (with_record es s) = asks_for J th s"
  "may_run th (with_record es s) = may_run th s"
  by (simp_all add: attempt_def asks_for_def may_run_def)

lemma with_record_update:
  "with_record es (s\<lparr>fi_local := l, fi_replies := r, fi_errno := e, fi_mutex := m\<rparr>)
    = (with_record es s)\<lparr>fi_local := l, fi_replies := r, fi_errno := e, fi_mutex := m\<rparr>"
  by (simp add: with_record_def)

lemma recorded_step:
  assumes "fine_step os J s t"
  shows "\<exists>es'. fine_step (recording os) J (with_record es s) (with_record es' t)"
  using assms
proof (rule fine_stepE)
  fix th
  assume lock: "t = s\<lparr>fi_mutex := Some th\<rparr>" "critical th (fi_local s)" "fi_mutex s = None"
  then have same: "with_record es t = (with_record es s)\<lparr>fi_mutex := Some th\<rparr>"
    by (simp add: with_record_def)
  have "fine_step (recording os) J (with_record es s) (with_record es t)"
    unfolding same using lock by (intro fine_step.lock) simp_all
  then show ?thesis ..
next
  fix th q a w
  assume call: "t = answered_call th a w s" "may_run th s" "asks_for J th s = Some q"
    "perform os q (fi_world s) = (a, w)"
  let ?es = "es @ events_of (q, a)"
  have same: "with_record ?es t = answered_call th a (w, ?es) (with_record es s)"
    using call(1) by (simp add: with_record_def answered_call_def)
  have "fine_step (recording os) J (with_record es s) (with_record ?es t)"
    unfolding same using call(2,3) perform_recording [of os q "fi_world s" es, unfolded call(4)]
    by (intro fine_step.call) simp_all
  then show ?thesis ..
next
  fix th
  assume ended: "t = completed J th s" "may_run th s" "asks_for J th s = None"
  then have same: "with_record es t = completed J th (with_record es s)"
    by (simp add: completed_def with_record_update)
  have "fine_step (recording os) J (with_record es s) (with_record es t)"
    unfolding same using ended by (intro fine_step.complete) simp_all
  then show ?thesis ..
qed

lemma recorded_reach:
  assumes "fine_reach os J s t"
  shows "\<exists>es'. fine_reach (recording os) J (with_record es s) (with_record es' t)"
  using assms unfolding fine_reach_def
proof (induction rule: rtranclp_induct)
  case (step t u)
  then show ?case using recorded_step by (metis rtranclp.rtrancl_into_rtrancl)
qed auto

lemma with_record_start: "with_record es (fine_start J old buf w) = fine_start J old buf (w, es)"
  by (simp add: with_record_def fine_start_def)

section \<open>The account of the machine\<close>

text \<open>
  \<open>base\<close> is the record of the steps the sending thread has completed, \<open>tr\<close> the trace of the one it is
  in.
\<close>

definition account ::
    "packet_factory \<Rightarrow> DataSender \<Rightarrow> replay fast_job \<Rightarrow> wire_event list \<Rightarrow> sender_pc \<Rightarrow> bool" where
  "account f ds J base pc \<longleftrightarrow> (\<forall>e. pc \<noteq> S_threw e)
     \<longrightarrow> wire.sends f ds ((), []) ((), base) (sent_ttls J pc)"

definition fine_wire_inv ::
    "packet_factory \<Rightarrow> DataSender \<Rightarrow> replay fast_job \<Rightarrow> ('w \<times> wire_event list) fine_state \<Rightarrow> bool" where
  "fine_wire_inv f ds J s \<longleftrightarrow> (\<exists>base tr. snd (fi_world s) = base @ events tr
     \<and> map snd tr = of_thread Sending (fi_replies s)
     \<and> prompted (moving Sending J (fi_local s)) (of_thread Sending (fi_errno s)) tr
     \<and> account f ds J base (fs_sender (fi_local s)))"

text \<open>What the other thread does has no influence on the calls of the one that sends.\<close>

lemma sending_asks_same:
  "fs_sender l = fs_sender l' \<Longrightarrow> snd (moving Sending J l r) = snd (moving Sending J l' r)"
  by (cases "fs_sender l'") (auto simp: moving_Sending Let_def andThen_def
      split: prod.splits sum.splits)

lemma prompted_sender:
  "fs_sender l = fs_sender l' \<Longrightarrow>
     prompted (moving Sending J l) e tr = prompted (moving Sending J l') e tr"
  unfolding prompted_def using sending_asks_same [of l l' J] by presburger

text \<open>The step of the sending thread, from its trace.\<close>

lemma sent_probe_ok:
  assumes "fast_inv J target old l" "fs_sender l = S_sent p t j"
  shows "probe_ok target p"
  using assms by (auto simp: fast_inv_def)

lemma account_sent:
  assumes "account f ds J base (S_at t j)" "probe_calls ds t p tr"
    and "probe_ok (factory_destination f) p"
  shows "account f ds J (base @ events tr) (S_sent p t j)"
proof -
  have "wire.sends f ds ((), []) ((), base) (sent_ttls J (S_at t j))"
    using assms(1) by (simp add: account_def)
  moreover have "wire.sends f ds ((), base) ((), base @ events tr) [t]"
  proof (rule wire.sendsI)
    show "departs ds ((), base) ((), base @ events tr) [(t, p)]"
      using assms(2) by (rule probe_departs)
  qed (use assms(3) in simp_all)
  ultimately have "wire.sends f ds ((), []) ((), base @ events tr) (sent_ttls J (S_at t j) @ [t])"
    by (rule wire.sends_join)
  then show ?thesis by (simp add: account_def)
qed

lemma sender_step_account:
  assumes T: "fj_tracer J = tracer_of (replaying os) ds f" and bound: "fj_end J \<noteq> - 1"
    and inv: "fast_inv J (factory_destination f) old l"
    and inv': "fast_inv J (factory_destination f) old l'"
    and going: "\<not> sender_finished (fs_sender l)"
    and run: "executes (moving Sending J l) e tr (books l') e'"
    and l': "l' = sender_step J (l\<lparr>fs_world := given (map snd tr) e\<rparr>)"
    and base: "account f ds J base (fs_sender l)"
  shows "account f ds J (base @ events tr) (fs_sender l')"
proof -
  have asks: "asking_ports (fj_tracer J)" by (simp add: T tracer_of_asking)
  note step = sent_ttls_step [OF fast_inv_world [OF inv] bound, of "given (map snd tr) e", simplified,
      OF going, folded l']
  have quiet_step: "account f ds J (base @ events tr) (fs_sender l')"
    if "events tr = []" "\<nexists>p t j. fs_sender l = S_at t j \<and> fs_sender l' = S_sent p t j"
    using step base going that unfolding account_def by (cases "fs_sender l") auto
  show ?thesis
  proof (cases "fs_sender l")
    case (S_at t j)
    show ?thesis
    proof (cases "t \<le> fj_end J \<and> j < fj_retries J")
      case False
      with run S_at have "tr = []"
        by (auto simp: moving_Sending Let_def executes_unit split: if_splits)
      moreover have "\<nexists>p. fs_sender l' = S_sent p t j"
        using S_at False by (auto simp: l' sender_step_def)
      ultimately show ?thesis using S_at by (intro quiet_step) auto
    next
      case True
      let ?k = "\<lambda>r. case r of
          Inl e \<Rightarrow> (\<lambda>w. ((fs_pending l, fs_buffer l, fs_results l, S_threw e, fs_receiver l), w))
        | Inr p \<Rightarrow> (\<lambda>w. ((fs_pending l, fs_buffer l, fs_results l, S_sent p t j, fs_receiver l), w))"
      have "executes (andThen (send_one (fj_tracer J) t) ?k) e tr (books l') e'"
        using run S_at True by (simp add: moving_Sending Let_def)
      moreover have "within UNIV 6 (send_one (fj_tracer J) t)" using asks by (rule send_one_within)
      moreover have "stuck (?k r)" for r by (simp add: stuck_def split: sum.split)
      ultimately obtain tr1 tr2 r e1 where parts: "tr = tr1 @ tr2"
        "executes (send_one (fj_tracer J) t) e tr1 r e1" "executes (?k r) e1 tr2 (books l') e'"
        by (rule executes_andThen)
      show ?thesis
      proof (cases r)
        case (Inl ex)
        with parts(3) have "fs_sender l' = S_threw ex"
          by (simp add: executes_unit books_def)
        then show ?thesis by (simp add: account_def)
      next
        case (Inr p)
        with parts have l'_at: "fs_sender l' = S_sent p t j" and "tr = tr1"
          by (simp_all add: executes_unit books_def)
        moreover have "probe_calls ds t p tr1"
          using send_one_trace parts(2) Inr T by metis
        ultimately show ?thesis
          using account_sent [of f ds J base t j p tr] base S_at sent_probe_ok [OF inv' l'_at] by simp
      qed
    qed
  next
    case (S_sent p t j)
    let ?k = "\<lambda>n w. ((fs_pending l @ [\<lparr>pv_packet = p, pv_sentAt = n, pv_ttl = t, pv_retry = j\<rparr>],
        fs_buffer l, fs_results l, S_at t (j + 1), fs_receiver l), w)"
    have "executes (andThen (ask Q_now get_int) ?k) e tr (books l') e'"
      using run S_sent asks by (simp add: moving_Sending Let_def asking_ports_def)
    moreover have "within UNIV 1 (ask Q_now get_int)" by (rule within_ask) simp
    moreover have "stuck (?k n)" for n by (simp add: stuck_def)
    ultimately obtain tr1 tr2 n e1 where parts: "tr = tr1 @ tr2"
      "executes (ask Q_now get_int) e tr1 n e1" "executes (?k n) e1 tr2 (books l') e'"
      by (rule executes_andThen)
    then have "events tr = []" using executes_ask by (fastforce simp: executes_unit)
    with S_sent show ?thesis by (intro quiet_step) auto
  qed (use going in simp_all)
qed

lemma fine_step_wire:
  assumes "fine_step (recording os) J s t" and T: "fj_tracer J = tracer_of (replaying os) ds f"
    and bound: "fj_end J \<noteq> - 1" and inv: "fast_inv J (factory_destination f) old (fi_local s)"
    and inv': "fast_inv J (factory_destination f) old (fi_local t)" and wire: "fine_wire_inv f ds J s"
  shows "fine_wire_inv f ds J t"
proof -
  have asks: "asking_ports (fj_tracer J)" by (simp add: T tracer_of_asking)
  from wire obtain base tr where base: "snd (fi_world s) = base @ events tr"
    "map snd tr = of_thread Sending (fi_replies s)"
    "prompted (moving Sending J (fi_local s)) (of_thread Sending (fi_errno s)) tr"
    "account f ds J base (fs_sender (fi_local s))"
    unfolding fine_wire_inv_def by blast
  from assms(1) show ?thesis
  proof (rule fine_stepE)
    fix th
    assume "t = s\<lparr>fi_mutex := Some th\<rparr>"
    with wire show ?thesis by (simp add: fine_wire_inv_def)
  next
    fix th q a w
    assume call: "t = answered_call th a w s" "asks_for J th s = Some q"
      "perform (recording os) q (fi_world s) = (a, w)"
    then have w: "snd w = base @ events tr @ events_of (q, a)"
      using perform_recording [of os q "fst (fi_world s)" "snd (fi_world s)"] base(1)
      by (metis append.assoc fst_conv prod.collapse snd_conv)
    show ?thesis
    proof (cases th)
      case Sending
      have "prompted (moving Sending J (fi_local s)) (of_thread Sending (fi_errno s)) (tr @ [(q, a)])"
        using base(3) call(2) by (intro prompted_snoc) (simp_all add: asks_moving Sending base(2))
      with base w call(1) show ?thesis
        unfolding fine_wire_inv_def
        by (intro exI [of _ base] exI [of _ "tr @ [(q, a)]"])
          (simp add: Sending answered_call_def)
    next
      case Receiving
      have "events_of (q, a) = []"
        by (rule quiet_events, rule receiving_quiet [OF asks, of s]) (use Receiving call(2) in simp)
      with base w call(1) show ?thesis
        unfolding fine_wire_inv_def
        by (intro exI [of _ base] exI [of _ tr]) (simp add: Receiving answered_call_def)
    qed
  next
    fix th
    assume ended: "t = completed J th s" "may_run th s" "asks_for J th s = None"
    show ?thesis
    proof (cases th)
      case Receiving
      have "fs_sender (attempt J Receiving s) = fs_sender (fi_local s)" unfolding attempt_def by simp
      with base ended(1) prompted_sender [OF this] show ?thesis
        unfolding fine_wire_inv_def
        by (intro exI [of _ base] exI [of _ tr]) (simp add: Receiving completed_def)
    next
      case Sending
      let ?e = "of_thread Sending (fi_errno s)" and ?l' = "attempt J Sending s"
      have "rp_asked (snd (moving Sending J (fi_local s) (given (map snd tr) ?e))) = None"
        using ended(3) by (simp add: Sending asks_moving base(2))
      from prompted_executes [OF sending_within [OF asks] base(3) this]
      obtain x e' where "executes (moving Sending J (fi_local s)) ?e tr x e'" by blast
      moreover from this have "x = books ?l'"
        by (simp add: executes_def base(2) attempt_moving)
      ultimately have run: "executes (moving Sending J (fi_local s)) ?e tr (books ?l') e'" by simp
      have "account f ds J (base @ events tr) (fs_sender ?l')"
      proof (rule sender_step_account [OF T bound inv _ _ run _ base(4)])
        show "fast_inv J (factory_destination f) old ?l'"
          using inv' ended(1) by (simp add: Sending completed_def)
        show "\<not> sender_finished (fs_sender (fi_local s))"
          using ended(2) by (simp add: Sending may_run_def)
        show "?l' = sender_step J ((fi_local s)\<lparr>fs_world := given (map snd tr) ?e\<rparr>)"
          by (simp add: attempt_def base(2))
      qed
      with base(1) ended(1) show ?thesis
        unfolding fine_wire_inv_def
        by (intro exI [of _ "base @ events tr"] exI [of _ "[]"]) (simp add: Sending completed_def)
    qed
  qed
qed

lemma fine_reach_wire:
  assumes "fine_reach (recording os) J (fine_start J old buf (w, [])) s"
    and T: "fj_tracer J = tracer_of (replaying os) ds f" and bound: "fj_end J \<noteq> - 1"
    and old: "probes_ok (factory_destination f) old"
  shows "fine_wire_inv f ds J s"
proof -
  have ports: "tracer_ports (fj_tracer J) (factory_destination f)"
    using real.tracer_ports_axioms by (simp add: T)
  from assms(1) have "fine_reach (recording os) J (fine_start J old buf (w, [])) s
      \<and> fine_wire_inv f ds J s"
    unfolding fine_reach_def
  proof (induction rule: rtranclp_induct)
    case base
    have "wire.sends f ds ((), []) ((), []) []" by (intro wire.sends_Nil departs_silent) simp
    then show ?case
      unfolding fine_wire_inv_def
      by (intro conjI exI [of _ "[]"])
        (simp_all add: fine_start_def Fast_start_def account_def rounds_def)
  next
    case (step s t)
    have reach: "fine_reach (recording os) J (fine_start J old buf (w, [])) s"
      "fine_reach (recording os) J (fine_start J old buf (w, [])) t"
      unfolding fine_reach_def using step by (auto intro: rtranclp.rtrancl_into_rtrancl)
    note inv = fine_reach_inv [OF reach(1) ports bound old] fine_reach_inv [OF reach(2) ports bound old]
    from fine_step_wire [OF step(2) T bound inv] step(3) reach(2) show ?case
      by (simp add: fine_reach_def)
  qed
  then show ?thesis ..
qed

text \<open>When the sending thread has ended, all of the record is accounted for.\<close>

lemma fine_wire_done:
  assumes "fine_reach (recording os) J (fine_start J old buf (w, [])) s"
    and "fj_tracer J = tracer_of (replaying os) ds f" "fj_end J \<noteq> - 1"
    and "probes_ok (factory_destination f) old" "fs_sender (fi_local s) = S_done"
  shows "wire.sends f ds ((), []) ((), snd (fi_world s)) (rounds J (Suc (unat (fj_end J))))"
proof -
  from fine_reach_wire [OF assms(1-4)] obtain base tr where base:
    "snd (fi_world s) = base @ events tr"
    "prompted (moving Sending J (fi_local s)) (of_thread Sending (fi_errno s)) tr"
    "account f ds J base S_done"
    unfolding fine_wire_inv_def assms(5) by blast
  have "tr = []"
  proof (rule ccontr)
    assume "tr \<noteq> []"
    then obtain q a post where "tr = [] @ (q, a) # post" by (metis append_Nil list.exhaust surj_pair)
    from promptedD [OF base(2) this] assms(5) show False by (simp add: moving_Sending Let_def)
  qed
  with base(1,3) show ?thesis by (simp add: account_def)
qed

end
