(* ===== verification/FineClaims.thy ===== *)
theory FineClaims
  imports FastClaims FineProgress FineWire
begin

text \<open>
  The properties of the tracer with two threads when the threads are interleaved at every system call
  and share the mutex, applied to concrete runs.
\<close>

definition fine_sample :: "replay fast_job" where
  "fine_sample = fast_job_of (replaying scripted) udp_sender udp_factory 1 2 1 20000"

text \<open>
  The sender has registered its first probe, and the receiver, between two calls of the sender, has
  read the clock.
\<close>

definition fine_mid :: "world fine_state" where
  "fine_mid = fine_run scripted fine_sample
     [Sending, Sending, Receiving, Sending, Sending, Sending, Sending, Sending, Sending, Receiving]
     (fine_start fine_sample [] sample_buffer two_hops)"

lemma fine_mid_reached:
  "fine_reach scripted fine_sample (fine_start fine_sample [] sample_buffer two_hops) fine_mid"
  unfolding fine_mid_def by (rule fine_run_reach)

lemma fine_mid_state:
  "(fs_sender (fi_local fine_mid), fs_receiver (fi_local fine_mid), fine_outcome fine_mid)
    = (S_at 1 1, R_test 0, None)"
  by code_simp

lemma fine_sample_covers:
  obtains u where
    "fine_reach scripted fine_sample (fine_start fine_sample [] sample_buffer two_hops) u"
    "fine_outcome u = Some (Inr fast_sample_results)" "books (fi_local u) = books fast_end"
    "fi_world u = fs_world fast_end"
proof -
  have same: "same_job fine_sample fast_sample" by (simp add: same_job_def fine_sample_def)
  have "replays_tracer scripted (fj_tracer fine_sample) (fj_tracer fast_sample)"
    by (simp add: fine_sample_def tracer_of_replays)
  from fast_reach_fine [OF this same fast_end_reached stands_for_start [OF same]] show thesis
    using that stands_for_outcome fast_end_outcome by (fastforce simp: stands_for_def)
qed

lemma reaches_inv:
  assumes "fine_reach os (fast_job_of (replaying os) ds f ttlBegin ttlEnd retries timeout)
      (fine_start (fast_job_of (replaying os) ds f ttlBegin ttlEnd retries timeout) [] buf w) s"
    and "ttlEnd \<noteq> - 1"
  shows "fast_inv (fast_job_of (replaying os) ds f ttlBegin ttlEnd retries timeout)
    (factory_destination f) [] (fi_local s)"
  using fine_reach_inv [OF assms(1) real_ports] assms(2) by simp

text \<open>
  C2. What the fast tracer returns when its threads may be interrupted between any two system calls,
  on a fresh tracer: results by strictly ascending TTL, all within the range, each with at least one
  probe result and at most as many as there were to be retries, each of which is a failure or names
  the sender of a response accepted for a probe to the destination. Only the last TTL can contain the
  destination.
\<close>

theorem fine_trace:
  assumes "fine_reach os (fast_job_of (replaying os) ds f ttlBegin ttlEnd retries timeout)
      (fine_start (fast_job_of (replaying os) ds f ttlBegin ttlEnd retries timeout) [] buf w) s"
    and "fine_outcome s = Some (Inr res)" "ttlEnd \<noteq> - 1"
  shows "sorted_wrt (<) (map tr_ttl res)
    \<and> (\<forall>r \<in> set res. ttlBegin \<le> tr_ttl r \<and> tr_ttl r \<le> ttlEnd
         \<and> tr_probeResults r \<noteq> [] \<and> length (tr_probeResults r) \<le> unat retries
         \<and> (\<forall>pr \<in> set (tr_probeResults r). settled_ok (factory_destination f) pr))
    \<and> (\<forall>r \<in> set (butlast res). \<not> target_seen (factory_destination f) r)"
  using inv_result [OF reaches_inv [OF assms(1,3)] assms(2) [unfolded fine_outcome_def]]
    inv_result_fresh [OF reaches_inv [OF assms(1,3)] assms(2) [unfolded fine_outcome_def]]
  by simp

theorem fine_trace_witness:
  "\<exists>u. fine_reach scripted fine_sample (fine_start fine_sample [] sample_buffer two_hops) u
    \<and> fine_outcome u = Some (Inr fast_sample_results)
    \<and> sorted_wrt (<) (map tr_ttl fast_sample_results)
    \<and> length (tr_probeResults (last fast_sample_results)) \<le> 1
    \<and> \<not> target_seen server6 (hd fast_sample_results)"
proof (rule fine_sample_covers)
  fix u
  assume u: "fine_reach scripted fine_sample (fine_start fine_sample [] sample_buffer two_hops) u"
    "fine_outcome u = Some (Inr fast_sample_results)"
  from fine_trace [OF u(1) [unfolded fine_sample_def] u(2)] u show ?thesis
    by (intro exI [of _ u]) (simp add: fast_sample_results_def)
qed

text \<open>
  C5. The mutex and the books. Between any two system calls, wherever the two threads are, also when the
  sending one has a probe under way, has ended or has thrown, and also with probes of earlier calls in
  the list: the probes of a TTL that wait and those that have a result are exactly the ones the sending
  thread has registered so far (\<open>i\<close> of TTL \<open>ttl\<close> and all retries of the TTLs before) and those an earlier
  call has left. The owner of the mutex is inside its block. The list of waiting probes changes only when
  the owner leaves its block. No thread reads outside the receive buffer. Where there is no outcome yet,
  some thread can go on: there is no deadlock. (The last TTL is not the largest \<open>unsigned\<close>.)
\<close>

theorem fine_mutex:
  assumes "fine_reach os (fast_job_of (replaying os) ds f ttlBegin ttlEnd retries timeout)
      (fine_start (fast_job_of (replaying os) ds f ttlBegin ttlEnd retries timeout) ps buf w) s"
    and "ttlEnd \<noteq> - 1" "136 \<le> length buf" "probes_ok (factory_destination f) ps"
  shows "(\<exists>ttl i. (case fs_sender (fi_local s) of S_at ttl' i' \<Rightarrow> ttl' = ttl \<and> i' = i
          | S_sent p ttl' i' \<Rightarrow> ttl' = ttl \<and> i' = i | S_done \<Rightarrow> ttlEnd < ttl | S_threw e \<Rightarrow> True)
        \<and> ttlBegin \<le> ttl \<and> i \<le> retries \<and> (ttl \<le> ttlEnd \<or> i = 0)
        \<and> (\<forall>t. ttlBegin \<le> t \<and> t < ttl \<longrightarrow> t \<le> ttlEnd)
        \<and> (\<forall>t. length (filter (\<lambda>p. pv_ttl p = t) (fs_pending (fi_local s)))
              + length (results_of (fs_results (fi_local s)) t)
            = (if ttlBegin \<le> t \<and> t < ttl then unat retries else if t = ttl then unat i else 0)
              + length (filter (\<lambda>p. pv_ttl p = t) ps)))
    \<and> (\<forall>th. fi_mutex s = Some th \<longrightarrow> critical th (fi_local s))
    \<and> (\<forall>s'. fine_step os (fast_job_of (replaying os) ds f ttlBegin ttlEnd retries timeout) s s'
        \<and> fs_pending (fi_local s') \<noteq> fs_pending (fi_local s)
        \<longrightarrow> (\<exists>th. fi_mutex s = Some th \<and> fi_mutex s' = None))
    \<and> fs_sender (fi_local s) \<noteq> S_threw Fault \<and> fs_receiver (fi_local s) \<noteq> R_threw Fault
    \<and> (fine_outcome s = None \<longrightarrow>
        (\<exists>s'. fine_step os (fast_job_of (replaying os) ds f ttlBegin ttlEnd retries timeout) s s'))"
    (is "?books \<and> _")
proof (intro conjI allI impI)
  let ?J = "fast_job_of (replaying os) ds f ttlBegin ttlEnd retries timeout"
  have inside: "owner_inside s" using assms(1) by (rule fine_reach_owner)
  have "fast_inv ?J (factory_destination f) ps (fi_local s)"
    using fine_reach_inv [OF assms(1) real_ports _ assms(4)] assms(2) by simp
  from inv_books [OF this] show ?books by (simp only: fast_job_of_simps)
  show "critical th (fi_local s)" if "fi_mutex s = Some th" for th
    using inside that by (simp add: owner_inside_def)
  show "\<exists>th. fi_mutex s = Some th \<and> fi_mutex s' = None"
    if "fine_step os ?J s s' \<and> fs_pending (fi_local s') \<noteq> fs_pending (fi_local s)" for s'
    using fine_owner [of os ?J s s'] that by (auto simp: completed_def)
  show "fs_sender (fi_local s) \<noteq> S_threw Fault" "fs_receiver (fi_local s) \<noteq> R_threw Fault"
    using fine_reach_safe [OF assms(1) real_ports assms(3)] by (simp_all add: safe_state_def)
  show "\<exists>s'. fine_step os ?J s s'" if "fine_outcome s = None"
    using inside that by (rule fine_progress)
qed

theorem fine_mutex_witness:
  "length (filter (\<lambda>p. pv_ttl p = 1) (fs_pending (fi_local fine_mid)))
     + length (results_of (fs_results (fi_local fine_mid)) 1) = 1
   \<and> (\<exists>s'. fine_step scripted fine_sample fine_mid s')"
proof -
  have pre: "(2 :: u32) \<noteq> - 1" "136 \<le> length sample_buffer" "probes_ok (factory_destination udp_factory) []"
    by (simp_all add: sample_buffer_def probes_ok_def)
  from fine_mutex [OF fine_mid_reached [unfolded fine_sample_def] pre] fine_mid_state
  show ?thesis by (auto simp: fine_sample_def)
qed

text \<open>
  C4. What the two threads put on the wire, interleaved at every system call. Every run can be observed
  by a system that keeps a record, without changing it, and when the sending thread has ended without an
  exception, the record shows the TTLs of the range in ascending order, each as often as there were to be
  retries and with its own hop limit, all of them well-formed probes to the destination: what the other
  thread does between two calls does not come between a probe and its hop limit.
\<close>

theorem fine_wire:
  assumes "fine_reach os (fast_job_of (replaying os) ds f ttlBegin ttlEnd retries timeout)
      (fine_start (fast_job_of (replaying os) ds f ttlBegin ttlEnd retries timeout) [] buf w) s"
    and "fs_sender (fi_local s) = S_done" "ttlEnd \<noteq> - 1"
  shows "\<exists>es. fine_reach (recording os) (fast_job_of (replaying os) ds f ttlBegin ttlEnd retries timeout)
        (fine_start (fast_job_of (replaying os) ds f ttlBegin ttlEnd retries timeout) [] buf (w, []))
        (with_record es s)
    \<and> map (\<lambda>(ttl, d, a). (ttl, a)) (departures ds None es)
        = concat (map (\<lambda>ttl. replicate (unat retries) (Some (le32 (of_nat ttl)), factory_destination f))
            [unat ttlBegin..<Suc (unat ttlEnd)])
    \<and> (\<forall>(ttl, d, a) \<in> set (departures ds None es). \<exists>p. wf_packet p \<and> d = serialize p)"
proof -
  let ?J = "fast_job_of (replaying os) ds f ttlBegin ttlEnd retries timeout"
  obtain es where reach: "fine_reach (recording os) ?J (fine_start ?J [] buf (w, [])) (with_record es s)"
    using recorded_reach [OF assms(1), of "[]"] by (auto simp: with_record_start)
  have "wire.sends f ds ((), []) ((), snd (fi_world (with_record es s)))
      (rounds ?J (Suc (unat (fj_end ?J))))"
    using assms(2,3) by (intro fine_wire_done [OF reach]) simp_all
  then have "wire.sends f ds ((), []) ((), es) (rounds ?J (Suc (unat ttlEnd)))" by simp
  from sent_listing [OF this] reach show ?thesis
    by (intro exI [of _ es]) (simp add: rounds_def map_concat map_replicate comp_def)
qed

lemma fine_sample_done:
  obtains u where
    "fine_reach scripted fine_sample (fine_start fine_sample [] sample_buffer two_hops) u"
    "fs_sender (fi_local u) = S_done"
proof (rule fine_sample_covers)
  fix u
  assume u: "fine_reach scripted fine_sample (fine_start fine_sample [] sample_buffer two_hops) u"
    "books (fi_local u) = books fast_end"
  moreover have "fs_sender fast_end = S_done" by code_simp
  ultimately show thesis using that by (simp add: books_def)
qed

theorem fine_wire_witness:
  "\<exists>u es. fine_reach (recording scripted) fine_sample
      (fine_start fine_sample [] sample_buffer (two_hops, [])) (with_record es u)
    \<and> map (\<lambda>(ttl, d, a). (ttl, a)) (departures udp_sender None es)
      = [(Some [1, 0, 0, 0], server6), (Some [2, 0, 0, 0], server6)]"
proof (rule fine_sample_done)
  fix u
  assume "fine_reach scripted fine_sample (fine_start fine_sample [] sample_buffer two_hops) u"
    "fs_sender (fi_local u) = S_done"
  from fine_wire [OF this(1) [unfolded fine_sample_def] this(2)]
  obtain es where
    "fine_reach (recording scripted) fine_sample
      (fine_start fine_sample [] sample_buffer (two_hops, [])) (with_record es u)"
    "map (\<lambda>(ttl, d, a). (ttl, a)) (departures udp_sender None es)
      = concat (map (\<lambda>ttl. replicate 1 (Some (le32 (of_nat ttl)), server6)) [1..<3])"
    by (auto simp: fine_sample_def numeral_3_eq_3 [symmetric])
  then show ?thesis by (intro exI [of _ u] exI [of _ es]) (simp add: le32_def upt_conv_Cons)
qed

text \<open>
  C6. The fast tracer ends, interleaved at every system call. When no call turns the clock back, \<open>poll\<close>
  takes time and the last TTL is not the largest \<open>unsigned\<close>, there is no infinite run, and every state
  of a run leads to an outcome, however the calls of the two threads are scheduled and answered.
\<close>

theorem fine_ends:
  assumes "steady_calls os clk" "ttlEnd \<noteq> - 1"
  shows "(\<nexists>\<sigma>. \<sigma> 0 = fine_start (fast_job_of (replaying os) ds f ttlBegin ttlEnd retries timeout) [] buf w
      \<and> (\<forall>n. fine_step os (fast_job_of (replaying os) ds f ttlBegin ttlEnd retries timeout)
          (\<sigma> n) (\<sigma> (Suc n))))
    \<and> (fine_reach os (fast_job_of (replaying os) ds f ttlBegin ttlEnd retries timeout)
          (fine_start (fast_job_of (replaying os) ds f ttlBegin ttlEnd retries timeout) [] buf w) s
        \<longrightarrow> (\<exists>t. fine_reach os (fast_job_of (replaying os) ds f ttlBegin ttlEnd retries timeout) s t
              \<and> fine_outcome t \<noteq> None))"
proof -
  let ?J = "fast_job_of (replaying os) ds f ttlBegin ttlEnd retries timeout"
  have asks: "asking_ports (fj_tracer ?J)" by (simp add: tracer_of_asking)
  have limit: "fj_end ?J \<noteq> - 1" using assms(2) by simp
  from fine_no_infinite_run [OF real_ports asks assms(1) limit probes_ok_Nil]
    fine_outcome_reached [OF real_ports asks assms(1) limit probes_ok_Nil]
  show ?thesis by blast
qed

lemma scripted_calls: "steady_calls scripted wd_time"
proof -
  have "wd_time w \<le> wd_time (snd (perform scripted q w))" for q w
    by (cases q) (auto simp: replied_def scripted_def scripted_poll_def Let_def split: list.splits)
  then show ?thesis
    by (auto simp: steady_calls_def replied_def scripted_def scripted_poll_def Let_def)
qed

theorem fine_ends_witness:
  "fine_outcome fine_mid = None \<and> (\<exists>t. fine_reach scripted fine_sample fine_mid t \<and> fine_outcome t \<noteq> None)"
  using fine_ends [OF scripted_calls, of 2 udp_sender udp_factory 1 1 20000 sample_buffer two_hops fine_mid]
    fine_mid_reached fine_mid_state
  by (simp add: fine_sample_def)

text \<open>
  C10. Complete results, on a tracer that no earlier call has left probes in, when the number of probes
  fits an \<open>unsigned\<close>. In every state, between any two system calls, in which the receiving thread has the
  expected number of results, no probe is waiting and every TTL of the range has a result for each of
  its retries. (With probes of earlier calls in the list the number can be reached without.)
\<close>

theorem fine_complete:
  assumes "fine_reach os (fast_job_of (replaying os) ds f ttlBegin ttlEnd retries timeout)
      (fine_start (fast_job_of (replaying os) ds f ttlBegin ttlEnd retries timeout) [] buf w) s"
    and "ttlBegin \<le> ttlEnd" "ttlEnd \<noteq> - 1"
    and "(unat ttlEnd - unat ttlBegin + 1) * unat retries < 2 ^ 32"
    and "\<not> ucast (getCurrentSize (fs_results (fi_local s))) < expectedSize ttlBegin ttlEnd retries"
    and "ttlBegin \<le> t" "t \<le> ttlEnd"
  shows "fs_pending (fi_local s) = []
    \<and> length (results_of (fs_results (fi_local s)) t) = unat retries"
proof -
  let ?J = "fast_job_of (replaying os) ds f ttlBegin ttlEnd retries timeout"
  have "no_overflow ?J" using assms(2,4) by (simp add: no_overflow_def)
  with complete_when_expected [OF reaches_inv [OF assms(1,3)] this, of t] assms(5-7)
  show ?thesis by simp
qed

lemma same_books: "books l = books s \<Longrightarrow> fs_pending l = fs_pending s \<and> fs_results l = fs_results s"
  by (simp add: books_def)

theorem fine_complete_witness:
  "\<exists>u. fine_reach scripted fine_sample (fine_start fine_sample [] sample_buffer two_hops) u
    \<and> fs_pending (fi_local u) = [] \<and> length (results_of (fs_results (fi_local u)) 2) = 1"
proof (rule fine_sample_covers)
  fix u
  assume u: "fine_reach scripted fine_sample (fine_start fine_sample [] sample_buffer two_hops) u"
    "books (fi_local u) = books fast_end"
  have "\<not> ucast (getCurrentSize (fs_results fast_end)) < expectedSize 1 2 1" by code_simp
  with same_books [OF u(2)] fine_complete [OF u(1) [unfolded fine_sample_def], of 2] u(1)
  show ?thesis by auto
qed

text \<open>
  C9. A fast tracer that no earlier call has left probes in, and that has returned before the time it
  gives itself was over, has an answer or a failure for every probe it was asked to send, however its
  threads have been interleaved, when no call turns the clock back, \<open>poll\<close> takes time and the number of
  probes fits an \<open>unsigned\<close>: the TTLs are
  consecutive from the first one on, each has exactly as many probe results as there were to be
  retries, no probe is waiting any more, and when the results end below the last TTL that was asked
  for, they end with the destination.
\<close>

theorem fine_in_time:
  assumes "steady_calls os clk"
    and "fine_reach os (fast_job_of (replaying os) ds f ttlBegin ttlEnd retries timeout)
      (fine_start (fast_job_of (replaying os) ds f ttlBegin ttlEnd retries timeout) [] buf w) s"
    and "fine_outcome s = Some (Inr res)" "ttlBegin \<le> ttlEnd" "ttlEnd \<noteq> - 1" "retries \<noteq> 0"
    and "(unat ttlEnd - unat ttlBegin + 1) * unat retries < 2 ^ 32"
    and "clk (fi_world s)
      < clk w + expectedMaxTimeTaken timeout (expectedSize ttlBegin ttlEnd retries) * 1000"
  shows "map (\<lambda>r. unat (tr_ttl r)) res = [unat ttlBegin..<unat ttlBegin + length res]
    \<and> (\<forall>r \<in> set res. length (tr_probeResults r) = unat retries) \<and> res \<noteq> []
    \<and> fs_pending (fi_local s) = []
    \<and> (unat ttlBegin + length res \<le> unat ttlEnd \<longrightarrow> target_seen (factory_destination f) (last res))"
proof -
  let ?J = "fast_job_of (replaying os) ds f ttlBegin ttlEnd retries timeout"
  have no: "no_overflow ?J" using assms(4,7) by (simp add: no_overflow_def)
  have asks: "asking_ports (fj_tracer ?J)" by (simp add: tracer_of_asking)
  have early: "clk (fi_world s) < clk w + longest ?J" using assms(8) by (simp add: longest_def)
  note inv = reaches_inv [OF assms(2,5)]
  note enough = fine_in_time_enough [OF assms(2) asks assms(1,3) early]
  from complete_results [OF inv assms(3) [unfolded fine_outcome_def] no _ enough]
    complete_when_expected [OF inv no enough] assms(6)
  show ?thesis by simp
qed

theorem fine_in_time_witness:
  "\<exists>u. fine_reach scripted fine_sample (fine_start fine_sample [] sample_buffer two_hops) u
    \<and> fine_outcome u = Some (Inr fast_sample_results) \<and> fs_pending (fi_local u) = []
    \<and> (\<forall>r \<in> set fast_sample_results. length (tr_probeResults r) = 1)"
proof (rule fine_sample_covers)
  fix u
  assume u: "fine_reach scripted fine_sample (fine_start fine_sample [] sample_buffer two_hops) u"
    "fine_outcome u = Some (Inr fast_sample_results)" "fi_world u = fs_world fast_end"
  have "wd_time (fs_world fast_end) < wd_time two_hops
      + expectedMaxTimeTaken 20000 (expectedSize 1 2 1) * 1000"
    by code_simp
  with fine_in_time [OF scripted_calls u(1) [unfolded fine_sample_def] u(2)] u show ?thesis by auto
qed

text \<open>
  The coarser account of \<open>Fast\<close>, whose steps are whole calls of the collaborators, is one of what
  these threads do: each of its runs is a run with single system calls, on the same objects, that
  leaves the world, the probes, the results, the buffer and the two threads in the same state.
\<close>

lemma fine_covers:
  assumes "fast_reach (fast_job_of os ds f ttlBegin ttlEnd retries timeout)
      (Fast_start (fast_job_of os ds f ttlBegin ttlEnd retries timeout) ps buf w) s"
  shows "\<exists>u. fine_reach os (fast_job_of (replaying os) ds f ttlBegin ttlEnd retries timeout)
        (fine_start (fast_job_of (replaying os) ds f ttlBegin ttlEnd retries timeout) ps buf w) u
    \<and> fi_world u = fs_world s \<and> books (fi_local u) = books s \<and> fine_outcome u = Fast_outcome s"
proof -
  let ?J = "fast_job_of (replaying os) ds f ttlBegin ttlEnd retries timeout"
  have "same_job ?J (fast_job_of os ds f ttlBegin ttlEnd retries timeout)"
    by (simp add: same_job_def)
  with fast_reach_fine [OF _ this assms stands_for_start [OF this]] tracer_of_replays
  obtain u where "fine_reach os ?J (fine_start ?J ps buf w) u" "stands_for u s"
    by (metis fast_job_of_simps(1))
  then show ?thesis using stands_for_outcome [of u s] by (auto simp: stands_for_def)
qed

lemma fine_covers_example:
  "\<exists>u. fine_reach scripted fine_sample (fine_start fine_sample [] sample_buffer two_hops) u
    \<and> fine_outcome u = Some (Inr fast_sample_results)"
  using fine_covers [OF fast_end_reached [unfolded fast_sample_def]] fast_end_outcome
  by (fastforce simp: fine_sample_def)

end
