(* ===== verification/TracerObjects.thy ===== *)
theory TracerObjects
  imports FastObject FineEnds Sequential
begin

text \<open>
  The interface \<open>ITraceroute\<close> and its two classes as objects. A program constructs one of them and
  calls \<open>beginProbing\<close> any number of times; a call of the tracer with two threads is a run interleaved
  at every system call. The locale \<open>traceroute\<close> is what a caller may rely on for either class.
\<close>

section \<open>The classes\<close>

text \<open>\<open>SequentialTraceroute\<close> has the members of its base class: the collaborators and the buffer.\<close>

record 'w SequentialTraceroute =
  st_base :: "'w tracer"
  st_buffer :: "byte list"

definition SequentialTraceroute_ctor ::
    "'w IPacketFactory \<Rightarrow> 'w trySending_method \<Rightarrow> 'w tryReceiving_method \<Rightarrow> 'w ISystemClock
       \<Rightarrow> 'w SequentialTraceroute" where
  "SequentialTraceroute_ctor packetFactory send recv clock =
     \<lparr>st_base = Traceroute_ctor packetFactory send recv clock, st_buffer = initial_buffer\<rparr>"

text \<open>One call: its outcome and what it leaves. After an exception the buffer has any contents.\<close>

inductive Sequential_call ::
    "'w SequentialTraceroute \<Rightarrow> u32 \<Rightarrow> u32 \<Rightarrow> u32 \<Rightarrow> int \<Rightarrow> 'w \<Rightarrow> exn + TracerouteResult list
       \<Rightarrow> 'w SequentialTraceroute \<Rightarrow> 'w \<Rightarrow> bool" where
  returns: "Sequential_beginProbing (st_base obj) ttlBegin ttlEnd retries timeout (st_buffer obj) w
       = Some (Inr (res, buf), w') \<Longrightarrow>
     Sequential_call obj ttlBegin ttlEnd retries timeout w (Inr res) (obj\<lparr>st_buffer := buf\<rparr>) w'"
| throws: "Sequential_beginProbing (st_base obj) ttlBegin ttlEnd retries timeout (st_buffer obj) w
       = Some (Inl e, w') \<Longrightarrow> length buf = length (st_buffer obj) \<Longrightarrow>
     Sequential_call obj ttlBegin ttlEnd retries timeout w (Inl e) (obj\<lparr>st_buffer := buf\<rparr>) w'"

definition called_on ::
    "replay FastTraceroute \<Rightarrow> u32 \<Rightarrow> u32 \<Rightarrow> u32 \<Rightarrow> int \<Rightarrow> 'w \<Rightarrow> 'w fine_state" where
  "called_on obj ttlBegin ttlEnd retries timeout w =
     fine_start (job_on obj ttlBegin ttlEnd retries timeout) (mPacketsToBeValidated obj)
       (ft_buffer obj) w"

inductive Fine_call ::
    "'w os \<Rightarrow> replay FastTraceroute \<Rightarrow> u32 \<Rightarrow> u32 \<Rightarrow> u32 \<Rightarrow> int \<Rightarrow> 'w \<Rightarrow> exn + TracerouteResult list
       \<Rightarrow> replay FastTraceroute \<Rightarrow> 'w \<Rightarrow> bool" for os where
  ends: "fine_reach os (job_on obj ttlBegin ttlEnd retries timeout)
       (called_on obj ttlBegin ttlEnd retries timeout w) s \<Longrightarrow> fine_outcome s = Some out \<Longrightarrow>
     Fine_call os obj ttlBegin ttlEnd retries timeout w out (left_by obj (fi_local s)) (fi_world s)"

inductive_cases Sequential_callE: "Sequential_call obj ttlBegin ttlEnd retries timeout w out obj' w'"
inductive_cases Fine_callE: "Fine_call os obj ttlBegin ttlEnd retries timeout w out obj' w'"

section \<open>The interface\<close>

datatype 'w ITraceroute =
    Sequential_tracer "'w SequentialTraceroute"
  | Fast_tracer "replay FastTraceroute"

inductive beginProbing ::
    "'w os \<Rightarrow> 'w ITraceroute \<Rightarrow> u32 \<Rightarrow> u32 \<Rightarrow> u32 \<Rightarrow> int \<Rightarrow> 'w \<Rightarrow> exn + TracerouteResult list
       \<Rightarrow> 'w ITraceroute \<Rightarrow> 'w \<Rightarrow> bool" for os where
  sequential: "Sequential_call obj ttlBegin ttlEnd retries timeout w out obj' w' \<Longrightarrow>
     beginProbing os (Sequential_tracer obj) ttlBegin ttlEnd retries timeout w out
       (Sequential_tracer obj') w'"
| fast: "Fine_call os obj ttlBegin ttlEnd retries timeout w out obj' w' \<Longrightarrow>
     beginProbing os (Fast_tracer obj) ttlBegin ttlEnd retries timeout w out (Fast_tracer obj') w'"

inductive_cases beginProbingE: "beginProbing os t ttlBegin ttlEnd retries timeout w out t' w'"

text \<open>What a program can construct from the library's own sender, factories and clock.\<close>

inductive constructed :: "'w os \<Rightarrow> DataSender \<Rightarrow> packet_factory \<Rightarrow> 'w ITraceroute \<Rightarrow> bool"
  for os ds f where
  sequential: "constructed os ds f (Sequential_tracer (SequentialTraceroute_ctor (createPacket os f)
     (trySending os ds) (tryReceiving os ds) (SystemClock_now os)))"
| fast: "constructed os ds f (Fast_tracer (FastTraceroute_ctor (tracer_of (replaying os) ds f)))"

text \<open>
  What a caller may rely on, about the results of one call: ascending TTLs, genuine probe results, and
  the destination at the end only.
\<close>

definition route_ok :: "SocketAddress \<Rightarrow> TracerouteResult list \<Rightarrow> bool" where
  "route_ok target res \<longleftrightarrow> sorted_wrt (<) (map tr_ttl res)
     \<and> (\<forall>r \<in> set res. \<forall>pr \<in> set (tr_probeResults r). settled_ok target pr)
     \<and> (\<forall>r \<in> set (butlast res). \<not> target_seen target r)"

text \<open>The distance of the destination: the first TTL that reached it.\<close>

definition distance :: "SocketAddress \<Rightarrow> TracerouteResult list \<Rightarrow> u32 option" where
  "distance target res = map_option tr_ttl (find (target_seen target) res)"

lemma route_distance:
  assumes "route_ok target res" "distance target res = Some d"
  shows "tr_ttl (last res) = d" "target_seen target (last res)"
    and "r \<in> set res \<Longrightarrow> tr_ttl r \<le> d \<and> (target_seen target r \<longleftrightarrow> tr_ttl r = d)"
proof -
  from assms(2) obtain x where x: "x \<in> set res" "target_seen target x" "tr_ttl x = d"
    by (auto simp: distance_def find_Some_iff intro: nth_mem)
  then have nonempty: "res \<noteq> []" by auto
  then have snoc: "butlast res @ [last res] = res" by simp
  with x(1) have "x \<in> set (butlast res) \<or> x = last res"
    by (metis in_set_butlastD rotate1.simps(2) set_ConsD set_rotate1)
  with assms(1) x(2) have last: "x = last res" by (auto simp: route_ok_def)
  with x show "tr_ttl (last res) = d" "target_seen target (last res)" by auto
  have "sorted_wrt (<) (map tr_ttl (butlast res @ [last res]))"
    using assms(1) by (simp only: snoc) (simp add: route_ok_def)
  then have below: "tr_ttl y < d" if "y \<in> set (butlast res)" for y
    using that x(3) last by (auto simp: sorted_wrt_append)
  show "tr_ttl r \<le> d \<and> (target_seen target r \<longleftrightarrow> tr_ttl r = d)" if "r \<in> set res"
  proof (cases "r \<in> set (butlast res)")
    case True
    with below [OF True] assms(1) show ?thesis by (auto simp: route_ok_def)
  next
    case False
    with that snoc have "r = last res"
      by (metis in_set_butlastD rotate1.simps(2) set_ConsD set_rotate1)
    with x last show ?thesis by simp
  qed
qed

text \<open>
  The calls a program makes on a tracer, in a row, each with the last TTL it asked for and its outcome.
  Between two calls the world may have changed in any way.
\<close>

inductive session ::
    "('t \<Rightarrow> u32 \<Rightarrow> u32 \<Rightarrow> u32 \<Rightarrow> int \<Rightarrow> 'w \<Rightarrow> exn + TracerouteResult list \<Rightarrow> 't \<Rightarrow> 'w \<Rightarrow> bool)
       \<Rightarrow> 't \<Rightarrow> (u32 \<times> (exn + TracerouteResult list)) list \<Rightarrow> 't \<Rightarrow> bool" for call where
  none: "session call t [] t"
| further: "call t ttlBegin ttlEnd retries timeout w out t1 w1 \<Longrightarrow> session call t1 log t2 \<Longrightarrow>
     session call t ((ttlEnd, out) # log) t2"

locale traceroute =
  fixes call :: "'t \<Rightarrow> u32 \<Rightarrow> u32 \<Rightarrow> u32 \<Rightarrow> int \<Rightarrow> 'w \<Rightarrow> exn + TracerouteResult list \<Rightarrow> 't \<Rightarrow> 'w \<Rightarrow> bool"
    and valid :: "'t \<Rightarrow> bool" and target :: SocketAddress
  assumes call_valid: "call t ttlBegin ttlEnd retries timeout w out t' w' \<Longrightarrow> valid t \<Longrightarrow> valid t'"
    and call_safe: "call t ttlBegin ttlEnd retries timeout w out t' w' \<Longrightarrow> valid t \<Longrightarrow> out \<noteq> Inl Fault"
    and call_route: "call t ttlBegin ttlEnd retries timeout w (Inr res) t' w' \<Longrightarrow> valid t \<Longrightarrow>
      ttlEnd \<noteq> - 1 \<Longrightarrow> route_ok target res"
begin

lemma session_keeps:
  assumes "session call t log t'" "valid t"
  shows "valid t' \<and> (\<forall>(ttlEnd, out) \<in> set log. out \<noteq> Inl Fault
     \<and> (\<forall>res. out = Inr res \<and> ttlEnd \<noteq> - 1 \<longrightarrow> route_ok target res))"
  using assms
proof (induction rule: session.induct)
  case (further t ttlBegin ttlEnd retries timeout w out t1 w1 log t2)
  have "valid t1" using further.hyps(1) further.prems by (rule call_valid)
  with further call_safe call_route show ?case by fastforce
qed simp

end

section \<open>The sequential tracer\<close>

definition sequential_ok :: "'w os \<Rightarrow> DataSender \<Rightarrow> packet_factory \<Rightarrow> 'w SequentialTraceroute \<Rightarrow> bool" where
  "sequential_ok os ds f obj \<longleftrightarrow>
     st_base obj = tracer_of os ds f \<and> length (st_buffer obj) = BufferSize"

lemma trace_ok_route:
  assumes "trace_ok target ttlEnd retries timeout ttl res" "ttlEnd \<noteq> - 1"
  shows "route_ok target res"
proof -
  have "sorted_wrt (<) (map (\<lambda>r. unat (tr_ttl r)) res)"
    using trace_ok_ttls [OF assms] by (metis sorted_wrt_upt)
  then have "sorted_wrt (<) (map tr_ttl res)"
    by (simp add: sorted_wrt_map word_less_nat_alt)
  with trace_ok_last [OF assms(1)] show ?thesis
    by (auto simp: route_ok_def genuine_def settled_ok_def)
qed

interpretation sequential: traceroute Sequential_call "sequential_ok os ds f" "factory_destination f"
  for os :: "'w os" and ds f
proof
  fix t t' :: "'w SequentialTraceroute"
    and ttlBegin ttlEnd retries timeout w out w'
  assume call: "Sequential_call t ttlBegin ttlEnd retries timeout w out t' w'"
    and ok: "sequential_ok os ds f t"
  have run: "out' \<noteq> Inl Fault \<and> (\<forall>rs buf. out' = Inr (rs, buf) \<longrightarrow> length buf = length (st_buffer t))"
    if "Sequential_beginProbing (st_base t) ttlBegin ttlEnd retries timeout (st_buffer t) w
        = Some (out', w')" for out'
    using that ok real.ttl_loop_safe [of os ds f]
    by (simp add: Sequential_beginProbing_def sequential_ok_def BufferSize_def)
  show "sequential_ok os ds f t'"
    using call ok by (auto elim!: Sequential_callE dest!: run simp: sequential_ok_def)
  show "out \<noteq> Inl Fault" using call by (auto elim!: Sequential_callE dest!: run)
next
  fix t t' :: "'w SequentialTraceroute" and ttlBegin ttlEnd retries timeout w res w'
  assume "Sequential_call t ttlBegin ttlEnd retries timeout w (Inr res) t' w'"
    and "sequential_ok os ds f t" "ttlEnd \<noteq> - 1"
  then show "route_ok (factory_destination f) res"
    by (auto elim!: Sequential_callE simp: sequential_ok_def
        dest!: real.beginProbing_result intro: trace_ok_route)
qed

section \<open>The tracer with two threads\<close>

lemma fine_reach_addressed:
  assumes "fine_reach os J s0 s" "tracer_ports (fj_tracer J) target"
    and "addressed target (fi_local s0)" "length (fs_buffer (fi_local s0)) = n"
  shows "addressed target (fi_local s) \<and> length (fs_buffer (fi_local s)) = n"
  using assms(1)
proof (rule fine_invariant)
  show "addressed target l' \<and> length (fs_buffer l') = n"
    if "addressed target l \<and> length (fs_buffer l) = n" "fast_step J l l'" for l l'
    using that assms(2) fast_step_buffer [OF that(2) assms(2)]
      sender_step_addressed receiver_step_addressed by (auto elim!: fast_stepE)
qed (use assms(3,4) in \<open>simp_all add: addressed_def\<close>)

lemma fine_call_reached:
  assumes "object_ok U target obj" "tracer_ports U target"
    and "fine_reach os (job_on obj ttlBegin ttlEnd retries timeout)
      (called_on obj ttlBegin ttlEnd retries timeout w) s"
  shows "object_ok U target (left_by obj (fi_local s))" "safe_state (fi_local s)"
    and "ttlEnd \<noteq> - 1 \<Longrightarrow> fast_inv (job_on obj ttlBegin ttlEnd retries timeout) target
      (mPacketsToBeValidated obj) (fi_local s)"
proof -
  let ?J = "job_on obj ttlBegin ttlEnd retries timeout"
  have ports: "tracer_ports (fj_tracer ?J) target" and old: "probes_ok target (mPacketsToBeValidated obj)"
    using assms(1,2) by (simp_all add: object_ok_def job_on_def)
  note run = assms(3) [unfolded called_on_def]
  have "addressed target (fi_local s) \<and> length (fs_buffer (fi_local s)) = BufferSize"
    using run ports
    by (rule fine_reach_addressed)
      (use assms(1) in \<open>simp_all add: fine_start_def Fast_start_def addressed_def object_ok_def\<close>)
  with assms(1) show "object_ok U target (left_by obj (fi_local s))"
    by (simp add: object_ok_def left_by_def addressed_def)
  show "safe_state (fi_local s)"
    using run ports by (rule fine_reach_safe)
      (use assms(1) in \<open>simp add: object_ok_def BufferSize_def\<close>)
  show "fast_inv ?J target (mPacketsToBeValidated obj) (fi_local s)" if "ttlEnd \<noteq> - 1"
    using run ports _ old by (rule fine_reach_inv) (use that in \<open>simp add: job_on_def\<close>)
qed

lemma fine_call_contract:
  fixes obj :: "replay FastTraceroute"
  assumes "Fine_call os obj ttlBegin ttlEnd retries timeout w out obj' w'"
    and "object_ok U target obj" "tracer_ports U target"
  shows "object_ok U target obj'" "out \<noteq> Inl Fault"
    and "out = Inr res \<Longrightarrow> ttlEnd \<noteq> - 1 \<Longrightarrow> route_ok target res"
proof -
  from assms(1) obtain s where s:
    "fine_reach os (job_on obj ttlBegin ttlEnd retries timeout)
      (called_on obj ttlBegin ttlEnd retries timeout w) s"
    "fine_outcome s = Some out" "obj' = left_by obj (fi_local s)"
    by (auto elim!: Fine_callE)
  note reached = fine_call_reached [OF assms(2,3) s(1)]
  show "object_ok U target obj'" using reached(1) s(3) by simp
  show "out \<noteq> Inl Fault"
    using reached(2) s(2)
    by (auto simp: safe_state_def fine_outcome_def Fast_outcome_def
        split: receiver_pc.splits if_splits)
  show "route_ok target res" if "out = Inr res" "ttlEnd \<noteq> - 1"
    using inv_result [OF reached(3) [OF that(2)]] s(2) that(1)
    by (simp add: route_ok_def fine_outcome_def)
qed

text \<open>The results of a call on a used object, with what earlier calls have left in it.\<close>

lemma fine_call_results:
  assumes "Fine_call os obj ttlBegin ttlEnd retries timeout w (Inr res) obj' w'"
    and "object_ok U target obj" "tracer_ports U target" "ttlEnd \<noteq> - 1"
  shows "sorted_wrt (<) (map tr_ttl res)"
    and "r \<in> set res \<Longrightarrow> tr_probeResults r \<noteq> []
      \<and> (in_range (job_on obj ttlBegin ttlEnd retries timeout) (tr_ttl r)
         \<or> 0 < leftover (mPacketsToBeValidated obj) (tr_ttl r))
      \<and> length (tr_probeResults r)
        \<le> (if in_range (job_on obj ttlBegin ttlEnd retries timeout) (tr_ttl r) then unat retries else 0)
          + leftover (mPacketsToBeValidated obj) (tr_ttl r)"
proof -
  let ?J = "job_on obj ttlBegin ttlEnd retries timeout"
  from assms(1) obtain s where s:
    "fine_reach os ?J (called_on obj ttlBegin ttlEnd retries timeout w) s"
    "fine_outcome s = Some (Inr res)"
    by (auto elim!: Fine_callE)
  note inv = fine_call_reached(3) [OF assms(2,3) s(1) assms(4)]
  note result = inv_result [OF inv s(2) [unfolded fine_outcome_def]]
  show "sorted_wrt (<) (map tr_ttl res)" by (rule result(1))
  show "tr_probeResults r \<noteq> []
      \<and> (in_range ?J (tr_ttl r) \<or> 0 < leftover (mPacketsToBeValidated obj) (tr_ttl r))
      \<and> length (tr_probeResults r) \<le> (if in_range ?J (tr_ttl r) then unat retries else 0)
          + leftover (mPacketsToBeValidated obj) (tr_ttl r)" if "r \<in> set res"
    using result(2) [OF that] by (simp add: job_on_def split: if_splits)
qed

interpretation two_threads: traceroute "Fine_call (os :: 'w os)"
    "object_ok (tracer_of (replaying os) ds f) (factory_destination f)" "factory_destination f"
  for os ds f
  by unfold_locales
    (blast intro: fine_call_contract real.tracer_ports_axioms
      dest: fine_call_contract(2))+

text \<open>The calls of \<open>FastObject\<close>, whose steps are coarser, are among these calls.\<close>

definition same_object :: "replay FastTraceroute \<Rightarrow> 'w FastTraceroute \<Rightarrow> bool" where
  "same_object u obj \<longleftrightarrow> ft_buffer u = ft_buffer obj \<and> mTarget u = mTarget obj
     \<and> mPacketsToBeValidated u = mPacketsToBeValidated obj"

lemma fast_call_fine:
  assumes "Fast_call obj (job_on obj ttlBegin ttlEnd retries timeout) w out obj' w'"
    and "replays_tracer os (ft_base u) (ft_base obj)" "same_object u obj"
  shows "\<exists>u'. Fine_call os u ttlBegin ttlEnd retries timeout w out u' w' \<and> same_object u' obj'
    \<and> ft_base u' = ft_base u \<and> ft_base obj' = ft_base obj"
proof -
  let ?J = "job_on obj ttlBegin ttlEnd retries timeout"
  let ?J' = "job_on u ttlBegin ttlEnd retries timeout"
  from assms(1) obtain s where s: "fast_reach ?J (begin_on obj ?J w) s" "Fast_outcome s = Some out"
    "obj' = left_by obj s" "w' = fs_world s"
    by (auto elim!: Fast_callE)
  have same: "same_job ?J' ?J" by (simp add: same_job_def job_on_def)
  have "replays_tracer os (fj_tracer ?J') (fj_tracer ?J)" using assms(2) by (simp add: job_on_def)
  from fast_reach_fine [OF this same s(1) [unfolded begin_on_def] stands_for_start [OF same]]
  obtain v where v: "fine_reach os ?J' (called_on u ttlBegin ttlEnd retries timeout w) v" "stands_for v s"
    using assms(3) by (auto simp: called_on_def same_object_def)
  have "fine_outcome v = Some out" using stands_for_outcome [OF v(2)] s(2) by simp
  with v(1) have "Fine_call os u ttlBegin ttlEnd retries timeout w out (left_by u (fi_local v)) (fi_world v)"
    by (rule Fine_call.ends)
  moreover have "same_object (left_by u (fi_local v)) obj'" "fi_world v = w'"
    using v(2) assms(3) s(3,4) by (auto simp: same_object_def left_by_def stands_for_def books_def)
  ultimately show ?thesis by (metis (no_types, lifting) FastTraceroute.select_convs(1)
        FastTraceroute.surjective FastTraceroute.update_convs(2,3) left_by_def s(3))
qed

section \<open>Both behind the interface\<close>

fun tracer_ok :: "'w os \<Rightarrow> DataSender \<Rightarrow> packet_factory \<Rightarrow> 'w ITraceroute \<Rightarrow> bool" where
  "tracer_ok os ds f (Sequential_tracer obj) = sequential_ok os ds f obj"
| "tracer_ok os ds f (Fast_tracer obj) =
     object_ok (tracer_of (replaying os) ds f) (factory_destination f) obj"

interpretation either: traceroute "beginProbing os" "tracer_ok os ds f" "factory_destination f"
  for os :: "'w os" and ds f
  by unfold_locales
    (erule beginProbingE; use sequential.call_valid sequential.call_safe sequential.call_route
        two_threads.call_valid two_threads.call_safe two_threads.call_route in fastforce)+

lemma constructed_ok: "constructed os ds f t \<Longrightarrow> tracer_ok os ds f t"
  by (erule constructed.cases)
    (simp_all add: sequential_ok_def SequentialTraceroute_ctor_def tracer_of_def object_ok_def
      FastTraceroute_ctor_def initial_buffer_def)

section \<open>Every call returns\<close>

lemma steady_calls_os:
  assumes "steady_calls os clk"
  shows "steady_os os clk"
proof -
  have later: "clk w \<le> clk (snd (perform os q w))" for q w
    using assms by (simp add: steady_calls_def)
  have "clk w < clk (snd (perform os (Q_poll fds t) w))" "fst (sys_now os w) = clk w" for fds t w
    using assms by (simp_all add: steady_calls_def)
  then show ?thesis
    using later [of _ Q_now] later [of _ "Q_recvfrom _ _"] later [of _ "Q_sendto _ _ _ _"]
      later [of _ "Q_setsockopt _ _ _ _"] later [of _ Q_rand] later [of _ Q_uninit16]
    by (simp add: steady_os_def replied_def Let_def split_beta)
qed

lemma sequential_call_returns:
  assumes "sequential_ok os ds f obj" "steady_os os clk" "ttlEnd \<noteq> - 1"
  shows "\<exists>out obj' w'. Sequential_call obj ttlBegin ttlEnd retries timeout w out obj' w'"
proof -
  obtain out w' where "Sequential_beginProbing (st_base obj) ttlBegin ttlEnd retries timeout
      (st_buffer obj) w = Some (out, w')"
    using ttl_loop_returns [OF steady_ticking [OF assms(2)] assms(3)] assms(1)
    by (fastforce simp: Sequential_beginProbing_def sequential_ok_def)
  then show ?thesis by (cases out) (auto intro: Sequential_call.intros)
qed

lemma fine_call_returns:
  assumes "object_ok U target obj" "tracer_ports U target" "asking_ports U" "steady_calls os clk"
    and "ttlEnd \<noteq> - 1"
  shows "\<exists>out obj' w'. Fine_call os obj ttlBegin ttlEnd retries timeout w out obj' w'"
    and "\<sigma> 0 = called_on obj ttlBegin ttlEnd retries timeout w \<Longrightarrow>
      \<exists>n. \<not> fine_step os (job_on obj ttlBegin ttlEnd retries timeout) (\<sigma> n) (\<sigma> (Suc n))"
proof -
  let ?J = "job_on obj ttlBegin ttlEnd retries timeout"
  let ?s = "called_on obj ttlBegin ttlEnd retries timeout w"
  have ports: "tracer_ports (fj_tracer ?J) target" "asking_ports (fj_tracer ?J)"
    and limit: "fj_end ?J \<noteq> - 1" and old: "probes_ok target (mPacketsToBeValidated obj)"
    using assms by (simp_all add: object_ok_def job_on_def)
  have "fine_reach os ?J ?s ?s" by (simp add: fine_reach_def)
  with fine_outcome_reached [OF ports assms(4) limit old, of "ft_buffer obj" w ?s]
  obtain t out where "fine_reach os ?J ?s t" "fine_outcome t = Some out"
    by (auto simp: called_on_def)
  then show "\<exists>out obj' w'. Fine_call os obj ttlBegin ttlEnd retries timeout w out obj' w'"
    by (blast intro: Fine_call.ends)
  show "\<exists>n. \<not> fine_step os ?J (\<sigma> n) (\<sigma> (Suc n))" if "\<sigma> 0 = ?s"
    using that unfolding called_on_def
    by (rule fine_no_infinite_run [OF ports assms(4) limit old])
qed

lemma call_returns:
  assumes "tracer_ok os ds f t" "steady_calls os clk" "ttlEnd \<noteq> - 1"
  shows "\<exists>out t' w'. beginProbing os t ttlBegin ttlEnd retries timeout w out t' w'"
proof (cases t)
  case (Sequential_tracer obj)
  with assms sequential_call_returns [OF _ steady_calls_os [OF assms(2)] assms(3)]
  show ?thesis by (fastforce intro: beginProbing.sequential)
next
  case (Fast_tracer obj)
  with assms fine_call_returns(1) [OF _ real.tracer_ports_axioms tracer_of_asking assms(2,3)]
  show ?thesis by (fastforce intro: beginProbing.fast)
qed

end
