(* ===== verification/InterfaceClaims.thy ===== *)
theory InterfaceClaims
  imports TracerObjects FineClaims ObjectClaims
begin

text \<open>
  The properties of both tracers behind their interface, over any number of calls, applied to concrete
  sessions.
\<close>

text \<open>
  C7. The contract of \<open>ITraceroute\<close>. Whichever tracer a program has constructed from the library's
  sender, factories and clock, and whatever calls it has made on it, interleaved at every system call:
  the object keeps its collaborators and a buffer of 4096 bytes; no call has read outside the buffer;
  and every list of results is in ascending order of the TTL, has genuine probe results only, and
  reaches the destination, if at all, at its last TTL and at no other one.
\<close>

theorem tracer_contract:
  assumes "constructed os ds f t" "session (beginProbing os) t log t'"
  shows "tracer_ok os ds f t'
    \<and> (\<forall>(ttlEnd, out) \<in> set log. out \<noteq> Inl Fault
        \<and> (\<forall>res. out = Inr res \<and> ttlEnd \<noteq> - 1 \<longrightarrow> route_ok (factory_destination f) res
            \<and> (\<forall>d. distance (factory_destination f) res = Some d \<longrightarrow> tr_ttl (last res) = d
                \<and> (\<forall>r \<in> set res. tr_ttl r \<le> d
                     \<and> (target_seen (factory_destination f) r \<longleftrightarrow> tr_ttl r = d)))))"
  using either.session_keeps [OF assms(2) constructed_ok [OF assms(1)]]
    route_distance(1,3) by fast

text \<open>A session of two calls, the second of which finds the probe of the first one in the list.\<close>

definition fresh :: "replay FastTraceroute" where
  "fresh = FastTraceroute_ctor (tracer_of (replaying scripted) udp_sender udp_factory)"

lemma two_fine_calls:
  obtains u t w where
    "Fine_call scripted fresh 1 1 1 20000 (start_world []) (Inr []) u w"
    "Fine_call scripted u 5 5 1 20000 w (Inr stale_results) t
       (fs_world (second_call initial_buffer))"
    "map pv_ttl (mPacketsToBeValidated u) = [1]"
proof -
  let ?obj = "left_by fast_of (first_call initial_buffer)"
  have jobs: "call_job 1 = job_on fast_of 1 1 1 20000" "call_job 5 = job_on ?obj 5 5 1 20000"
    by (simp_all add: call_job_on left_by_def)
  have "replays_tracer scripted (ft_base fresh) (ft_base fast_of)" "same_object fresh fast_of"
    by (simp_all add: fresh_def fast_of_def FastTraceroute_ctor_def same_object_def tracer_of_replays)
  from fast_call_fine [OF two_calls(1) [unfolded jobs] this]
  obtain u where u: "Fine_call scripted fresh 1 1 1 20000 (start_world []) (Inr []) u
      (fs_world (first_call initial_buffer))" "same_object u ?obj" "ft_base u = ft_base fresh"
    by blast
  then have base: "replays_tracer scripted (ft_base u) (ft_base ?obj)"
    by (simp add: left_by_def fresh_def fast_of_def FastTraceroute_ctor_def tracer_of_replays)
  have "map pv_ttl (mPacketsToBeValidated u) = [1]"
    using u(2) call_sights(1) by (simp add: same_object_def left_by_def sight_def)
  with fast_call_fine [OF two_calls(2) [unfolded jobs] base u(2)] show thesis
    by (elim exE conjE) (rule that [OF u(1)])
qed

lemma two_calls_session:
  obtains t where "session (beginProbing scripted) (Fast_tracer fresh)
    [(1, Inr []), (5, Inr stale_results)] t"
proof (rule two_fine_calls)
  fix u t w
  assume "Fine_call scripted fresh 1 1 1 20000 (start_world []) (Inr []) u w"
    "Fine_call scripted u 5 5 1 20000 w (Inr stale_results) t (fs_world (second_call initial_buffer))"
  then show thesis by (intro that) (rule session.intros beginProbing.fast | assumption)+
qed

theorem tracer_contract_witness:
  "route_ok server6 stale_results \<and> (\<exists>t. tracer_ok scripted udp_sender udp_factory (Fast_tracer t)
     \<and> session (beginProbing scripted) (Fast_tracer fresh)
         [(1, Inr []), (5, Inr stale_results)] (Fast_tracer t))"
proof (rule two_calls_session)
  fix t
  assume session: "session (beginProbing scripted) (Fast_tracer fresh)
    [(1, Inr []), (5, Inr stale_results)] t"
  then obtain obj where "t = Fast_tracer obj"
    by (auto elim!: session.cases beginProbingE)
  with tracer_contract [OF constructed.fast session [unfolded fresh_def]] session show ?thesis
    by auto
qed

text \<open>
  C11. What a call returns on a fast tracer that may have been used before, interleaved at every system
  call: results by strictly ascending TTL, each with at least one probe result. A TTL outside the range
  of the call can appear, for the probes an earlier call has left in the list, and these count on top
  of the retries of a TTL; their number is the only bound.
\<close>

theorem fine_object_calls:
  assumes "constructed os ds f t" "session (beginProbing os) t log (Fast_tracer obj)"
    and "Fine_call os obj ttlBegin ttlEnd retries timeout w (Inr res) obj' w'" "ttlEnd \<noteq> - 1"
  shows "sorted_wrt (<) (map tr_ttl res)
    \<and> (\<forall>r \<in> set res. let inside = (ttlBegin \<le> tr_ttl r \<and> tr_ttl r \<le> ttlEnd);
           old = leftover (mPacketsToBeValidated obj) (tr_ttl r)
         in (inside \<or> 0 < old) \<and> tr_probeResults r \<noteq> []
           \<and> length (tr_probeResults r) \<le> (if inside then unat retries else 0) + old)"
proof -
  have "object_ok (tracer_of (replaying os) ds f) (factory_destination f) obj"
    using either.session_keeps [OF assms(2) constructed_ok [OF assms(1)]] by simp
  from fine_call_results [OF assms(3) this real.tracer_ports_axioms assms(4)]
  show ?thesis by (auto simp: Let_def in_range_def job_on_def)
qed

theorem fine_object_calls_witness:
  "sorted_wrt (<) (map tr_ttl stale_results)
   \<and> (\<exists>u :: replay FastTraceroute. map pv_ttl (mPacketsToBeValidated u) = [1] \<and> 0 < leftover (mPacketsToBeValidated u) 1)"
proof (rule two_fine_calls)
  fix u t w
  assume calls: "Fine_call scripted fresh 1 1 1 20000 (start_world []) (Inr []) u w"
    "Fine_call scripted u 5 5 1 20000 w (Inr stale_results) t (fs_world (second_call initial_buffer))"
    "map pv_ttl (mPacketsToBeValidated u) = [1]"
  have "session (beginProbing scripted) (Fast_tracer fresh) [(1, Inr [])] (Fast_tracer u)"
    using calls(1) by (blast intro: session.intros beginProbing.fast)
  from fine_object_calls [OF constructed.fast this [unfolded fresh_def] calls(2)] calls(3)
  have "sorted_wrt (<) (map tr_ttl stale_results)" "0 < leftover (mPacketsToBeValidated u) 1"
    by (auto simp: stale_results_def Let_def word_le_nat_alt)
  with calls(3) show ?thesis by (intro conjI exI [of _ u])
qed

text \<open>
  C8. When no system call turns the clock back, \<open>poll\<close> takes time and the last TTL is not the largest
  \<open>unsigned\<close>, a call returns, on a new tracer and on one that has been used, also with the probes of
  earlier calls in its list: it has an outcome, and the threads of the fast tracer cannot go on for ever.
\<close>

theorem tracer_returns:
  assumes "constructed os ds f t0" "session (beginProbing os) t0 log t" "steady_calls os clk"
    and "ttlEnd \<noteq> - 1"
  shows "(\<exists>out t' w'. beginProbing os t ttlBegin ttlEnd retries timeout w out t' w')
    \<and> (\<forall>obj \<sigma>. t = Fast_tracer obj \<and> \<sigma> 0 = called_on obj ttlBegin ttlEnd retries timeout w
        \<longrightarrow> (\<exists>n. \<not> fine_step os (job_on obj ttlBegin ttlEnd retries timeout) (\<sigma> n) (\<sigma> (Suc n))))"
proof -
  have ok: "tracer_ok os ds f t"
    using either.session_keeps [OF assms(2) constructed_ok [OF assms(1)]] by simp
  show ?thesis
    using call_returns [OF ok assms(3,4)]
      fine_call_returns(2) [OF _ real.tracer_ports_axioms tracer_of_asking assms(3,4)] ok
    by auto
qed

text \<open>Two calls in a row on one object, the second on what the first has left.\<close>

theorem tracer_returns_witness:
  "\<exists>log t. session (beginProbing scripted)
     (Fast_tracer fresh) log t
   \<and> map fst log = [1, 30]"
proof -
  note next_call = tracer_returns [OF constructed.fast _ scripted_calls, of udp_sender udp_factory,
      THEN conjunct1, folded fresh_def]
  obtain out1 t1 w1 where first: "beginProbing scripted (Fast_tracer fresh) 1 1 1 20000 two_hops out1 t1 w1"
    using next_call [OF session.none, of 1 1 1 20000 two_hops] by auto
  then have one: "session (beginProbing scripted) (Fast_tracer fresh) [(1, out1)] t1"
    by (blast intro: session.intros)
  obtain out2 t2 w2 where "beginProbing scripted t1 1 30 3 5000000 w1 out2 t2 w2"
    using next_call [OF one, of 30 1 3 5000000 w1] by auto
  with first have "session (beginProbing scripted) (Fast_tracer fresh) [(1, out1), (30, out2)] t2"
    by (blast intro: session.intros)
  then show ?thesis by fastforce
qed

end
