(* ===== verification/Attribution.thy ===== *)
theory Attribution
  imports Verdicts FastFine FastObject
begin

text \<open>
  To which probe an answer is attributed. The receiving thread of \<open>FastTraceroute\<close> gives a datagram to
  the first waiting probe whose validator accepts it. TCP and ICMP probes are told apart by the
  sequence number or the identifier the datagram quotes; the validator of UDP probes looks at nothing
  in the quote.
\<close>

section \<open>What tells probes apart\<close>

fun probe_id :: "packet \<Rightarrow> nat option" where
  "probe_id (IcmpPacket s d h) = Some (unat (icmp_id h))"
| "probe_id (TcpPacket s d h) = Some (unat (tcp_seq h))"
| "probe_id (UdpPacket s d h) = None"

fun made_by :: "packet_factory \<Rightarrow> packet \<Rightarrow> bool" where
  "made_by (IcmpPacketFactory s d) (IcmpPacket s' d' h) \<longleftrightarrow> d' = d"
| "made_by (TcpPacketFactory s d port) (TcpPacket s' d' h) \<longleftrightarrow> d' = d"
| "made_by (UdpPacketFactory s d port) (UdpPacket s' d' h) \<longleftrightarrow> d' = d"
| "made_by f p \<longleftrightarrow> False"

lemma created_made_by: "createPacket os f w = (Inr p, w') \<Longrightarrow> made_by f p"
  by (cases f) (auto simp: ctor_defs io_simps Packet_ctor_def Let_def split: if_splits sum.splits)

text \<open>A router's time exceeded for a probe of ours, in front of what the buffer held before.\<close>

definition expired_in_transit :: "envelope \<Rightarrow> icmp_header \<Rightarrow> byte list \<Rightarrow> nat \<Rightarrow> packet \<Rightarrow> byte list" where
  "expired_in_transit env e q n p = serialize_icmp e @ q @ take n (serialize p)"

definition from_router :: "envelope \<Rightarrow> SocketAddress \<Rightarrow> icmp_header \<Rightarrow> byte list \<Rightarrow> nat \<Rightarrow> bool" where
  "from_router env client e q n \<longleftrightarrow> envelope_ok env \<and> quotable env q \<and> isV4 client = over4 env
     \<and> uint (icmp_type e) = time_exceeded env \<and> 8 \<le> n"

lemma router_verdict:
  assumes "from_router env client e q n" "made_by f p" "made_by f p0" "probe_id p0 \<noteq> None"
  shows "verdict p client env (icmp_protocol env) (expired_in_transit env e q n p0) stale
    = Inr (probe_id p = probe_id p0)"
proof -
  have type: "icmp_type e = (if over4 env then 11 else 3)"
    using assms(1)
    by (auto simp: from_router_def time_exceeded_def word_uint_eq_iff split: if_splits)
  show ?thesis
  proof (cases p0)
    case (IcmpPacket s d h)
    with assms(2,3) obtain s' d' h' where p: "p = IcmpPacket s' d' h'"
      by (cases f; cases p) simp_all
    have "take n (serialize_icmp h) = serialize_icmp h"
      using assms(1) by (simp add: from_router_def sizeofs)
    with IcmpPacket p assms(1) type quoted_echo [of env q e s' d' h' client h stale] show ?thesis
      by (auto simp: from_router_def expired_in_transit_def word_unat_eq_iff [symmetric] split: if_splits)
  next
    case (TcpPacket s d h)
    with assms(2,3) obtain s' d' h' where p: "p = TcpPacket s' d' h'"
      by (cases f; cases p) simp_all
    with TcpPacket assms(1) type quoted_tcp [of env q client n e s' d' h' h stale] show ?thesis
      by (auto simp: from_router_def expired_in_transit_def word_unat_eq_iff [symmetric]
          split: if_splits)
  qed (use assms(4) in simp)
qed

section \<open>The first match\<close>

lemma find_valid_none:
  "\<forall>q \<in> set ps. packet_isValid (pv_packet q) info buf = Inr False \<Longrightarrow>
     find_valid ps info buf = Inr None"
  by (induction ps) simp_all

lemma find_valid_first:
  assumes "packet_isValid (pv_packet p) info buf = Inr True"
  shows "\<forall>q \<in> set ps. packet_isValid (pv_packet q) info buf = Inr False \<Longrightarrow>
     find_valid (ps @ p # qs) info buf = Inr (Some (p, ps @ qs))"
  using assms by (induction ps) simp_all

text \<open>Behind the critical section: the successes are those of before and the answer.\<close>

definition successes :: "result_map \<Rightarrow> u32 \<Rightarrow> ProbeResult list" where
  "successes m ttl = filter pr_success (results_of m ttl)"

lemma successes_push:
  "ascending m \<Longrightarrow> successes (push_result t r m) ttl
     = successes m ttl @ (if pr_success r \<and> ttl = t then [r] else [])"
  by (simp add: successes_def results_of_push)

lemma expire_successes:
  "expire T timeout ps m w = ((rest, m'), w') \<Longrightarrow> ascending m \<Longrightarrow> successes m' ttl = successes m ttl"
proof (induction ps arbitrary: m w rest m' w')
  case (Cons p ps)
  then show ?case
    by (fastforce simp: Let_def ascending_push successes_push split: prod.splits if_splits)
qed simp

lemma locked_successes:
  assumes "fs_receiver l = R_lock b (Some info)" "ascending (fs_results l)"
    and "find_valid (fs_pending l) info (fs_buffer l) = Inr found"
  shows "\<exists>waited. \<forall>ttl. successes (fs_results (receiver_step J l)) ttl = successes (fs_results l) ttl
    @ (case found of
         Some (p, rest) \<Rightarrow> if ttl = pv_ttl p then [successProbe waited (ri_client info)] else []
       | None \<Rightarrow> [])"
proof (cases found)
  case None
  obtain rest m w where second: "expire (fj_tracer J) (fj_timeout J) (fs_pending l) (fs_results l)
      (fs_world l) = ((rest, m), w)"
    by (metis surj_pair)
  with assms(1,3) None have "fs_results (receiver_step J l) = m"
    by (simp add: receiver_step_def validate_locked_def record_answer_def io_simps)
  with expire_successes [OF second assms(2)] None show ?thesis by simp
next
  case (Some found')
  obtain p rest where found': "found' = (p, rest)" by fastforce
  obtain waited w1 where waited: "getTimePassedTillNow (fj_tracer J) (pv_sentAt p) (fs_world l)
      = (waited, w1)"
    by fastforce
  let ?m = "push_result (pv_ttl p) (successProbe waited (ri_client info)) (fs_results l)"
  obtain rest' m w where second: "expire (fj_tracer J) (fj_timeout J) rest ?m w1 = ((rest', m), w)"
    by (metis surj_pair)
  with assms(1,3) Some found' waited have "fs_results (receiver_step J l) = m"
    by (simp add: receiver_step_def validate_locked_def record_answer_def io_simps)
  with expire_successes [OF second ascending_push [OF assms(2)]] Some found'
  show ?thesis by (auto simp: successes_push [OF assms(2)])
qed

section \<open>Probes in flight\<close>

definition all_made_by :: "packet_factory \<Rightarrow> 'w fast_state \<Rightarrow> bool" where
  "all_made_by f l \<longleftrightarrow> (\<forall>x \<in> set (fs_pending l). made_by f (pv_packet x))
     \<and> (\<forall>p ttl i. fs_sender l = S_sent p ttl i \<longrightarrow> made_by f p)"

lemma send_one_made_by: "send_one (tracer_of os ds f) ttl w = (Inr p, w') \<Longrightarrow> made_by f p"
  by (auto simp: send_one_def bindE_Inr tracer_of_def throwE_def returnE_def split: if_splits
      dest: created_made_by)

lemma fast_step_made_by:
  assumes "fast_step J l l'" "all_made_by f l" "fj_tracer J = tracer_of os ds f"
  shows "all_made_by f l'"
  using assms(1)
proof (rule fast_stepE)
  assume "l' = sender_step J l"
  with assms(2,3) show ?thesis
    by (auto simp: all_made_by_def sender_step_def split: sender_pc.splits prod.splits sum.splits
        dest: send_one_made_by)
next
  assume l': "l' = receiver_step J l"
  have "set pending \<subseteq> set (fs_pending l)"
    if "validate_locked (fj_tracer J) (fj_timeout J) ri (fs_buffer l) (fs_pending l) (fs_results l)
      (fs_world l) = (Inr (pending, results), w)" for ri pending results w
    using settles_many_subset [OF validate_locked_settles [OF that]] by simp
  with assms(2) l' show ?thesis
    by (fastforce simp: all_made_by_def receiver_step_def Let_def
        split: receiver_pc.splits prod.splits sum.splits)
qed

lemma fine_reach_made_by:
  assumes "fine_reach os J (fine_start J [] buf w) s" "fj_tracer J = tracer_of os' ds f"
  shows "all_made_by f (fi_local s)"
  using assms(1)
proof (rule fine_invariant)
  show "all_made_by f l'" if "all_made_by f l" "fast_step J l l'" for l l'
    using that(2,1) assms(2) by (rule fast_step_made_by)
qed (simp_all add: all_made_by_def fine_start_def Fast_start_def)

text \<open>The step with which the receiving thread leaves the block under the lock.\<close>

lemma leaving_successes:
  assumes "fine_step os J s t" "fs_receiver (fi_local s) = R_lock b (Some info)"
    and "fs_receiver (fi_local t) \<noteq> fs_receiver (fi_local s)"
    and "ascending (fs_results (fi_local s))"
    and "find_valid (fs_pending (fi_local s)) info (fs_buffer (fi_local s)) = Inr found"
  shows "\<exists>waited. \<forall>ttl. successes (fs_results (fi_local t)) ttl = successes (fs_results (fi_local s)) ttl
    @ (case found of
         Some (p, rest) \<Rightarrow> if ttl = pv_ttl p then [successProbe waited (ri_client info)] else []
       | None \<Rightarrow> [])"
  using assms(1)
proof (rule fine_stepE)
  fix th
  assume "t = completed J th s"
  with assms(3) have "fi_local t = attempt J Receiving s"
    by (cases th) (auto simp: completed_def attempt_def)
  with assms(2,4,5) locked_successes [of "(fi_local s)\<lparr>fs_world :=
      given (of_thread Receiving (fi_replies s)) (of_thread Receiving (fi_errno s))\<rparr>" b info found J]
  show ?thesis by (simp add: attempt_def)
qed (use assms(3) in \<open>simp_all add: answered_call_def\<close>)

section \<open>Who gets the answer\<close>

lemma ascending_reached:
  assumes "fine_reach os J (fine_start J [] buf w) s" "tracer_ports (fj_tracer J) target"
    and "fj_end J \<noteq> - 1"
  shows "ascending (fs_results (fi_local s))"
  using fine_reach_inv [OF assms] by (simp add: fast_inv_def books_ok_def probes_ok_def)

text \<open>
  With different identifiers the answer is that of the probe it quotes, when that is waiting; with none
  of its identifier waiting the answer is dropped.
\<close>

lemma find_quoted:
  assumes "from_router env client e q n" "made_by f p0" "probe_id p0 \<noteq> None"
    and "\<forall>x \<in> set ps. made_by f (pv_packet x)" "distinct (map (probe_id \<circ> pv_packet) ps)"
  defines "d \<equiv> expired_in_transit env e q n p0"
  shows "find_valid ps (received client (icmp_protocol env) (enveloped env d)) (enveloped env d @ stale)
      = Inr None \<and> (\<forall>x \<in> set ps. probe_id (pv_packet x) \<noteq> probe_id p0)
    \<or> (\<exists>x rest. find_valid ps (received client (icmp_protocol env) (enveloped env d))
          (enveloped env d @ stale) = Inr (Some (x, rest))
        \<and> x \<in> set ps \<and> probe_id (pv_packet x) = probe_id p0
        \<and> (\<forall>y \<in> set ps. probe_id (pv_packet y) = probe_id p0 \<longrightarrow> y = x))"
proof -
  have judge: "packet_isValid (pv_packet x) (received client (icmp_protocol env) (enveloped env d))
      (enveloped env d @ stale) = Inr (probe_id (pv_packet x) = probe_id p0)" if "x \<in> set ps" for x
    using router_verdict [OF assms(1) _ assms(2,3), of "pv_packet x" stale] assms(4) that
    by (simp add: verdict_def d_def del: packet_isValid_cases)
  show ?thesis
  proof (cases "\<exists>x \<in> set ps. probe_id (pv_packet x) = probe_id p0")
    case False
    with judge show ?thesis by (intro disjI1 conjI find_valid_none) auto
  next
    case True
    then obtain x where x: "x \<in> set ps" "probe_id (pv_packet x) = probe_id p0" by blast
    then obtain as bs where split: "ps = as @ x # bs" by (auto simp: in_set_conv_decomp)
    with assms(5) x(2) have others: "\<forall>y \<in> set as \<union> set bs. probe_id (pv_packet y) \<noteq> probe_id p0"
      by (auto simp: image_iff)
    have "\<forall>y \<in> set as. packet_isValid (pv_packet y)
        (received client (icmp_protocol env) (enveloped env d)) (enveloped env d @ stale) = Inr False"
      using judge others split by auto
    with judge [OF x(1)] x(2)
    have "find_valid ps (received client (icmp_protocol env) (enveloped env d)) (enveloped env d @ stale)
        = Inr (Some (x, as @ bs))"
      unfolding split by (intro find_valid_first) simp_all
    with x others split show ?thesis by auto
  qed
qed

text \<open>An answer to a UDP probe goes to the probe that waits longest.\<close>

lemma find_udp:
  assumes "envelope_ok env" "isV4 client = over4 env" "8 \<le> length rest" "length rest \<le> 50000"
    and "\<forall>x \<in> set ps. made_by (UdpPacketFactory src d port) (pv_packet x)" "ps = y # ys"
    and "uint (icmp_type e) = (if addr_eq d client then dest_unreach env else time_exceeded env)"
  defines "payload \<equiv> serialize_icmp e @ rest"
  shows "find_valid ps (received client (icmp_protocol env) (enveloped env payload))
      (enveloped env payload @ stale) = Inr (Some (y, ys))"
proof -
  from assms(5,6) obtain s h where y: "pv_packet y = UdpPacket s d h"
    by (cases "pv_packet y") auto
  have "over4 env \<or> icmp_type e \<in> {1, 3}"
    using assms(7)
    by (auto simp: time_exceeded_def dest_unreach_def word_uint_eq_iff split: if_splits)
  from quoted_udp [OF assms(1-4) this, of s d h stale] assms(7)
  have "packet_isValid (pv_packet y) (received client (icmp_protocol env) (enveloped env payload))
      (enveloped env payload @ stale) = Inr True"
    by (simp add: verdict_def payload_def y del: packet_isValid_cases)
  from find_valid_first [OF this, of "[]" ys] assms(6) show ?thesis by simp
qed

end
