(* ===== verification/AttributionClaims.thy ===== *)
theory AttributionClaims
  imports FineClaims Attribution
begin

text \<open>
  To which probe the fast tracer attributes an answer, interleaved at every system call, applied to
  concrete runs.
\<close>

text \<open>
  C12. The right TTL. A router's time exceeded, over IPv4 or IPv6, that quotes the first eight bytes or
  more of a TCP or ICMP probe is reported for exactly the probe it quotes: when the receiving thread leaves
  the critical section, and the identifiers of the waiting probes differ, the only success that is new
  is the router's, under the TTL of the waiting probe with the quoted identifier; when that probe does
  not wait there is none.
\<close>

theorem answer_attributed:
  assumes "fine_reach os (fast_job_of (replaying os) ds f ttlBegin ttlEnd retries timeout)
      (fine_start (fast_job_of (replaying os) ds f ttlBegin ttlEnd retries timeout) [] buf w) s"
    and "fine_step os (fast_job_of (replaying os) ds f ttlBegin ttlEnd retries timeout) s t"
    and "fs_receiver (fi_local s) = R_lock b (Some (received client (icmp_protocol env)
      (enveloped env (expired_in_transit env e q n p0))))"
    and "fs_buffer (fi_local s) = enveloped env (expired_in_transit env e q n p0) @ stale"
    and "fs_receiver (fi_local t) \<noteq> fs_receiver (fi_local s)" "ttlEnd \<noteq> - 1"
    and "from_router env client e q n" "made_by f p0" "probe_id p0 \<noteq> None"
    and "distinct (map (probe_id \<circ> pv_packet) (fs_pending (fi_local s)))"
  shows "\<exists>waited. \<forall>ttl. successes (fs_results (fi_local t)) ttl = successes (fs_results (fi_local s)) ttl
    @ (if \<exists>x \<in> set (fs_pending (fi_local s)). probe_id (pv_packet x) = probe_id p0 \<and> pv_ttl x = ttl
       then [successProbe waited client] else [])"
proof -
  let ?J = "fast_job_of (replaying os) ds f ttlBegin ttlEnd retries timeout"
  have asc: "ascending (fs_results (fi_local s))"
    using ascending_reached [OF assms(1) real_ports] assms(6) by simp
  have ours: "\<forall>x \<in> set (fs_pending (fi_local s)). made_by f (pv_packet x)"
    using fine_reach_made_by [OF assms(1)] by (simp add: all_made_by_def)
  note leave = leaving_successes [OF assms(2,3,5) asc, unfolded assms(4) received_simps]
  from find_quoted [OF assms(7-9) ours assms(10), of stale] show ?thesis
  proof (elim disjE exE conjE)
    assume found: "find_valid (fs_pending (fi_local s)) (received client (icmp_protocol env)
        (enveloped env (expired_in_transit env e q n p0)))
        (enveloped env (expired_in_transit env e q n p0) @ stale) = Inr None"
      and none: "\<forall>x \<in> set (fs_pending (fi_local s)). probe_id (pv_packet x) \<noteq> probe_id p0"
    from leave [OF found] none show ?thesis by simp
  next
    fix x rest
    assume found: "find_valid (fs_pending (fi_local s)) (received client (icmp_protocol env)
        (enveloped env (expired_in_transit env e q n p0)))
        (enveloped env (expired_in_transit env e q n p0) @ stale) = Inr (Some (x, rest))"
      and x: "x \<in> set (fs_pending (fi_local s))" "probe_id (pv_packet x) = probe_id p0"
      and only: "\<forall>y \<in> set (fs_pending (fi_local s)). probe_id (pv_packet y) = probe_id p0 \<longrightarrow> y = x"
    have "(\<exists>y \<in> set (fs_pending (fi_local s)). probe_id (pv_packet y) = probe_id p0 \<and> pv_ttl y = ttl)
        \<longleftrightarrow> ttl = pv_ttl x" for ttl
      using x only by metis
    with leave [OF found] show ?thesis by simp
  qed
qed

text \<open>
  C34. The wrong TTL. The validator of a UDP probe does not look at what an ICMP error quotes: whatever
  probe it is about, the answer goes to the probe that waits longest, under that probe's TTL.
\<close>

theorem udp_misattributed:
  assumes "fine_reach os (fast_job_of (replaying os) ds (UdpPacketFactory src d port) ttlBegin ttlEnd retries timeout)
      (fine_start (fast_job_of (replaying os) ds (UdpPacketFactory src d port) ttlBegin ttlEnd retries timeout)
        [] buf w) s"
    and "fine_step os (fast_job_of (replaying os) ds (UdpPacketFactory src d port) ttlBegin ttlEnd retries timeout)
      s t"
    and "fs_receiver (fi_local s) = R_lock b (Some (received client (icmp_protocol env)
      (enveloped env (serialize_icmp e @ rest))))"
    and "fs_buffer (fi_local s) = enveloped env (serialize_icmp e @ rest) @ stale"
    and "fs_receiver (fi_local t) \<noteq> fs_receiver (fi_local s)" "ttlEnd \<noteq> - 1"
    and "envelope_ok env" "isV4 client = over4 env" "8 \<le> length rest" "length rest \<le> 50000"
    and "uint (icmp_type e) = (if addr_eq d client then dest_unreach env else time_exceeded env)"
    and "fs_pending (fi_local s) = x # xs"
  shows "\<exists>waited. \<forall>ttl. successes (fs_results (fi_local t)) ttl = successes (fs_results (fi_local s)) ttl
    @ (if ttl = pv_ttl x then [successProbe waited client] else [])"
proof -
  have asc: "ascending (fs_results (fi_local s))"
    using ascending_reached [OF assms(1) real_ports] assms(6) by simp
  have ours: "\<forall>y \<in> set (fs_pending (fi_local s)). made_by (UdpPacketFactory src d port) (pv_packet y)"
    using fine_reach_made_by [OF assms(1)] by (simp add: all_made_by_def)
  from leaving_successes [OF assms(2,3,5) asc, unfolded assms(4) received_simps,
      OF find_udp [OF assms(7-10) ours assms(12,11)]]
  show ?thesis by simp
qed

section \<open>Two probes and the answer to the second\<close>

text \<open>
  A system whose \<open>rand\<close> never repeats itself, and a run in which both probes wait when the receiving
  thread has got the answer to the second one and waits for the mutex.
\<close>

definition counting :: "world os" where
  "counting = scripted\<lparr>sys_rand := (\<lambda>w. (nat (wd_time w), w\<lparr>wd_time := wd_time w + 1\<rparr>))\<rparr>"

definition second_answered :: "packet_factory \<Rightarrow> byte list \<Rightarrow> world fast_state" where
  "second_answered f datagram =
     (let J = fast_job_of counting udp_sender f 1 2 1 20000
      in fast_run J (replicate 5 True @ replicate 3 False)
           (Fast_start J [] sample_buffer (start_world [(datagram, router6)])))"

text \<open>Such a state, and the step that leaves the critical section, in the run with single calls.\<close>

lemma leaving_step:
  fixes f datagram
  defines "J \<equiv> fast_job_of (replaying counting) udp_sender f 1 2 1 20000"
  assumes "fs_receiver (second_answered f datagram) = R_lock b r"
    and "\<forall>w' r'. fs_receiver (receiver_step (fast_job_of counting udp_sender f 1 2 1 20000)
      (second_answered f datagram)) \<noteq> R_lock w' r'"
  obtains s t where
    "fine_reach counting J (fine_start J [] sample_buffer (start_world [(datagram, router6)])) s"
    "fine_step counting J s t" "books (fi_local s) = books (second_answered f datagram)"
    "fs_receiver (fi_local t) \<noteq> fs_receiver (fi_local s)"
proof -
  let ?K = "fast_job_of counting udp_sender f 1 2 1 20000"
  let ?start = "Fast_start ?K [] sample_buffer (start_world [(datagram, router6)])"
  have same: "same_job J ?K" by (simp add: same_job_def J_def)
  have tracers: "replays_tracer counting (fj_tracer J) (fj_tracer ?K)"
    by (simp add: J_def tracer_of_replays)
  have "fast_reach ?K ?start (second_answered f datagram)"
    unfolding second_answered_def Let_def by (rule fast_run_reach) (rule fast_reach.start)
  from fast_reach_fine [OF tracers same this stands_for_start [OF same]] obtain u where
    u: "fine_reach counting J (fine_start J [] sample_buffer (start_world [(datagram, router6)])) u"
      "stands_for u (second_answered f datagram)"
    by blast
  have "\<not> finished Receiving (second_answered f datagram)" using assms(2) by simp
  from step_completed [OF tracers same u(2) this] obtain s t where st:
    "(fine_step counting J)\<^sup>*\<^sup>* u s" "books (fi_local s) = books (second_answered f datagram)"
    "fine_step counting J s t" "stands_for t (move Receiving ?K (second_answered f datagram))"
    by blast
  have "fine_reach counting J (fine_start J [] sample_buffer (start_world [(datagram, router6)])) s"
    using u(1) st(1) by (simp add: fine_reach_def)
  moreover have "fs_receiver (fi_local t) \<noteq> fs_receiver (fi_local s)"
    using st(2,4) assms(2,3) by (auto simp: stands_for_def books_def)
  ultimately show thesis using that st(2,3) by blast
qed

text \<open>What the state looks like, and that the step leaves the block.\<close>

definition look ::
    "packet_factory \<Rightarrow> byte list \<Rightarrow> receiver_pc \<times> byte list \<times> (packet \<times> u32) list \<times> result_map \<times> bool" where
  "look f datagram = (let s = second_answered f datagram in
     (fs_receiver s, fs_buffer s, map (\<lambda>x. (pv_packet x, pv_ttl x)) (fs_pending s), fs_results s,
      (case fs_receiver (receiver_step (fast_job_of counting udp_sender f 1 2 1 20000) s) of
         R_lock b r \<Rightarrow> False | _ \<Rightarrow> True)))"

definition echo_factory :: packet_factory where
  "echo_factory = IcmpPacketFactory home6 server6"

definition echo_expired :: "byte list" where
  "echo_expired = expired_in_transit Over6 (sample_icmp 3 0) sample_ip6 8
     (IcmpPacket home6 server6 (sample_icmp 128 (htons 2)))"

definition udp_probe :: "u16 \<Rightarrow> packet" where
  "udp_probe port = UdpPacket home6 server6
     \<lparr>udp_source = htons port, udp_dest = htons 33434, udp_len = htons 8, udp_check = 0\<rparr>"

definition udp_first :: packet where "udp_first = udp_probe 50000"
definition udp_second :: packet where "udp_second = udp_probe 50002"

definition udp_expired :: "byte list" where
  "udp_expired = expired_in_transit Over6 (sample_icmp 3 0) sample_ip6 8 udp_second"

lemma looks:
  "look echo_factory echo_expired =
     (R_lock 4 (Some (received router6 (icmp_protocol Over6) (enveloped Over6 echo_expired))),
      enveloped Over6 echo_expired @ replicate 80 0,
      [(IcmpPacket home6 server6 (sample_icmp 128 0), 1),
       (IcmpPacket home6 server6 (sample_icmp 128 (htons 2)), 2)], [], True)"
  "look udp_factory udp_expired =
     (R_lock 4 (Some (received router6 (icmp_protocol Over6) (enveloped Over6 udp_expired))),
      enveloped Over6 udp_expired @ replicate 80 0,
      [(udp_first, 1), (udp_second, 2)], [], True)"
  by (code_simp, code_simp)

lemma leaving_look:
  assumes "look f datagram = (R_lock b r, buf, ps, m, True)"
  obtains s t where
    "fine_reach counting (fast_job_of (replaying counting) udp_sender f 1 2 1 20000)
      (fine_start (fast_job_of (replaying counting) udp_sender f 1 2 1 20000) [] sample_buffer
        (start_world [(datagram, router6)])) s"
    "fine_step counting (fast_job_of (replaying counting) udp_sender f 1 2 1 20000) s t"
    "fs_receiver (fi_local s) = R_lock b r" "fs_buffer (fi_local s) = buf"
    "map (\<lambda>x. (pv_packet x, pv_ttl x)) (fs_pending (fi_local s)) = ps" "fs_results (fi_local s) = m"
    "fs_receiver (fi_local t) \<noteq> fs_receiver (fi_local s)"
proof -
  have "fs_receiver (second_answered f datagram) = R_lock b r"
    and "\<forall>w' r'. fs_receiver (receiver_step (fast_job_of counting udp_sender f 1 2 1 20000)
      (second_answered f datagram)) \<noteq> R_lock w' r'"
    using assms by (auto simp: look_def Let_def)
  then show thesis
  proof (rule leaving_step)
    fix s t :: "world fine_state"
    assume run: "fine_reach counting (fast_job_of (replaying counting) udp_sender f 1 2 1 20000)
        (fine_start (fast_job_of (replaying counting) udp_sender f 1 2 1 20000) [] sample_buffer
          (start_world [(datagram, router6)])) s"
      "fine_step counting (fast_job_of (replaying counting) udp_sender f 1 2 1 20000) s t"
      and same: "books (fi_local s) = books (second_answered f datagram)"
      and leaves: "fs_receiver (fi_local t) \<noteq> fs_receiver (fi_local s)"
    show thesis
      using same assms by (intro that [OF run _ _ _ _ leaves]) (auto simp: look_def Let_def books_def)
  qed
qed

theorem answer_attributed_witness:
  "\<exists>s t waited. fine_step counting
       (fast_job_of (replaying counting) udp_sender echo_factory 1 2 1 20000) s t
     \<and> successes (fs_results (fi_local t)) 1 = []
     \<and> successes (fs_results (fi_local t)) 2 = [successProbe waited router6]"
proof (rule leaving_look [OF looks(1)])
  fix s t
  let ?p = "IcmpPacket home6 server6 (sample_icmp 128 (htons 2))"
  let ?J = "fast_job_of (replaying counting) udp_sender echo_factory 1 2 1 20000"
  assume run: "fine_reach counting ?J (fine_start ?J [] sample_buffer (start_world [(echo_expired, router6)])) s"
      "fine_step counting ?J s t"
    and at: "fs_receiver (fi_local s)
        = R_lock 4 (Some (received router6 (icmp_protocol Over6) (enveloped Over6 echo_expired)))"
      "fs_buffer (fi_local s) = enveloped Over6 echo_expired @ replicate 80 0"
      "map (\<lambda>x. (pv_packet x, pv_ttl x)) (fs_pending (fi_local s))
        = [(IcmpPacket home6 server6 (sample_icmp 128 0), 1), (?p, 2)]"
      "fs_results (fi_local s) = []" "fs_receiver (fi_local t) \<noteq> fs_receiver (fi_local s)"
  from at(3) obtain x y where xy: "fs_pending (fi_local s) = [x, y]" "pv_ttl x = 1" "pv_ttl y = 2"
    "pv_packet x = IcmpPacket home6 server6 (sample_icmp 128 0)" "pv_packet y = ?p"
    by (auto simp: map_eq_Cons_conv)
  have ids: "probe_id (pv_packet x) = Some 0" "probe_id (pv_packet y) = Some 512"
    unfolding xy by code_simp+
  have router: "from_router Over6 router6 (sample_icmp 3 0) sample_ip6 8"
    by (simp add: from_router_def time_exceeded_def sample_icmp_def)
  have "made_by echo_factory ?p" "probe_id ?p \<noteq> None" by (simp_all add: echo_factory_def)
  from answer_attributed [OF run at(1,2) [unfolded echo_expired_def] at(5) _ router this]
  obtain waited where "\<And>ttl. successes (fs_results (fi_local t)) ttl = successes [] ttl
      @ (if \<exists>z \<in> {x, y}. probe_id (pv_packet z) = probe_id ?p \<and> pv_ttl z = ttl
         then [successProbe waited router6] else [])"
    using ids xy(1) at(4) by auto
  then have "successes (fs_results (fi_local t)) 1 = []"
      "successes (fs_results (fi_local t)) 2 = [successProbe waited router6]"
    using ids xy(2-5) by (simp_all add: successes_def results_of_def)
  with run(2) show ?thesis by blast
qed

text \<open>The quoted probe is the one with TTL 2; its router is reported for TTL 1.\<close>

theorem udp_misattributed_witness:
  "\<exists>s t waited. fine_step counting
       (fast_job_of (replaying counting) udp_sender udp_factory 1 2 1 20000) s t
     \<and> map (\<lambda>x. (pv_packet x = udp_second, pv_ttl x)) (fs_pending (fi_local s)) = [(False, 1), (True, 2)]
     \<and> successes (fs_results (fi_local t)) 1 = [successProbe waited router6]
     \<and> successes (fs_results (fi_local t)) 2 = []"
proof (rule leaving_look [OF looks(2)])
  fix s t
  let ?J = "fast_job_of (replaying counting) udp_sender udp_factory 1 2 1 20000"
  assume run: "fine_reach counting ?J (fine_start ?J [] sample_buffer (start_world [(udp_expired, router6)])) s"
      "fine_step counting ?J s t"
    and at: "fs_receiver (fi_local s)
        = R_lock 4 (Some (received router6 (icmp_protocol Over6) (enveloped Over6 udp_expired)))"
      "fs_buffer (fi_local s) = enveloped Over6 udp_expired @ replicate 80 0"
      "map (\<lambda>x. (pv_packet x, pv_ttl x)) (fs_pending (fi_local s)) = [(udp_first, 1), (udp_second, 2)]"
      "fs_results (fi_local s) = []" "fs_receiver (fi_local t) \<noteq> fs_receiver (fi_local s)"
  from at(3) obtain x y where xy: "fs_pending (fi_local s) = [x, y]" "pv_ttl x = 1" "pv_ttl y = 2"
    "pv_packet x = udp_first" "pv_packet y = udp_second"
    by (auto simp: map_eq_Cons_conv)
  have differ: "udp_first \<noteq> udp_second" by code_simp
  let ?rest = "sample_ip6 @ take 8 (serialize udp_second)"
  have datagram: "udp_expired = serialize_icmp (sample_icmp 3 0) @ ?rest"
    by (simp add: udp_expired_def expired_in_transit_def)
  have "8 \<le> length ?rest" "length ?rest \<le> 50000" "\<not> addr_eq server6 router6"
    by (code_simp, code_simp, code_simp)
  then obtain waited where "\<And>ttl. successes (fs_results (fi_local t)) ttl = successes [] ttl
      @ (if ttl = pv_ttl x then [successProbe waited router6] else [])"
    using udp_misattributed [OF run [unfolded udp_factory_def] at(1,2) [unfolded datagram] at(5) _ _ _ _ _ _ xy(1)]
      at(4) by (auto simp: time_exceeded_def sample_icmp_def)
  then have "successes (fs_results (fi_local t)) 1 = [successProbe waited router6]"
      "successes (fs_results (fi_local t)) 2 = []"
    using xy(2) by (simp_all add: successes_def results_of_def)
  with run(2) xy differ show ?thesis by (intro exI [of _ s] exI [of _ t] exI [of _ waited]) simp
qed

end
