(* ===== verification/UnitTests.thy ===== *)
theory UnitTests
  imports Scenario FastRuns Sequential
begin

text \<open>
  The unit tests of the two tracers (\<open>tests/UnitTests/TracerouteTests\<close>) on the model. The mocks are a
  tracer on a world of their own: a clock that only the mocked sender advances, the answers it is told
  to give, and the calls that have been made on the mocks, in order. Where a test lets the mocked packet
  accept, the probe is here a UDP packet and the answer a datagram that quotes it.
\<close>

section \<open>The mocks\<close>

datatype mock_call = Created | Sent int | Received

record bench =
  bn_clock :: int
  bn_script :: "(int \<times> (byte list \<times> SocketAddress) option) list"
  bn_calls :: "mock_call list"

text \<open>\<open>waitAndReturn(duration, value)\<close>, in microseconds.\<close>

definition wait_and_return ::
    "int \<Rightarrow> (byte list \<times> SocketAddress) option \<Rightarrow> byte list
       \<Rightarrow> (bench, ResponseInfo option \<times> byte list) io" where
  "wait_and_return duration answer buf b =
     (Inr (case answer of
             None \<Rightarrow> (None, buf)
           | Some (d, from) \<Rightarrow>
               (Some \<lparr>ri_client = from, ri_protocol = IPPROTO_ICMPV6, ri_size = of_nat (length d)\<rparr>,
                write_front d buf)),
      b\<lparr>bn_clock := bn_clock b + 1000 * duration\<rparr>)"

definition called :: "mock_call \<Rightarrow> bench \<Rightarrow> bench" where
  "called c b = b\<lparr>bn_calls := bn_calls b @ [c]\<rparr>"

text \<open>Without an expectation \<open>tryReceiving\<close> waits for the whole timeout and returns nothing.\<close>

definition mock_tryReceiving :: "int \<Rightarrow> bench tryReceiving_method" where
  "mock_tryReceiving timeout buf n t b =
     (case bn_script b of
        [] \<Rightarrow> wait_and_return timeout None buf (called Received b)
      | (duration, answer) # rest \<Rightarrow>
          wait_and_return duration answer buf (called Received (b\<lparr>bn_script := rest\<rparr>)))"

definition mocked :: "packet \<Rightarrow> int \<Rightarrow> bench tracer" where
  "mocked packet timeout =
     \<lparr>t_createPacket = (\<lambda>b. (Inr packet, called Created b)),
      t_trySending = (\<lambda>p ttl t b. (Inr True, called (Sent ttl) b)),
      t_tryReceiving = mock_tryReceiving timeout,
      t_now = (\<lambda>b. (bn_clock b, b))\<rparr>"

definition test_packet :: packet where
  "test_packet = UdpPacket home6 server6 sample_udp"

definition bench_with :: "(int \<times> (byte list \<times> SocketAddress) option) list \<Rightarrow> bench" where
  "bench_with script = \<lparr>bn_clock = 0, bn_script = script, bn_calls = []\<rparr>"

section \<open>The sequential tracer\<close>

text \<open>The default of the tests is one retry and a timeout of 100 milliseconds.\<close>

definition test_timeout :: int where "test_timeout = 100000"

definition sequential_test ::
    "u32 \<Rightarrow> u32 \<Rightarrow> u32 \<Rightarrow> (int \<times> (byte list \<times> SocketAddress) option) list
       \<Rightarrow> (TracerouteResult list \<times> mock_call list) option" where
  "sequential_test ttlStart ttlStop retries script =
     (case Sequential_beginProbing (mocked test_packet test_timeout) ttlStart ttlStop retries
             test_timeout sample_buffer (bench_with script) of
        Some (Inr (res, buf), b) \<Rightarrow> Some (res, bn_calls b)
      | _ \<Rightarrow> None)"

abbreviation one_probe :: "u32 \<Rightarrow> ProbeResult \<Rightarrow> TracerouteResult" where
  "one_probe ttl r \<equiv> \<lparr>tr_ttl = ttl, tr_probeResults = [r]\<rparr>"

text \<open>
  The unit tests of the sequential tracer pass on the model: a timeout is reported with the whole
  timeout and no sender; every TTL of the range has a result; every retry creates a packet and sends
  it with the same TTL; an accepted answer is reported with its sender and the time since the probe was
  sent, receives in vain included; with less than the minimal time left there is no further receive;
  a probe that is lost between two answers does not disturb them.
\<close>

lemma sequential_unit_tests:
  "sequential_test 1 1 1 [(test_timeout, None)]
      = Some ([one_probe 1 (failedProbe test_timeout)], [Created, Sent 1, Received])
   \<and> map_option (map tr_ttl \<circ> fst) (sequential_test 2 5 1 []) = Some [2, 3, 4, 5]
   \<and> map_option (filter (\<lambda>c. c \<noteq> Received) \<circ> snd) (sequential_test 1 1 3 [])
      = Some [Created, Sent 1, Created, Sent 1, Created, Sent 1]
   \<and> map_option fst (sequential_test 1 1 1 [(0, Some (udp_error 1, server6))])
      = Some [one_probe 1 (successProbe 0 server6)]
   \<and> map_option snd (sequential_test 1 1 1 [(test_timeout - 5, None)])
      = Some [Created, Sent 1, Received]
   \<and> map_option fst (sequential_test 1 1 1 [(50000, Some (udp_error 1, server6))])
      = Some [one_probe 1 (successProbe 50000 server6)]
   \<and> map_option fst (sequential_test 1 1 1
        [(10000, None), (30000, None), (40000, Some (udp_error 1, server6))])
      = Some [one_probe 1 (successProbe 80000 server6)]
   \<and> map_option fst (sequential_test 1 3 1
        [(0, Some (udp_error 3, router6)), (test_timeout, None), (0, Some (udp_error 1, server6))])
      = Some [one_probe 1 (successProbe 0 router6), one_probe 2 (failedProbe test_timeout),
          one_probe 3 (successProbe 0 server6)]"
  by (intro conjI) code_simp+

section \<open>The tracer with two threads\<close>

definition fast_test :: "bench fast_job" where
  "fast_test = \<lparr>fj_tracer = mocked test_packet test_timeout, fj_begin = 1, fj_end = 1,
     fj_retries = 1, fj_timeout = test_timeout\<rparr>"

definition fast_test_run :: "bool list \<Rightarrow> (exn + TracerouteResult list) option" where
  "fast_test_run schedule = Fast_outcome (fast_run fast_test schedule
     (Fast_start fast_test [] sample_buffer (bench_with [(test_timeout, None)])))"

text \<open>
  Where the two threads are after \<open>i\<close> moves of the sending and \<open>j\<close> of the receiving one, when the probe was
  registered before the fake clock went on (\<open>early\<close>) or not. Only the record of the calls depends on more.
\<close>

definition test_probe :: "int \<Rightarrow> PacketToValidate" where
  "test_probe at = \<lparr>pv_packet = test_packet, pv_sentAt = at, pv_ttl = 1, pv_retry = 0\<rparr>"

definition test_state :: "nat \<Rightarrow> nat \<Rightarrow> bool \<Rightarrow> mock_call list \<Rightarrow> bench fast_state" where
  "test_state i j early calls =
     \<lparr>fs_world = \<lparr>bn_clock = (if 3 \<le> j then 100000000 else 0),
        bn_script = (if 3 \<le> j then [] else [(test_timeout, None)]), bn_calls = calls\<rparr>,
      fs_pending = (if i < 2 then [] else if \<not> early then [test_probe 100000000]
        else if 4 \<le> j then [] else [test_probe 0]),
      fs_buffer = sample_buffer,
      fs_results = (if 2 \<le> i \<and> early \<and> 4 \<le> j then [(1, [failedProbe test_timeout])] else []),
      fs_sender = [S_at 1 0, S_sent test_packet 1 0, S_at 1 1, S_at 2 0, S_done] ! i,
      fs_receiver = [R_start, R_test 0, R_receive 0, R_lock 0 None, R_test 0, R_collect,
        R_done (if 2 \<le> i \<and> early then [one_probe 1 (failedProbe test_timeout)] else [])] ! j\<rparr>"

lemmas test_simps = test_state_def test_probe_def fast_test_def mocked_def test_timeout_def called_def Let_def
  io_simps

lemma test_sender_moves:
  assumes "i \<le> 4" "early \<longrightarrow> 2 \<le> i" "j \<le> 6"
  shows "\<exists>calls'. sender_step fast_test (test_state i j early calls)
    = test_state (min 4 (Suc i)) j (early \<or> i = 1 \<and> j < 3) calls'"
proof -
  from assms(1) consider "i = 0" | "i = 1" | "i = 2" | "i = 3" | "i = 4" by linarith
  then show ?thesis
    using assms(2,3) by cases 
      (auto simp: sender_step_def send_one_def test_simps word_le_nat_alt nth_Cons split: nat.splits)
qed

lemma test_receiver_moves:
  assumes "i \<le> 4" "early \<longrightarrow> 2 \<le> i" "j \<le> 6"
  shows "\<exists>calls'. receiver_step fast_test (test_state i j early calls)
    = test_state i (min 6 (Suc j)) early calls'"
proof -
  have limit: "expectedMaxTimeTaken 100000 1 = 100000" "expectedSize 1 1 1 = 1" by code_simp+
  from assms(3) consider "j = 0" | "j = 1" | "j = 2" | "j = 3" | "j = 4" | "j = 5" | "j = 6" by linarith
  then show ?thesis
    using assms(1,2)
    by cases (auto simp: receiver_step_def test_simps limit getTimeLeft_def getTimePassedTillNow_def
        getCurrentSize_def mock_tryReceiving_def wait_and_return_def validate_locked_def
        cut_at_target_def collect_results_def target_seen_def hits_def tdiv_def
        failedProbe_def MinTimeWaitForResponse_def)
qed

lemma test_outcome:
  assumes "i \<le> 4" "j \<le> 6"
  shows "Fast_outcome (test_state i j early calls) =
    (if i = 4 \<and> j = 6 then Some (Inr (if early then [one_probe 1 (failedProbe test_timeout)] else [])) else None)"
proof -
  have "i \<in> {0, 1, 2, 3, 4}" "j \<in> {0, 1, 2, 3, 4, 5, 6}" using assms by auto
  then show ?thesis by (auto simp: Fast_outcome_def test_state_def)
qed

text \<open>The second move of the sending thread registers the probe; the third of the other turns the clock.\<close>

definition in_time :: "bool list \<Rightarrow> bool" where
  "in_time schedule \<longleftrightarrow>
     (\<exists>us vs. schedule = us @ True # vs \<and> count_list us True = 1 \<and> count_list us False < 3)"

lemma in_time_snoc:
  "in_time (bs @ [b]) \<longleftrightarrow> in_time bs \<or> b \<and> count_list bs True = 1 \<and> count_list bs False < 3"
proof
  assume "in_time (bs @ [b])"
  then obtain us vs where split: "bs @ [b] = us @ True # vs" "count_list us True = 1" "count_list us False < 3"
    by (auto simp: in_time_def)
  then show "in_time bs \<or> b \<and> count_list bs True = 1 \<and> count_list bs False < 3"
    by (cases vs rule: rev_cases) (auto simp: in_time_def)
next
  assume "in_time bs \<or> b \<and> count_list bs True = 1 \<and> count_list bs False < 3"
  then show "in_time (bs @ [b])"
  proof
    assume "in_time bs"
    then obtain us vs where "bs = us @ True # vs" "count_list us True = 1" "count_list us False < 3"
      by (auto simp: in_time_def)
    then show ?thesis unfolding in_time_def by (intro exI [of _ us] exI [of _ "vs @ [b]"]) simp
  next
    assume "b \<and> count_list bs True = 1 \<and> count_list bs False < 3"
    then show ?thesis unfolding in_time_def by (intro exI [of _ bs] exI [of _ "[]"]) simp
  qed
qed

lemma in_time_moves: "in_time bs \<Longrightarrow> 2 \<le> count_list bs True"
  by (auto simp: in_time_def)

lemma fast_run_snoc:
  "fast_run J (bs @ [b]) s = (if b then sender_step J (fast_run J bs s) else receiver_step J (fast_run J bs s))"
  by (induction bs arbitrary: s) auto

lemma fast_test_reaches:
  "\<exists>calls. fast_run fast_test bs (Fast_start fast_test [] sample_buffer (bench_with [(test_timeout, None)]))
    = test_state (min 4 (count_list bs True)) (min 6 (count_list bs False)) (in_time bs) calls"
proof (induction bs rule: rev_induct)
  case Nil
  then show ?case by (simp add: in_time_def Fast_start_def bench_with_def test_state_def fast_test_def)
next
  case (snoc b bs)
  then obtain calls where IH:
    "fast_run fast_test bs (Fast_start fast_test [] sample_buffer (bench_with [(test_timeout, None)]))
      = test_state (min 4 (count_list bs True)) (min 6 (count_list bs False)) (in_time bs) calls"
    by blast
  have early: "in_time bs \<longrightarrow> 2 \<le> min 4 (count_list bs True)" using in_time_moves [of bs] by auto
  show ?case
  proof (cases b)
    case True
    obtain calls' where "sender_step fast_test
        (test_state (min 4 (count_list bs True)) (min 6 (count_list bs False)) (in_time bs) calls)
      = test_state (min 4 (Suc (min 4 (count_list bs True)))) (min 6 (count_list bs False))
          (in_time bs \<or> min 4 (count_list bs True) = 1 \<and> min 6 (count_list bs False) < 3) calls'"
      using test_sender_moves [OF _ early, of "min 6 (count_list bs False)" calls] by auto
    moreover have "min 4 (Suc (min 4 (count_list bs True))) = min 4 (count_list (bs @ [b]) True)"
      "min 4 (count_list bs True) = 1 \<longleftrightarrow> count_list bs True = 1"
      "min 6 (count_list bs False) < 3 \<longleftrightarrow> count_list bs False < 3"
      using True by auto
    ultimately show ?thesis using True by (auto simp: fast_run_snoc IH in_time_snoc)
  next
    case False
    obtain calls' where "receiver_step fast_test
        (test_state (min 4 (count_list bs True)) (min 6 (count_list bs False)) (in_time bs) calls)
      = test_state (min 4 (count_list bs True)) (min 6 (Suc (min 6 (count_list bs False)))) (in_time bs) calls'"
      using test_receiver_moves [OF _ early, of "min 6 (count_list bs False)" calls] by auto
    moreover have "min 6 (Suc (min 6 (count_list bs False))) = min 6 (count_list (bs @ [b]) False)"
      using False by auto
    ultimately show ?thesis using False by (auto simp: fast_run_snoc IH in_time_snoc)
  qed
qed

text \<open>
  C35. The unit test of the fast tracer expects the timeout of its one probe. Whether it passes depends on
  the schedule of the two threads alone. For every schedule: the tracer has returned when the sending
  thread has made its four moves and the receiving thread its six; the test passes when the second move
  of the sending thread, which registers the probe, comes before the third of the receiving thread, which
  turns the fake clock; otherwise the overall time has passed before the probe is registered, and there
  is no result at all.
\<close>

theorem fast_unit_test_races:
  "fast_test_run schedule =
    (if 4 \<le> count_list schedule True \<and> 6 \<le> count_list schedule False
     then Some (Inr (if \<exists>us vs. schedule = us @ True # vs \<and> count_list us True = 1 \<and> count_list us False < 3
                     then [one_probe 1 (failedProbe test_timeout)] else []))
     else None)"
proof -
  obtain calls where "fast_run fast_test schedule
      (Fast_start fast_test [] sample_buffer (bench_with [(test_timeout, None)]))
    = test_state (min 4 (count_list schedule True)) (min 6 (count_list schedule False)) (in_time schedule) calls"
    using fast_test_reaches by blast
  then have "fast_test_run schedule
      = Fast_outcome (test_state (min 4 (count_list schedule True)) (min 6 (count_list schedule False))
          (in_time schedule) calls)"
    by (simp add: fast_test_run_def)
  also have "\<dots> = (if 4 \<le> count_list schedule True \<and> 6 \<le> count_list schedule False
      then Some (Inr (if in_time schedule then [one_probe 1 (failedProbe test_timeout)] else [])) else None)"
    using test_outcome [of "min 4 (count_list schedule True)" "min 6 (count_list schedule False)" "in_time schedule"]
    by (auto simp: min_def)
  finally show ?thesis by (simp only: in_time_def)
qed

end
