(* ===== verification/ValidatorTests.thy ===== *)
theory ValidatorTests
  imports Verdicts Scenario
begin

text \<open>
  The unit tests of the response validators and of the addresses
  (\<open>tests/UnitTests/ResponseValidatorsTests\<close>, \<open>tests/UnitTests/SocketAddressTests.cpp\<close>) on the model. A
  response is a struct the test has filled in and reads as bytes; what it has not assigned is
  indeterminate, and so are the random numbers of the request. Both are arguments here, so that a test
  that passes does so whatever they are. A test file is the list of its tests, each with its name and
  whether its expectation holds.
\<close>

section \<open>Responses as structs\<close>

text \<open>
  \<open>Ipv4HeaderCustomSize<PaddingSize>\<close> is a header with padding, without any it is \<open>Ipv4Header\<close>;
  \<open>Ipv6Header\<close> is its bytes. The structs of \<open>Responses.hpp\<close> that answer with an ICMP error differ in the
  headers they contain only.
\<close>

type_synonym Ipv4HeaderCustomSize = "ipv4_header \<times> byte list"
type_synonym Ipv6Header = "byte list"

record ('ip, 't) TriggerPacket =
  tp_ipHeader :: 'ip
  tp_transportHeader :: 't

record ('ip, 't) ResponseIcmp =
  re_ipHeader :: 'ip
  re_icmpHeader :: icmp_header
  re_triggerPacket :: "('ip, 't) TriggerPacket"

record 'ip ResponseTcpToTcp =
  rt_ipHeader :: 'ip
  rt_tcpHeader :: tcp_header

definition createStandardIpHeader :: "ipv4_header \<Rightarrow> Ipv4HeaderCustomSize" where
  "createStandardIpHeader header = (header\<lparr>ip4_ihl := 5, ip4_version := 4\<rparr>, [])"

definition createCustomSizeIpHeader :: "Ipv4HeaderCustomSize \<Rightarrow> Ipv4HeaderCustomSize" where
  "createCustomSizeIpHeader wrapper =
     (case wrapper of (header, padding) \<Rightarrow>
        (header\<lparr>ip4_ihl := of_nat (drop_bit 2 (sizeof_Ipv4Header + length padding)), ip4_version := 4\<rparr>,
         padding))"

text \<open>The assignment to \<open>version\<close>, the high nibble of the first byte.\<close>

fun set_ip6_version :: "Ipv6Header \<Rightarrow> Ipv6Header" where
  "set_ip6_version (b # content) = nibbles (low_nibble b) 6 # content"
| "set_ip6_version [] = []"

text \<open>The bytes of a struct, behind the pointer \<open>reinterpret_cast\<close> gives.\<close>

definition ip4_bytes :: "Ipv4HeaderCustomSize \<Rightarrow> byte list" where
  "ip4_bytes hdr = serialize_ipv4 (fst hdr) @ snd hdr"

definition icmp_bytes :: "('ip \<Rightarrow> byte list) \<Rightarrow> ('t \<Rightarrow> byte list) \<Rightarrow> ('ip, 't) ResponseIcmp \<Rightarrow> byte list" where
  "icmp_bytes ip transport r =
     ip (re_ipHeader r) @ serialize_icmp (re_icmpHeader r)
       @ ip (tp_ipHeader (re_triggerPacket r)) @ transport (tp_transportHeader (re_triggerPacket r))"

definition tcp_bytes :: "('ip \<Rightarrow> byte list) \<Rightarrow> 'ip ResponseTcpToTcp \<Rightarrow> byte list" where
  "tcp_bytes ip r = ip (rt_ipHeader r) @ serialize_tcp (rt_tcpHeader r)"

text \<open>\<open>responseV6ToPtr\<close>: a raw IPv6 socket does not deliver the header.\<close>

definition responseV6ToPtr :: "byte list \<Rightarrow> byte list \<times> u64" where
  "responseV6ToPtr response =
     (drop sizeof_Ipv6Header response, of_nat (length response - sizeof_Ipv6Header))"

section \<open>The fixture\<close>

text \<open>What is indeterminate in the structs of a test, on the outside and in the packet they quote.\<close>

record uninit =
  un_ip4 :: ipv4_header
  un_padding :: "byte list"
  un_ip6 :: Ipv6Header
  un_icmp :: icmp_header
  un_tcp :: tcp_header
  un_udp :: udp_header

record 'w fixture =
  fx_os :: "'w os"
  fx_world :: 'w
  fx_storage :: sockaddr_storage
  fx_outer :: uninit
  fx_quoted :: uninit

definition address :: "'w fixture \<Rightarrow> string \<Rightarrow> exn + SocketAddress" where
  "address fx text = SocketAddress_of_string (sys_resolver (fx_os fx)) (fx_storage fx) text"

text \<open>\<open>validator->isValid\<close>, for the validator the fixture has made from the request.\<close>

fun validator :: "packet \<Rightarrow> IValidateResponse" where
  "validator (IcmpPacket s d h) = isValid_of (IcmpResponseValidator d h)"
| "validator (TcpPacket s d h) = TcpResponseValidator_isValid (TcpResponseValidator_ctor d h)"
| "validator (UdpPacket s d h) = isValid_of (UdpResponseValidator d)"

fun GetIcmpHeader :: "packet \<Rightarrow> icmp_header" where
  "GetIcmpHeader (IcmpPacket s d mIcmpHeader) = mIcmpHeader"

fun getTcpHeader :: "packet \<Rightarrow> tcp_header" where
  "getTcpHeader (TcpPacket s d mTcpHeader) = mTcpHeader"

text \<open>A test between two addresses: the request, and what the body of the test makes of it.\<close>

definition with_request :: "string \<Rightarrow> string \<Rightarrow> 'w fixture
    \<Rightarrow> ('w os \<Rightarrow> SocketAddress \<Rightarrow> SocketAddress \<Rightarrow> ('w, packet) io) \<Rightarrow> (packet \<Rightarrow> exn + bool) \<Rightarrow> exn + bool" where
  "with_request source destination fx create body =
     bindS (address fx source) (\<lambda>requestSource.
     bindS (address fx destination) (\<lambda>requestDestination.
     bindS (fst (create (fx_os fx) requestSource requestDestination (fx_world fx))) body))"

abbreviation (input) "requestV4 \<equiv> with_request ''1.1.1.1'' ''2.2.2.2''"
abbreviation (input) "requestV6 \<equiv> with_request ''aa:bb::1'' ''bb:cc::2''"

definition isValidV4 :: "packet \<Rightarrow> SocketAddress \<Rightarrow> int \<Rightarrow> byte list \<Rightarrow> exn + bool" where
  "isValidV4 request client protocol response =
     validator request (ResponseInfo_ctor client protocol (of_nat (length response))) response"

definition isValidV6 :: "packet \<Rightarrow> SocketAddress \<Rightarrow> int \<Rightarrow> byte list \<Rightarrow> exn + bool" where
  "isValidV6 request client protocol response =
     (let (resp, responseSize) = responseV6ToPtr response
      in validator request (ResponseInfo_ctor client protocol responseSize) resp)"

text \<open>\<open>EXPECT_TRUE\<close> and \<open>EXPECT_FALSE\<close>; an exception fails the test.\<close>

definition expect :: "bool \<Rightarrow> exn + bool \<Rightarrow> bool" where
  "expect expected isValid \<longleftrightarrow> isValid = Inr expected"

text \<open>Response objects before their fields are assigned, and the assignments.\<close>

definition uninit_response ::
    "(uninit \<Rightarrow> 'ip) \<Rightarrow> (uninit \<Rightarrow> 't) \<Rightarrow> 'w fixture \<Rightarrow> ('ip, 't) ResponseIcmp" where
  "uninit_response ip transport fx =
     \<lparr>re_ipHeader = ip (fx_outer fx), re_icmpHeader = un_icmp (fx_outer fx),
      re_triggerPacket = \<lparr>tp_ipHeader = ip (fx_quoted fx), tp_transportHeader = transport (fx_quoted fx)\<rparr>\<rparr>"

definition set_ipHeader :: "'ip \<Rightarrow> ('ip, 't) ResponseIcmp \<Rightarrow> ('ip, 't) ResponseIcmp" where
  "set_ipHeader hdr r = r\<lparr>re_ipHeader := hdr\<rparr>"

definition set_quoted_ipHeader :: "'ip \<Rightarrow> ('ip, 't) ResponseIcmp \<Rightarrow> ('ip, 't) ResponseIcmp" where
  "set_quoted_ipHeader hdr r =
     r\<lparr>re_triggerPacket := (re_triggerPacket r)\<lparr>tp_ipHeader := hdr\<rparr>\<rparr>"

definition set_quoted_version :: "(Ipv6Header, 't) ResponseIcmp \<Rightarrow> (Ipv6Header, 't) ResponseIcmp" where
  "set_quoted_version r =
     set_quoted_ipHeader (set_ip6_version (tp_ipHeader (re_triggerPacket r))) r"

definition set_type :: "u8 \<Rightarrow> ('ip, 't) ResponseIcmp \<Rightarrow> ('ip, 't) ResponseIcmp" where
  "set_type ty r = r\<lparr>re_icmpHeader := (re_icmpHeader r)\<lparr>icmp_type := ty\<rparr>\<rparr>"

definition set_id :: "u16 \<Rightarrow> ('ip, 't) ResponseIcmp \<Rightarrow> ('ip, 't) ResponseIcmp" where
  "set_id n r = r\<lparr>re_icmpHeader := (re_icmpHeader r)\<lparr>icmp_id := n\<rparr>\<rparr>"

definition set_quoted_id :: "u16 \<Rightarrow> ('ip, icmp_header) ResponseIcmp \<Rightarrow> ('ip, icmp_header) ResponseIcmp" where
  "set_quoted_id n r = r\<lparr>re_triggerPacket := (re_triggerPacket r)\<lparr>tp_transportHeader :=
     (tp_transportHeader (re_triggerPacket r))\<lparr>icmp_id := n\<rparr>\<rparr>\<rparr>"

definition set_quoted_seq :: "u32 \<Rightarrow> ('ip, tcp_header) ResponseIcmp \<Rightarrow> ('ip, tcp_header) ResponseIcmp" where
  "set_quoted_seq n r = r\<lparr>re_triggerPacket := (re_triggerPacket r)\<lparr>tp_transportHeader :=
     (tp_transportHeader (re_triggerPacket r))\<lparr>tcp_seq := n\<rparr>\<rparr>\<rparr>"

abbreviation (input) "plain \<equiv> \<lambda>u. (un_ip4 u, [])"
abbreviation (input) "padded \<equiv> \<lambda>u. (un_ip4 u, un_padding u)"
abbreviation (input) "standard \<equiv> \<lambda>u. createStandardIpHeader (un_ip4 u)"
abbreviation (input) "customIhl \<equiv> \<lambda>u. createCustomSizeIpHeader (padded u)"

text \<open>What the constructors of the fixtures for ICMP errors assign.\<close>

definition errorV4 :: "(uninit \<Rightarrow> Ipv4HeaderCustomSize) \<Rightarrow> u8 \<Rightarrow> 'w fixture
    \<Rightarrow> (Ipv4HeaderCustomSize, 't) ResponseIcmp \<Rightarrow> (Ipv4HeaderCustomSize, 't) ResponseIcmp" where
  "errorV4 hdr ty fx response = set_type ty (set_quoted_ipHeader (hdr (fx_quoted fx))
     (set_ipHeader (hdr (fx_outer fx)) response))"

definition errorV6 :: "u8 \<Rightarrow> (Ipv6Header, 't) ResponseIcmp \<Rightarrow> (Ipv6Header, 't) ResponseIcmp" where
  "errorV6 ty response = set_quoted_version (set_type ty response)"

section \<open>Answers to an ICMP echo request\<close>

text \<open>\<open>EchoReplyV4.cpp\<close>. The packet an echo reply quotes is left as it is.\<close>

definition IcmpEchoReplyV4 :: "'w fixture \<Rightarrow> (Ipv4HeaderCustomSize, icmp_header) ResponseIcmp" where
  "IcmpEchoReplyV4 fx = set_type 0 (set_ipHeader (standard (fx_outer fx)) (uninit_response plain un_icmp fx))"

definition EchoReplyV4CustomIhl :: "'w fixture \<Rightarrow> (Ipv4HeaderCustomSize, icmp_header) ResponseIcmp" where
  "EchoReplyV4CustomIhl fx = set_type 0 (set_ipHeader (customIhl (fx_outer fx)) (uninit_response padded un_icmp fx))"

definition EchoReplyV4_tests :: "'w fixture \<Rightarrow> (string \<times> bool) list" where
  "EchoReplyV4_tests fx =
    [(''IcmpEchoReplyV4.SameId_Valid'', expect True (requestV4 fx CreateIcmp4Packet (\<lambda>request.
        isValidV4 request (getDestinationAddress request) IPPROTO_ICMP
        (icmp_bytes ip4_bytes serialize_icmp (set_id (icmp_id (GetIcmpHeader request)) (IcmpEchoReplyV4 fx)))))),
     (''IcmpEchoReplyV4.differentId_Invalid'', expect False (requestV4 fx CreateIcmp4Packet (\<lambda>request.
        isValidV4 request (getDestinationAddress request) IPPROTO_ICMP
        (icmp_bytes ip4_bytes serialize_icmp (set_id (icmp_id (GetIcmpHeader request) - 1) (IcmpEchoReplyV4 fx)))))),
     (''EchoReplyV4CustomIhl.sameId_Valid'', expect True (requestV4 fx CreateIcmp4Packet (\<lambda>request.
        isValidV4 request (getDestinationAddress request) IPPROTO_ICMP
        (icmp_bytes ip4_bytes serialize_icmp (set_id (icmp_id (GetIcmpHeader request)) (EchoReplyV4CustomIhl fx)))))),
     (''EchoReplyV4CustomIhl.differentId_Invalid'', expect False (requestV4 fx CreateIcmp4Packet (\<lambda>request.
        isValidV4 request (getDestinationAddress request) IPPROTO_ICMP
        (icmp_bytes ip4_bytes serialize_icmp (set_id (icmp_id (GetIcmpHeader request) - 1) (EchoReplyV4CustomIhl fx))))))]"

text \<open>\<open>EchoReplyV6.cpp\<close>. The last test assigns the type a second time.\<close>

definition IcmpEchoReplyV6 :: "'w fixture \<Rightarrow> (Ipv6Header, icmp_header) ResponseIcmp" where
  "IcmpEchoReplyV6 fx = errorV6 129 (uninit_response un_ip6 un_icmp fx)"

definition EchoReplyV6_tests :: "'w fixture \<Rightarrow> (string \<times> bool) list" where
  "EchoReplyV6_tests fx =
    [(''IcmpEchoReplyV6.sameIdValid'', expect True (requestV6 fx CreateIcmp6Packet (\<lambda>request.
        isValidV6 request (getDestinationAddress request) IPPROTO_ICMPV6
        (icmp_bytes id serialize_icmp (set_id (icmp_id (GetIcmpHeader request)) (IcmpEchoReplyV6 fx)))))),
     (''IcmpEchoReplyV6.InvalidAddressSameIdInvalid'', expect False (requestV6 fx CreateIcmp6Packet (\<lambda>request.
        bindS (address fx ''6b3e:1b30:4:6043::1011'') (\<lambda>client.
        isValidV6 request client IPPROTO_ICMPV6 (icmp_bytes id serialize_icmp (set_id (icmp_id (GetIcmpHeader request)) (IcmpEchoReplyV6 fx))))))),
     (''IcmpEchoReplyV6.differentIdInvalid'', expect False (requestV6 fx CreateIcmp6Packet (\<lambda>request.
        isValidV6 request (getDestinationAddress request) IPPROTO_ICMPV6
        (icmp_bytes id serialize_icmp (set_type 129 (set_id (icmp_id (GetIcmpHeader request) - 1) (IcmpEchoReplyV6 fx)))))))]"

text \<open>\<open>TimeExceededV4.cpp\<close>.\<close>

definition IcmpTimeExceededV4 :: "'w fixture \<Rightarrow> (Ipv4HeaderCustomSize, icmp_header) ResponseIcmp" where
  "IcmpTimeExceededV4 fx = errorV4 standard 11 fx (uninit_response plain un_icmp fx)"

definition IcmpTimeExceededV4CustomIhl :: "'w fixture \<Rightarrow> (Ipv4HeaderCustomSize, icmp_header) ResponseIcmp" where
  "IcmpTimeExceededV4CustomIhl fx = errorV4 customIhl 11 fx (uninit_response padded un_icmp fx)"

definition TimeExceededV4_tests :: "'w fixture \<Rightarrow> (string \<times> bool) list" where
  "TimeExceededV4_tests fx =
    [(''IcmpTimeExceededV4.sameId_Valid'', expect True (requestV4 fx CreateIcmp4Packet (\<lambda>request.
        isValidV4 request (getDestinationAddress request) IPPROTO_ICMP
        (icmp_bytes ip4_bytes serialize_icmp (set_quoted_id (icmp_id (GetIcmpHeader request)) (IcmpTimeExceededV4 fx)))))),
     (''IcmpTimeExceededV4.differentId_Invalid'', expect False (requestV4 fx CreateIcmp4Packet (\<lambda>request.
        isValidV4 request (getDestinationAddress request) IPPROTO_ICMP
        (icmp_bytes ip4_bytes serialize_icmp (set_quoted_id (icmp_id (GetIcmpHeader request) - 1) (IcmpTimeExceededV4 fx)))))),
     (''IcmpTimeExceededV4CustomIhl.sameId_Valid'', expect True (requestV4 fx CreateIcmp4Packet (\<lambda>request.
        isValidV4 request (getDestinationAddress request) IPPROTO_ICMP
        (icmp_bytes ip4_bytes serialize_icmp (set_quoted_id (icmp_id (GetIcmpHeader request)) (IcmpTimeExceededV4CustomIhl fx)))))),
     (''IcmpTimeExceededV4CustomIhl.differentId_Invalid'', expect False (requestV4 fx CreateIcmp4Packet (\<lambda>request.
        isValidV4 request (getDestinationAddress request) IPPROTO_ICMP
        (icmp_bytes ip4_bytes serialize_icmp (set_quoted_id (icmp_id (GetIcmpHeader request) - 1) (IcmpTimeExceededV4CustomIhl fx))))))]"

text \<open>\<open>TimeExceededV6.cpp\<close>.\<close>

definition IcmpTimeExceededV6 :: "'w fixture \<Rightarrow> (Ipv6Header, icmp_header) ResponseIcmp" where
  "IcmpTimeExceededV6 fx = errorV6 3 (uninit_response un_ip6 un_icmp fx)"

definition TimeExceededV6_tests :: "'w fixture \<Rightarrow> (string \<times> bool) list" where
  "TimeExceededV6_tests fx =
    [(''IcmpTimeExceededV6.sameIdValid'', expect True (requestV6 fx CreateIcmp6Packet (\<lambda>request.
        bindS (address fx ''6b3e:1b30:4:6043::1011'') (\<lambda>client.
        isValidV6 request client IPPROTO_ICMPV6 (icmp_bytes id serialize_icmp (set_quoted_id (icmp_id (GetIcmpHeader request)) (IcmpTimeExceededV6 fx))))))),
     (''IcmpTimeExceededV6.differentIdInvalid'', expect False (requestV6 fx CreateIcmp6Packet (\<lambda>request.
        bindS (address fx ''6b3e:1b30:4:6043::1011'') (\<lambda>client.
        isValidV6 request client IPPROTO_ICMPV6 (icmp_bytes id serialize_icmp (set_quoted_id (icmp_id (GetIcmpHeader request) - 1) (IcmpTimeExceededV6 fx)))))))]"

section \<open>Answers to a UDP datagram\<close>

text \<open>\<open>UdpDestUnreachV4.cpp\<close>. The second fixture quotes a TCP header.\<close>

definition UdpDestUnreachV4 :: "'w fixture \<Rightarrow> (Ipv4HeaderCustomSize, udp_header) ResponseIcmp" where
  "UdpDestUnreachV4 fx = errorV4 standard 3 fx (uninit_response plain un_udp fx)"

definition UdpDestUnreachV4CustomIhl :: "'w fixture \<Rightarrow> (Ipv4HeaderCustomSize, tcp_header) ResponseIcmp" where
  "UdpDestUnreachV4CustomIhl fx = errorV4 customIhl 3 fx (uninit_response padded un_tcp fx)"

definition UdpDestUnreachV4_tests :: "'w fixture \<Rightarrow> (string \<times> bool) list" where
  "UdpDestUnreachV4_tests fx =
    [(''UdpDestUnreachV4.valid'', expect True (requestV4 fx (\<lambda>os source destination. UdpPacket_ctor os source destination 2223) (\<lambda>request.
        isValidV4 request (getDestinationAddress request) IPPROTO_ICMP
        (icmp_bytes ip4_bytes serialize_udp (UdpDestUnreachV4 fx))))),
     (''UdpDestUnreachV4.invalidClient'', expect False (requestV4 fx (\<lambda>os source destination. UdpPacket_ctor os source destination 2223) (\<lambda>request.
        bindS (address fx ''1.1.1.1'') (\<lambda>client.
        isValidV4 request client IPPROTO_ICMP (icmp_bytes ip4_bytes serialize_udp (UdpDestUnreachV4 fx)))))),
     (''UdpDestUnreachV4CustomIhl.valid'', expect True (requestV4 fx (\<lambda>os source destination. UdpPacket_ctor os source destination 2223) (\<lambda>request.
        isValidV4 request (getDestinationAddress request) IPPROTO_ICMP
        (icmp_bytes ip4_bytes serialize_tcp (UdpDestUnreachV4CustomIhl fx))))),
     (''UdpDestUnreachV4CustomIhl.invalidClient'', expect False (requestV4 fx (\<lambda>os source destination. UdpPacket_ctor os source destination 2223) (\<lambda>request.
        bindS (address fx ''1.1.1.1'') (\<lambda>client.
        isValidV4 request client IPPROTO_ICMP (icmp_bytes ip4_bytes serialize_tcp (UdpDestUnreachV4CustomIhl fx))))))]"

text \<open>\<open>UdpDestUnreachV6.cpp\<close>. The fixture quotes a TCP header.\<close>

definition UdpDestUnreachV6 :: "'w fixture \<Rightarrow> (Ipv6Header, tcp_header) ResponseIcmp" where
  "UdpDestUnreachV6 fx = errorV6 1 (uninit_response un_ip6 un_tcp fx)"

definition UdpDestUnreachV6_tests :: "'w fixture \<Rightarrow> (string \<times> bool) list" where
  "UdpDestUnreachV6_tests fx =
    [(''UdpDestUnreachV6.valid'', expect True (requestV6 fx (\<lambda>os source destination. UdpPacket_ctor os source destination 1234) (\<lambda>request.
        isValidV6 request (getDestinationAddress request) IPPROTO_ICMPV6
        (icmp_bytes id serialize_tcp (UdpDestUnreachV6 fx))))),
     (''UdpDestUnreachV6.invalidClient'', expect False (requestV6 fx (\<lambda>os source destination. UdpPacket_ctor os source destination 1234) (\<lambda>request.
        bindS (address fx ''a:b:c::1'') (\<lambda>client.
        isValidV6 request client IPPROTO_ICMPV6 (icmp_bytes id serialize_tcp (UdpDestUnreachV6 fx))))))]"

text \<open>\<open>UdpTimeExceededV4.cpp\<close>.\<close>

definition UdpTimeExceededV4 :: "'w fixture \<Rightarrow> (Ipv4HeaderCustomSize, udp_header) ResponseIcmp" where
  "UdpTimeExceededV4 fx = errorV4 standard 11 fx (uninit_response plain un_udp fx)"

definition UdpTimeExceededV4CustomIhl :: "'w fixture \<Rightarrow> (Ipv4HeaderCustomSize, udp_header) ResponseIcmp" where
  "UdpTimeExceededV4CustomIhl fx = errorV4 customIhl 11 fx (uninit_response padded un_udp fx)"

definition UdpTimeExceededV4_tests :: "'w fixture \<Rightarrow> (string \<times> bool) list" where
  "UdpTimeExceededV4_tests fx =
    [(''UdpTimeExceededV4.valid'', expect True (requestV4 fx (\<lambda>os source destination. UdpPacket_ctor os source destination 80) (\<lambda>request.
        bindS (address fx ''23.42.42.42'') (\<lambda>client.
        isValidV4 request client IPPROTO_ICMP (icmp_bytes ip4_bytes serialize_udp (UdpTimeExceededV4 fx)))))),
     (''UdpTimeExceededV4CustomIhl.valid'', expect True (requestV4 fx (\<lambda>os source destination. UdpPacket_ctor os source destination 80) (\<lambda>request.
        bindS (address fx ''23.42.42.42'') (\<lambda>client.
        isValidV4 request client IPPROTO_ICMP (icmp_bytes ip4_bytes serialize_udp (UdpTimeExceededV4CustomIhl fx))))))]"

text \<open>\<open>UdpTimeExceededV6.cpp\<close>.\<close>

definition UdpTimeExceededV6 :: "'w fixture \<Rightarrow> (Ipv6Header, udp_header) ResponseIcmp" where
  "UdpTimeExceededV6 fx = errorV6 3 (uninit_response un_ip6 un_udp fx)"

definition UdpTimeExceededV6_tests :: "'w fixture \<Rightarrow> (string \<times> bool) list" where
  "UdpTimeExceededV6_tests fx =
    [(''UdpTimeExceededV6.valid'', expect True (requestV6 fx (\<lambda>os source destination. UdpPacket_ctor os source destination 80) (\<lambda>request.
        bindS (address fx ''1:1:1::5'') (\<lambda>client.
        isValidV6 request client IPPROTO_ICMPV6 (icmp_bytes id serialize_udp (UdpTimeExceededV6 fx))))))]"

section \<open>Answers to a TCP segment\<close>

definition getValidReponseAckSeq :: "tcp_header \<Rightarrow> u32" where
  "getValidReponseAckSeq requestN = htonl (ntohl (tcp_seq requestN) + 1)"

definition set_ack_seq :: "u32 \<Rightarrow> 'ip ResponseTcpToTcp \<Rightarrow> 'ip ResponseTcpToTcp" where
  "set_ack_seq n r = r\<lparr>rt_tcpHeader := (rt_tcpHeader r)\<lparr>tcp_ack_seq := n\<rparr>\<rparr>"

text \<open>\<open>TcpAckV4.cpp\<close>.\<close>

definition TcpAckV4 :: "'w fixture \<Rightarrow> Ipv4HeaderCustomSize ResponseTcpToTcp" where
  "TcpAckV4 fx = \<lparr>rt_ipHeader = standard (fx_outer fx), rt_tcpHeader = un_tcp (fx_outer fx)\<rparr>"

definition TcpAckV4CustomIhl :: "'w fixture \<Rightarrow> Ipv4HeaderCustomSize ResponseTcpToTcp" where
  "TcpAckV4CustomIhl fx = \<lparr>rt_ipHeader = customIhl (fx_outer fx), rt_tcpHeader = un_tcp (fx_outer fx)\<rparr>"

definition TcpAckV4_tests :: "'w fixture \<Rightarrow> (string \<times> bool) list" where
  "TcpAckV4_tests fx =
    [(''TcpAckV4.sameAckSeq_Valid'', expect True (requestV4 fx (\<lambda>os source destination. TcpPacket_ctor os source destination 80) (\<lambda>request.
        isValidV4 request (getDestinationAddress request) IPPROTO_TCP
        (tcp_bytes ip4_bytes (set_ack_seq (getValidReponseAckSeq (getTcpHeader request)) (TcpAckV4 fx)))))),
     (''TcpAckV4.differenAckSeq_Invalid'', expect False (requestV4 fx (\<lambda>os source destination. TcpPacket_ctor os source destination 80) (\<lambda>request.
        isValidV4 request (getDestinationAddress request) IPPROTO_TCP
        (tcp_bytes ip4_bytes (set_ack_seq 0 (TcpAckV4 fx)))))),
     (''TcpAckV4.differentClient_Invalid'', expect False (requestV4 fx (\<lambda>os source destination. TcpPacket_ctor os source destination 80) (\<lambda>request.
        bindS (address fx ''1.1.1.1'') (\<lambda>client.
        isValidV4 request client IPPROTO_TCP (tcp_bytes ip4_bytes (set_ack_seq (getValidReponseAckSeq (getTcpHeader request)) (TcpAckV4 fx))))))),
     (''TcpAckV4CustomIhl.sameAckSeq_Valid'', expect True (requestV4 fx (\<lambda>os source destination. TcpPacket_ctor os source destination 80) (\<lambda>request.
        isValidV4 request (getDestinationAddress request) IPPROTO_TCP
        (tcp_bytes ip4_bytes (set_ack_seq (getValidReponseAckSeq (getTcpHeader request)) (TcpAckV4CustomIhl fx)))))),
     (''TcpAckV4CustomIhl.differenAcktSeq_Invalid'', expect False (requestV4 fx (\<lambda>os source destination. TcpPacket_ctor os source destination 80) (\<lambda>request.
        isValidV4 request (getDestinationAddress request) IPPROTO_TCP
        (tcp_bytes ip4_bytes (set_ack_seq 0 (TcpAckV4CustomIhl fx))))))]"

text \<open>\<open>TcpAckV6.cpp\<close>. The version is that of the header the socket does not deliver.\<close>

definition TcpAckV6 :: "'w fixture \<Rightarrow> Ipv6Header ResponseTcpToTcp" where
  "TcpAckV6 fx = \<lparr>rt_ipHeader = set_ip6_version (un_ip6 (fx_outer fx)), rt_tcpHeader = un_tcp (fx_outer fx)\<rparr>"

definition TcpAckV6_tests :: "'w fixture \<Rightarrow> (string \<times> bool) list" where
  "TcpAckV6_tests fx =
    [(''TcpAckV6.valid'', expect True (requestV6 fx (\<lambda>os source destination. TcpPacket_ctor os source destination 80) (\<lambda>request.
        isValidV6 request (getDestinationAddress request) IPPROTO_TCP
        (tcp_bytes id (set_ack_seq (getValidReponseAckSeq (getTcpHeader request)) (TcpAckV6 fx)))))),
     (''TcpAckV6.invalidAckSeq'', expect False (requestV6 fx (\<lambda>os source destination. TcpPacket_ctor os source destination 80) (\<lambda>request.
        isValidV6 request (getDestinationAddress request) IPPROTO_TCP
        (tcp_bytes id (set_ack_seq 0 (TcpAckV6 fx)))))),
     (''TcpAckV6.invalidClient'', expect False (requestV6 fx (\<lambda>os source destination. TcpPacket_ctor os source destination 80) (\<lambda>request.
        bindS (address fx ''::1'') (\<lambda>client.
        isValidV6 request client IPPROTO_TCP (tcp_bytes id (set_ack_seq (getValidReponseAckSeq (getTcpHeader request)) (TcpAckV6 fx)))))))]"

text \<open>\<open>TcpDestUnreachV4.cpp\<close>.\<close>

definition TcpDestUnreachV4 :: "'w fixture \<Rightarrow> (Ipv4HeaderCustomSize, tcp_header) ResponseIcmp" where
  "TcpDestUnreachV4 fx = errorV4 standard 3 fx (uninit_response plain un_tcp fx)"

definition TcpDestUnreachV4CustomIhl :: "'w fixture \<Rightarrow> (Ipv4HeaderCustomSize, tcp_header) ResponseIcmp" where
  "TcpDestUnreachV4CustomIhl fx = errorV4 customIhl 3 fx (uninit_response padded un_tcp fx)"

definition TcpDestUnreachV4_tests :: "'w fixture \<Rightarrow> (string \<times> bool) list" where
  "TcpDestUnreachV4_tests fx =
    [(''TcpDestUnreachV4.valid'', expect True (requestV4 fx (\<lambda>os source destination. TcpPacket_ctor os source destination 80) (\<lambda>request.
        isValidV4 request (getDestinationAddress request) IPPROTO_ICMP
        (icmp_bytes ip4_bytes serialize_tcp (set_quoted_seq (tcp_seq (getTcpHeader request)) (TcpDestUnreachV4 fx)))))),
     (''TcpDestUnreachV4.invalidClient_invalid'', expect False (requestV4 fx (\<lambda>os source destination. TcpPacket_ctor os source destination 80) (\<lambda>request.
        bindS (address fx ''1.1.1.1'') (\<lambda>client.
        isValidV4 request client IPPROTO_ICMP (icmp_bytes ip4_bytes serialize_tcp (set_quoted_seq (tcp_seq (getTcpHeader request)) (TcpDestUnreachV4 fx))))))),
     (''TcpDestUnreachV4CustomIhl.valid'', expect True (requestV4 fx (\<lambda>os source destination. TcpPacket_ctor os source destination 80) (\<lambda>request.
        isValidV4 request (getDestinationAddress request) IPPROTO_ICMP
        (icmp_bytes ip4_bytes serialize_tcp (set_quoted_seq (tcp_seq (getTcpHeader request)) (TcpDestUnreachV4CustomIhl fx)))))),
     (''TcpDestUnreachV4CustomIhl.invalidClient_invalid'', expect False (requestV4 fx (\<lambda>os source destination. TcpPacket_ctor os source destination 80) (\<lambda>request.
        bindS (address fx ''1.1.1.1'') (\<lambda>client.
        isValidV4 request client IPPROTO_ICMP (icmp_bytes ip4_bytes serialize_tcp (set_quoted_seq (tcp_seq (getTcpHeader request)) (TcpDestUnreachV4CustomIhl fx)))))))]"

text \<open>\<open>TcpDestUnreachV6.cpp\<close>.\<close>

definition TcpDestUnreachV6 :: "'w fixture \<Rightarrow> (Ipv6Header, tcp_header) ResponseIcmp" where
  "TcpDestUnreachV6 fx = errorV6 1 (uninit_response un_ip6 un_tcp fx)"

definition TcpDestUnreachV6_tests :: "'w fixture \<Rightarrow> (string \<times> bool) list" where
  "TcpDestUnreachV6_tests fx =
    [(''TcpDestUnreachV6.valid'', expect True (requestV6 fx (\<lambda>os source destination. TcpPacket_ctor os source destination 80) (\<lambda>request.
        isValidV6 request (getDestinationAddress request) IPPROTO_ICMPV6
        (icmp_bytes id serialize_tcp (set_quoted_seq (tcp_seq (getTcpHeader request)) (TcpDestUnreachV6 fx)))))),
     (''TcpDestUnreachV6.invalidClient'', expect False (requestV6 fx (\<lambda>os source destination. TcpPacket_ctor os source destination 80) (\<lambda>request.
        bindS (address fx ''a:b:c::1'') (\<lambda>client.
        isValidV6 request client IPPROTO_ICMPV6 (icmp_bytes id serialize_tcp (set_quoted_seq (tcp_seq (getTcpHeader request)) (TcpDestUnreachV6 fx))))))),
     (''TcpDestUnreachV6.invalidSeq'', expect False (requestV6 fx (\<lambda>os source destination. TcpPacket_ctor os source destination 80) (\<lambda>request.
        isValidV6 request (getDestinationAddress request) IPPROTO_ICMPV6
        (icmp_bytes id serialize_tcp (set_quoted_seq 0 (TcpDestUnreachV6 fx))))))]"

text \<open>\<open>TcpTimeExceededV4.cpp\<close>.\<close>

definition TcpTimeExceededV4 :: "'w fixture \<Rightarrow> (Ipv4HeaderCustomSize, tcp_header) ResponseIcmp" where
  "TcpTimeExceededV4 fx = errorV4 standard 11 fx (uninit_response plain un_tcp fx)"

definition TcpTimeExceededV4CustomIhl :: "'w fixture \<Rightarrow> (Ipv4HeaderCustomSize, tcp_header) ResponseIcmp" where
  "TcpTimeExceededV4CustomIhl fx = errorV4 customIhl 11 fx (uninit_response padded un_tcp fx)"

definition TcpTimeExceededV4_tests :: "'w fixture \<Rightarrow> (string \<times> bool) list" where
  "TcpTimeExceededV4_tests fx =
    [(''TcpTimeExceededV4.sameSeq_Valid'', expect True (requestV4 fx (\<lambda>os source destination. TcpPacket_ctor os source destination 80) (\<lambda>request.
        bindS (address fx ''23.42.42.42'') (\<lambda>client.
        isValidV4 request client IPPROTO_ICMP (icmp_bytes ip4_bytes serialize_tcp (set_quoted_seq (tcp_seq (getTcpHeader request)) (TcpTimeExceededV4 fx))))))),
     (''TcpTimeExceededV4.differentSeq_Invalid'', expect False (requestV4 fx (\<lambda>os source destination. TcpPacket_ctor os source destination 80) (\<lambda>request.
        bindS (address fx ''23.42.42.42'') (\<lambda>client.
        isValidV4 request client IPPROTO_ICMP (icmp_bytes ip4_bytes serialize_tcp (set_quoted_seq (tcp_seq (getTcpHeader request) - 1) (TcpTimeExceededV4 fx))))))),
     (''TcpTimeExceededV4CustomIhl.sameId_Valid'', expect True (requestV4 fx (\<lambda>os source destination. TcpPacket_ctor os source destination 80) (\<lambda>request.
        bindS (address fx ''23.42.42.42'') (\<lambda>client.
        isValidV4 request client IPPROTO_ICMP (icmp_bytes ip4_bytes serialize_tcp (set_quoted_seq (tcp_seq (getTcpHeader request)) (TcpTimeExceededV4CustomIhl fx))))))),
     (''TcpTimeExceededV4CustomIhl.differentId_Invalid'', expect False (requestV4 fx (\<lambda>os source destination. TcpPacket_ctor os source destination 80) (\<lambda>request.
        bindS (address fx ''23.42.42.42'') (\<lambda>client.
        isValidV4 request client IPPROTO_ICMP (icmp_bytes ip4_bytes serialize_tcp (set_quoted_seq (tcp_seq (getTcpHeader request) - 1) (TcpTimeExceededV4CustomIhl fx)))))))]"

text \<open>\<open>TcpTimeExceededV6.cpp\<close>.\<close>

definition TcpTimeExceededV6 :: "'w fixture \<Rightarrow> (Ipv6Header, tcp_header) ResponseIcmp" where
  "TcpTimeExceededV6 fx = errorV6 3 (uninit_response un_ip6 un_tcp fx)"

definition TcpTimeExceededV6_tests :: "'w fixture \<Rightarrow> (string \<times> bool) list" where
  "TcpTimeExceededV6_tests fx =
    [(''TcpTimeExceededV6.valid'', expect True (requestV6 fx (\<lambda>os source destination. TcpPacket_ctor os source destination 80) (\<lambda>request.
        bindS (address fx ''1:1:1::5'') (\<lambda>client.
        isValidV6 request client IPPROTO_ICMPV6 (icmp_bytes id serialize_tcp (set_quoted_seq (tcp_seq (getTcpHeader request)) (TcpTimeExceededV6 fx))))))),
     (''TcpTimeExceededV6.invalidSeq'', expect False (requestV6 fx (\<lambda>os source destination. TcpPacket_ctor os source destination 80) (\<lambda>request.
        bindS (address fx ''1:1:1::5'') (\<lambda>client.
        isValidV6 request client IPPROTO_ICMPV6 (icmp_bytes id serialize_tcp (set_quoted_seq (tcp_seq (getTcpHeader request) - 1) (TcpTimeExceededV6 fx)))))))]"

section \<open>Addresses\<close>

text \<open>
  \<open>SocketAddressTests.cpp\<close>. The tests of equality construct two addresses and compare their texts.
\<close>

definition test_address :: "'w fixture \<Rightarrow> string \<Rightarrow> (SocketAddress \<Rightarrow> bool) \<Rightarrow> bool" where
  "test_address fx text that = (case address fx text of Inr socketAddress \<Rightarrow> that socketAddress | Inl e \<Rightarrow> False)"

definition SocketAddress_tests :: "'w fixture \<Rightarrow> (string \<times> bool) list" where
  "SocketAddress_tests fx =
    [(''SocketAddressTestV4.isRecognizedAsIPv4'', test_address fx ''1.1.1.1'' isV4),
     (''SocketAddressTestV4.familyIsAF_INET'', test_address fx ''1.1.1.1'' (\<lambda>a. family a = AF_INET)),
     (''SocketAddressTestV4.addressesAreEqual'', test_address fx ''192.168.0.1'' (\<lambda>a.
        test_address fx ''192.168.0.1'' (\<lambda>b. ''192.168.0.1'' = ''192.168.0.1''))),
     (''SocketAddressTestV4.addresesAreNotEqual'', test_address fx ''192.168.0.1'' (\<lambda>a.
        test_address fx ''192.168.0.0'' (\<lambda>b. ''192.168.0.1'' \<noteq> ''192.168.0.0''))),
     (''SocketAddressTestV6.familyIsAF_INET6'',
        test_address fx ''2001:0db8:0000:0000:0000:0000:1428:57ab'' (\<lambda>a. family a = AF_INET6)),
     (''SocketAddressTestV6.addressesAreEqual'',
        test_address fx ''2001:0db8:0000:0000:0000:0000:1428:57ab'' (\<lambda>a.
        test_address fx ''2001:0db8:0000:0000:0000:0000:1428:57ab'' (\<lambda>b.
          ''2001:0db8:0000:0000:0000:0000:1428:57ab'' = ''2001:0db8:0000:0000:0000:0000:1428:57ab''))),
     (''SocketAddressTestV6.addresesAreNotEqual'',
        test_address fx ''2001:0db8:0000:0000:0000:0000:1428:57ab'' (\<lambda>a.
        test_address fx ''FFFF:0db8:0000:0000:0000:0000:1428:57ab'' (\<lambda>b.
          ''2001:0db8:0000:0000:0000:0000:1428:57ab'' \<noteq> ''FFFF:0db8:0000:0000:0000:0000:1428:57ab''))),
     (''SocketAddressTestV6.isRecognizedAsIPv6'',
        test_address fx ''2001:0db8:0000:0000:0000:0000:1428:57ab'' isV6)]"

section \<open>The addresses of the tests\<close>

text \<open>
  What the tests rely on: the C library reads the addresses they name (in network byte order, as
  \<open>inet_pton\<close> stores them).
\<close>

definition v4_literals :: "(string \<times> u32) list" where
  "v4_literals = [(''1.1.1.1'', 0x01010101), (''2.2.2.2'', 0x02020202), (''23.42.42.42'', 0x2A2A2A17),
     (''192.168.0.1'', 0x0100A8C0), (''192.168.0.0'', 0x0000A8C0)]"

definition v6_literals :: "(string \<times> u32 \<times> u32 \<times> u32 \<times> u32) list" where
  "v6_literals = [(''aa:bb::1'', 0xBB00AA00, 0, 0, 0x01000000), (''bb:cc::2'', 0xCC00BB00, 0, 0, 0x02000000),
     (''6b3e:1b30:4:6043::1011'', 0x301B3E6B, 0x43600400, 0, 0x11100000),
     (''a:b:c::1'', 0x0B000A00, 0x00000C00, 0, 0x01000000), (''1:1:1::5'', 0x01000100, 0x00000100, 0, 0x05000000),
     (''::1'', 0, 0, 0, 0x01000000),
     (''2001:0db8:0000:0000:0000:0000:1428:57ab'', 0xB80D0120, 0, 0, 0xAB572814),
     (''FFFF:0db8:0000:0000:0000:0000:1428:57ab'', 0xB80DFFFF, 0, 0, 0xAB572814)]"

definition reads_literals :: "resolver \<Rightarrow> bool" where
  "reads_literals R \<longleftrightarrow>
     list_all (\<lambda>(text, x). getaddrinfo R text = (0, AF_INET) \<and> inet_pton4 R text = (1, x)) v4_literals
   \<and> list_all (\<lambda>(text, x). getaddrinfo R text = (0, AF_INET6) \<and> inet_pton6 R text = (1, x)) v6_literals"

definition addr4 :: "'w fixture \<Rightarrow> u32 \<Rightarrow> SocketAddress" where
  "addr4 fx x = (fx_storage fx)\<lparr>ss_family := 2, ss_word4 := x, ss_port := 0\<rparr>"

definition addr6 :: "'w fixture \<Rightarrow> u32 \<times> u32 \<times> u32 \<times> u32 \<Rightarrow> SocketAddress" where
  "addr6 fx x = (case x of (a, b, c, d) \<Rightarrow> (fx_storage fx)\<lparr>ss_family := 10, ss_word8 := a, ss_word12 := b,
     ss_word16 := c, ss_word20 := d, ss_port := 0\<rparr>)"

lemma test_addresses [simp]:
  "family (addr4 fx x) = AF_INET" "family (addr6 fx y) = AF_INET6"
  "isV4 (addr4 fx x)" "\<not> isV4 (addr6 fx y)" "isV6 (addr6 fx y)"
  "addr_eq (addr4 fx x) (addr4 fx x') \<longleftrightarrow> x = x'" "addr_eq (addr6 fx y) (addr6 fx y') \<longleftrightarrow> y = y'"
  by (auto simp: addr4_def addr6_def family_def isV4_def isV6_def addr_eq_def s_addr_def u6_addr32_def
      split: prod.splits)

lemma address_v4:
  "reads_literals (sys_resolver (fx_os fx)) \<Longrightarrow> (text, x) \<in> set v4_literals \<Longrightarrow> address fx text = Inr (addr4 fx x)"
  by (auto simp: reads_literals_def list_all_iff address_def SocketAddress_of_string_def addr4_def)

lemma address_v6:
  "reads_literals (sys_resolver (fx_os fx)) \<Longrightarrow> (text, x) \<in> set v6_literals \<Longrightarrow> address fx text = Inr (addr6 fx x)"
  by (cases x) (auto simp: reads_literals_def list_all_iff address_def SocketAddress_of_string_def addr6_def)

lemma addresses:
  assumes "reads_literals (sys_resolver (fx_os fx))"
  shows "address fx ''1.1.1.1'' = Inr (addr4 fx 0x01010101)" "address fx ''2.2.2.2'' = Inr (addr4 fx 0x02020202)"
    "address fx ''23.42.42.42'' = Inr (addr4 fx 0x2A2A2A17)"
    "address fx ''192.168.0.1'' = Inr (addr4 fx 0x0100A8C0)" "address fx ''192.168.0.0'' = Inr (addr4 fx 0x0000A8C0)"
    "address fx ''aa:bb::1'' = Inr (addr6 fx (0xBB00AA00, 0, 0, 0x01000000))"
    "address fx ''bb:cc::2'' = Inr (addr6 fx (0xCC00BB00, 0, 0, 0x02000000))"
    "address fx ''6b3e:1b30:4:6043::1011'' = Inr (addr6 fx (0x301B3E6B, 0x43600400, 0, 0x11100000))"
    "address fx ''a:b:c::1'' = Inr (addr6 fx (0x0B000A00, 0x00000C00, 0, 0x01000000))"
    "address fx ''1:1:1::5'' = Inr (addr6 fx (0x01000100, 0x00000100, 0, 0x05000000))"
    "address fx ''::1'' = Inr (addr6 fx (0, 0, 0, 0x01000000))"
    "address fx ''2001:0db8:0000:0000:0000:0000:1428:57ab'' = Inr (addr6 fx (0xB80D0120, 0, 0, 0xAB572814))"
    "address fx ''FFFF:0db8:0000:0000:0000:0000:1428:57ab'' = Inr (addr6 fx (0xB80DFFFF, 0, 0, 0xAB572814))"
  by ((rule address_v4 [OF assms] address_v6 [OF assms], simp add: v4_literals_def v6_literals_def)+)

section \<open>Verdicts on structs\<close>

lemma validator [simp]: "validator p = packet_isValid p"
  by (cases p) (simp_all add: packet_isValid.simps IcmpPacket_isValid_def TcpPacket_isValid_def UdpPacket_isValid_def)

definition over_ip4 :: "Ipv4HeaderCustomSize \<Rightarrow> envelope" where
  "over_ip4 hdr = Over4 (fst hdr) (snd hdr)"

definition hdr_ok :: "Ipv4HeaderCustomSize \<Rightarrow> bool" where
  "hdr_ok hdr \<longleftrightarrow> ip4_ok (fst hdr) (snd hdr)"

lemma over_ip4_simps [simp]: "over4 (over_ip4 hdr)" "envelope_ok (over_ip4 hdr) \<longleftrightarrow> hdr_ok hdr"
  by (simp_all add: over_ip4_def hdr_ok_def)

lemma isValidV4_verdict:
  "isValidV4 p client protocol (ip4_bytes hdr @ payload)
     = verdict p client (over_ip4 hdr) protocol payload []"
  by (simp add: isValidV4_def verdict_def received_def ip4_bytes_def ip4_datagram_def over_ip4_def
      del: packet_isValid_cases of_nat_add)

lemma isValidV6_verdict:
  "length hdr = 40 \<Longrightarrow>
     isValidV6 p client protocol (hdr @ payload) = verdict p client Over6 protocol payload []"
  by (simp add: isValidV6_def responseV6ToPtr_def verdict_def received_def del: packet_isValid_cases of_nat_add)

lemma quotable_ip4: "hdr_ok hdr \<Longrightarrow> quotable (over_ip4 h) (ip4_bytes hdr)"
  by (auto simp: quotable_def ip4_bytes_def ip4_datagram_def hdr_ok_def)

text \<open>The headers the tests build.\<close>

lemma length_ip4_bytes [simp]: "length (ip4_bytes hdr) = 20 + length (snd hdr)"
  by (simp add: ip4_bytes_def)

lemma standard_ok [simp]:
  "hdr_ok (createStandardIpHeader h)" "snd (createStandardIpHeader h) = []"
  by (simp_all add: createStandardIpHeader_def ip4_ok_def hdr_ok_def)

lemma customIhl_ok:
  "length (snd hdr) = 12 \<Longrightarrow> hdr_ok (createCustomSizeIpHeader hdr)"
  "snd (createCustomSizeIpHeader hdr) = snd hdr"
  by (auto simp: createCustomSizeIpHeader_def ip4_ok_def hdr_ok_def drop_bit_eq_div split: prod.splits)

lemma set_ip6_version_ok:
  "length hdr = 40 \<Longrightarrow> ip6_ok (set_ip6_version hdr)" "length (set_ip6_version hdr) = length hdr"
  by (cases hdr; simp add: ip6_ok_def)+

lemmas field_defs = set_type_def set_id_def set_quoted_id_def set_quoted_seq_def set_ipHeader_def
  set_quoted_ipHeader_def set_quoted_version_def errorV4_def errorV6_def uninit_response_def set_ack_seq_def

lemma verdict_echo_reply4:
  assumes "hdr_ok hdr" "icmp_type e = 0" "length payload \<le> 50000"
  shows "verdict (IcmpPacket s d h) client (over_ip4 hdr) IPPROTO_ICMP (serialize_icmp e @ payload) []
    = Inr (addr_eq client d \<and> icmp_id e = icmp_id h)"
  using echo_reply_v4 [OF assms [unfolded hdr_ok_def], of s d h client "[]"]
  by (simp add: verdict_def over_ip4_def del: packet_isValid_cases)

lemma verdict_echo_reply6:
  assumes "icmp_type e = 129" "length payload \<le> 50000"
  shows "verdict (IcmpPacket s d h) client Over6 IPPROTO_ICMPV6 (serialize_icmp e @ payload) []
    = Inr (addr_eq client d \<and> icmp_id e = icmp_id h)"
  using echo_reply_v6 [OF assms, of s d h client "[]"] by (simp add: verdict_def del: packet_isValid_cases)

lemma verdict_echo4:
  assumes "hdr_ok hdr" "hdr_ok q" "icmp_type e = 11"
  shows "verdict (IcmpPacket s d h) client (over_ip4 hdr) IPPROTO_ICMP
      (serialize_icmp e @ ip4_bytes q @ serialize_icmp t) [] = Inr (icmp_id t = icmp_id h)"
  using quoted_echo [of "over_ip4 hdr" "ip4_bytes q" e s d h client t "[]"] assms
  by (simp add: quotable_ip4 icmp_protocol_def)

lemma verdict_echo6:
  assumes "ip6_ok q" "icmp_type e = 3"
  shows "verdict (IcmpPacket s d h) client Over6 IPPROTO_ICMPV6
      (serialize_icmp e @ q @ serialize_icmp t) [] = Inr (icmp_id t = icmp_id h)"
  using quoted_echo [of Over6 q e s d h client t "[]"] assms by (simp add: quotable_def icmp_protocol_def)

lemma verdict_tcp4:
  assumes "hdr_ok hdr" "hdr_ok q" "isV4 client"
  shows "verdict (TcpPacket s d h) client (over_ip4 hdr) IPPROTO_ICMP
      (serialize_icmp e @ ip4_bytes q @ serialize_tcp t) []
    = Inr (tcp_seq t = tcp_seq h \<and> (uint (icmp_type e) = ICMP_TIME_EXCEEDED
        \<or> uint (icmp_type e) = ICMP_DEST_UNREACH \<and> addr_eq client d))"
  using quoted_tcp [of "over_ip4 hdr" "ip4_bytes q" client 20 e s d h t "[]"] assms
  by (simp add: quotable_ip4 icmp_protocol_def time_exceeded_def dest_unreach_def)

lemma verdict_tcp6:
  assumes "ip6_ok q" "\<not> isV4 client" "icmp_type e \<in> {1, 3}"
  shows "verdict (TcpPacket s d h) client Over6 IPPROTO_ICMPV6 (serialize_icmp e @ q @ serialize_tcp t) []
    = Inr (tcp_seq t = tcp_seq h \<and> (uint (icmp_type e) = ICMP6_TIME_EXCEEDED
        \<or> uint (icmp_type e) = ICMP6_DST_UNREACH \<and> addr_eq client d))"
  using quoted_tcp [of Over6 q client 20 e s d h t "[]"] assms
  by (simp add: quotable_def icmp_protocol_def time_exceeded_def dest_unreach_def)

lemma verdict_udp4:
  assumes "hdr_ok hdr" "isV4 client" "8 \<le> length rest" "length rest \<le> 50000"
  shows "verdict (UdpPacket s d h) client (over_ip4 hdr) IPPROTO_ICMP (serialize_icmp e @ rest) []
    = Inr (uint (icmp_type e) = (if addr_eq d client then ICMP_DEST_UNREACH else ICMP_TIME_EXCEEDED))"
  using quoted_udp [of "over_ip4 hdr" client rest e s d h "[]"] assms
  by (simp add: icmp_protocol_def time_exceeded_def dest_unreach_def)

lemma verdict_udp6:
  assumes "\<not> isV4 client" "8 \<le> length rest" "length rest \<le> 50000" "icmp_type e \<in> {1, 3}"
  shows "verdict (UdpPacket s d h) client Over6 IPPROTO_ICMPV6 (serialize_icmp e @ rest) []
    = Inr (uint (icmp_type e) = (if addr_eq d client then ICMP6_DST_UNREACH else ICMP6_TIME_EXCEEDED))"
  using quoted_udp [of Over6 client rest e s d h "[]"] assms
  by (simp add: icmp_protocol_def time_exceeded_def dest_unreach_def)

lemma verdict_ack4:
  assumes "hdr_ok hdr"
  shows "verdict (TcpPacket s d h) client (over_ip4 hdr) IPPROTO_TCP (serialize_tcp t) []
    = Inr (addr_eq d client \<and> ntohl (tcp_ack_seq t) = ntohl (tcp_seq h) + 1)"
  using tcp_answer_v4 [OF assms [unfolded hdr_ok_def], of "[]" s d h client t "[]"]
  by (simp add: verdict_def over_ip4_def del: packet_isValid_cases)

text \<open>
  From a port that begins with 6 the forty bytes of an IPv6 header are skipped: the acknowledgement
  number is read behind the end of the struct.
\<close>

lemma verdict_ack6:
  assumes "port_nibble t \<noteq> 4"
  shows "verdict (TcpPacket s d h) client Over6 IPPROTO_TCP (serialize_tcp t) []
    = (if port_nibble t = 6 then if addr_eq d client then Inl Fault else Inr False
       else Inr (addr_eq d client \<and> ntohl (tcp_ack_seq t) = ntohl (tcp_seq h) + 1))"
proof (cases "port_nibble t = 6")
  case True
  let ?buf = "serialize_tcp t"
  have v: "ip_version_at ?buf = Inr 6" using tcp_version_nibble [of t "[]"] True by simp
  then have hs: "getIpHeaderSize ?buf = Inr 40" by (simp add: getIpHeaderSize_def)
  have dr: "drop 40 ?buf = []" by simp
  have "TcpToTcp_validateFields d h info [] = (if addr_eq d (ri_client info) then Inl Fault else Inr False)" for info
    by (simp add: TcpToTcp_validateFields_def tcp_ack_seq_at_def load32_def)
  moreover have "TcpToTcp_validateSize (20 - 40)"
    by code_simp
  ultimately show ?thesis
    using True hs v dr
    by (simp add: verdict_def isValid_behind_header [where v = 6 and n = 40] TcpToTcp_validateProtocol_def)
next
  case False
  then show ?thesis
    using tcp_answer_v6 [of t "[]" s d h client "[]"] assms by (simp add: verdict_def del: packet_isValid_cases)
qed

lemmas verdicts = isValidV4_verdict isValidV6_verdict verdict_echo_reply4 verdict_echo_reply6 verdict_echo4
  verdict_echo6 verdict_tcp4 verdict_tcp6 verdict_udp4 verdict_udp6 verdict_ack4 verdict_ack6

section \<open>The requests of the tests\<close>

text \<open>The number the initial sequence number of a TCP request is drawn from.\<close>

definition drawn_seq :: "'w fixture \<Rightarrow> nat" where
  "drawn_seq fx = (let os = fx_os fx; w = snd (sys_uninit16 os (fx_world fx)); w' = snd (sys_rand os w)
     in fst (sys_rand os w') mod 65001)"

lemma requests:
  "family d = family s \<Longrightarrow> \<exists>h. fst (CreateIcmp4Packet os s d w) = Inr (IcmpPacket s d h)"
  "family d = family s \<Longrightarrow> \<exists>h. fst (CreateIcmp6Packet os s d w) = Inr (IcmpPacket s d h)"
  "family d = family s \<Longrightarrow> \<exists>h. fst (UdpPacket_ctor os s d port w) = Inr (UdpPacket s d h)"
  using icmp_checksum_value udp_checksum_value
  by (auto simp: ctor_defs io_simps Packet_ctor_def Let_def split: sum.splits prod.splits)

lemma tcp_request:
  "family d = family s \<Longrightarrow> \<exists>h. fst (TcpPacket_ctor (fx_os fx) s d port (fx_world fx)) = Inr (TcpPacket s d h)
     \<and> tcp_seq h = htonl (of_nat (drawn_seq fx))"
  using tcp_checksum_value
  by (auto simp: ctor_defs io_simps Packet_ctor_def Let_def drawn_seq_def split: sum.splits prod.splits)

section \<open>The tests pass\<close>

definition failing :: "(string \<times> bool) list \<Rightarrow> string list" where
  "failing tests = map fst (filter (\<lambda>(name, passed). \<not> passed) tests)"

text \<open>
  The C library reads the addresses, the structs have their sizes, and the indeterminate port of the
  answering TCP header does not begin like an IPv4 header.
\<close>

definition fixture_ok :: "'w fixture \<Rightarrow> bool" where
  "fixture_ok fx \<longleftrightarrow> reads_literals (sys_resolver (fx_os fx))
     \<and> list_all (\<lambda>u. length (un_padding u) = 12 \<and> length (un_ip6 u) = sizeof_Ipv6Header) [fx_outer fx, fx_quoted fx]
     \<and> port_nibble (un_tcp (fx_outer fx)) \<noteq> 4"

lemma fixture_okD:
  assumes "fixture_ok fx"
  shows "reads_literals (sys_resolver (fx_os fx))"
    "length (un_padding (fx_outer fx)) = 12" "length (un_padding (fx_quoted fx)) = 12"
    "length (un_ip6 (fx_outer fx)) = 40" "length (un_ip6 (fx_quoted fx)) = 40"
    "port_nibble (un_tcp (fx_outer fx)\<lparr>tcp_ack_seq := n\<rparr>) \<noteq> 4"
  using assms by (simp_all add: fixture_ok_def port_nibble_def)

lemmas test_run = failing_def expect_def with_request_def addresses verdicts customIhl_ok set_ip6_version_ok
  icmp_bytes_def tcp_bytes_def field_defs

abbreviation (input) "src4 fx \<equiv> addr4 fx 0x01010101"
abbreviation (input) "dst4 fx \<equiv> addr4 fx 0x02020202"
abbreviation (input) "src6 fx \<equiv> addr6 fx (0xBB00AA00, 0, 0, 0x01000000)"
abbreviation (input) "dst6 fx \<equiv> addr6 fx (0xCC00BB00, 0, 0, 0x02000000)"

lemma failing_icmp:
  assumes "fixture_ok fx"
  shows "failing (EchoReplyV4_tests fx) = []" "failing (EchoReplyV6_tests fx) = []"
    "failing (TimeExceededV4_tests fx) = []" "failing (TimeExceededV6_tests fx) = []"
proof -
  obtain h where h: "fst (CreateIcmp4Packet (fx_os fx) (src4 fx) (dst4 fx) (fx_world fx))
      = Inr (IcmpPacket (src4 fx) (dst4 fx) h)"
    using requests(1) [of "dst4 fx" "src4 fx"] by fastforce
  obtain k where k: "fst (CreateIcmp6Packet (fx_os fx) (src6 fx) (dst6 fx) (fx_world fx))
      = Inr (IcmpPacket (src6 fx) (dst6 fx) k)"
    using requests(2) [of "dst6 fx" "src6 fx"] by fastforce
  note fx = fixture_okD [OF assms]
  show "failing (EchoReplyV4_tests fx) = []"
    using fx by (simp add: EchoReplyV4_tests_def IcmpEchoReplyV4_def EchoReplyV4CustomIhl_def test_run h)
  show "failing (EchoReplyV6_tests fx) = []"
    using fx by (simp add: EchoReplyV6_tests_def IcmpEchoReplyV6_def test_run k)
  show "failing (TimeExceededV4_tests fx) = []"
    using fx by (simp add: TimeExceededV4_tests_def IcmpTimeExceededV4_def IcmpTimeExceededV4CustomIhl_def
        test_run h)
  show "failing (TimeExceededV6_tests fx) = []"
    using fx by (simp add: TimeExceededV6_tests_def IcmpTimeExceededV6_def test_run k)
qed

lemma failing_udp:
  assumes "fixture_ok fx"
  shows "failing (UdpDestUnreachV4_tests fx) = []" "failing (UdpDestUnreachV6_tests fx) = []"
    "failing (UdpTimeExceededV4_tests fx) = []" "failing (UdpTimeExceededV6_tests fx) = []"
proof -
  have h: "\<exists>h. fst (UdpPacket_ctor (fx_os fx) (src4 fx) (dst4 fx) port (fx_world fx))
      = Inr (UdpPacket (src4 fx) (dst4 fx) h)" for port
    using requests(3) [of "dst4 fx" "src4 fx"] by fastforce
  have k: "\<exists>h. fst (UdpPacket_ctor (fx_os fx) (src6 fx) (dst6 fx) port (fx_world fx))
      = Inr (UdpPacket (src6 fx) (dst6 fx) h)" for port
    using requests(3) [of "dst6 fx" "src6 fx"] by fastforce
  note fx = fixture_okD [OF assms]
  show "failing (UdpDestUnreachV4_tests fx) = []"
    using fx h [of 2223]
    by (auto simp: UdpDestUnreachV4_tests_def UdpDestUnreachV4_def UdpDestUnreachV4CustomIhl_def test_run)
  show "failing (UdpDestUnreachV6_tests fx) = []"
    using fx k [of 1234] by (auto simp: UdpDestUnreachV6_tests_def UdpDestUnreachV6_def test_run)
  show "failing (UdpTimeExceededV4_tests fx) = []"
    using fx h [of 80]
    by (auto simp: UdpTimeExceededV4_tests_def UdpTimeExceededV4_def UdpTimeExceededV4CustomIhl_def test_run)
  show "failing (UdpTimeExceededV6_tests fx) = []"
    using fx k [of 80] by (auto simp: UdpTimeExceededV6_tests_def UdpTimeExceededV6_def test_run)
qed

lemma no_wrap: "(0 :: u32) \<noteq> of_nat (drawn_seq fx) + 1" "(of_nat (drawn_seq fx) :: u32) + 1 \<noteq> 0"
proof -
  have "unat (of_nat (drawn_seq fx) :: u32) < 65001"
    by (simp add: drawn_seq_def Let_def initial_seq)
  then have "(of_nat (drawn_seq fx) :: u32) \<noteq> - 1"
    by (auto simp: unsigned_minus_1_eq_mask mask_eq_exp_minus_1)
  then show "(of_nat (drawn_seq fx) :: u32) + 1 \<noteq> 0" by (simp add: add_eq_0_iff2)
  then show "(0 :: u32) \<noteq> of_nat (drawn_seq fx) + 1" by metis
qed

lemma seq_zero: "0 = htonl (of_nat (drawn_seq fx)) \<longleftrightarrow> drawn_seq fx = 0"
proof -
  have "unat (of_nat (drawn_seq fx) :: u32) = drawn_seq fx"
    by (simp add: drawn_seq_def Let_def initial_seq)
  then have "(of_nat (drawn_seq fx) :: u32) = 0 \<longleftrightarrow> drawn_seq fx = 0" by (simp add: word_unat_eq_iff)
  moreover have "htonl 0 = 0" by code_simp
  ultimately show ?thesis by (metis htonl_htonl)
qed

lemma failing_tcp:
  assumes "fixture_ok fx"
  shows "failing (TcpAckV4_tests fx) = []"
    "failing (TcpAckV6_tests fx) = (if port_nibble (un_tcp (fx_outer fx)) = 6
       then [''TcpAckV6.valid'', ''TcpAckV6.invalidAckSeq''] else [])"
    "failing (TcpDestUnreachV4_tests fx) = []"
    "failing (TcpDestUnreachV6_tests fx) = (if drawn_seq fx = 0 then [''TcpDestUnreachV6.invalidSeq''] else [])"
    "failing (TcpTimeExceededV4_tests fx) = []" "failing (TcpTimeExceededV6_tests fx) = []"
proof -
  obtain h where h: "fst (TcpPacket_ctor (fx_os fx) (src4 fx) (dst4 fx) 80 (fx_world fx))
      = Inr (TcpPacket (src4 fx) (dst4 fx) h)" "tcp_seq h = htonl (of_nat (drawn_seq fx))"
    using tcp_request [of "dst4 fx" "src4 fx" fx 80] by auto
  obtain k where k: "fst (TcpPacket_ctor (fx_os fx) (src6 fx) (dst6 fx) 80 (fx_world fx))
      = Inr (TcpPacket (src6 fx) (dst6 fx) k)" "tcp_seq k = htonl (of_nat (drawn_seq fx))"
    using tcp_request [of "dst6 fx" "src6 fx" fx 80] by auto
  have z: "ntohl 0 = 0" by code_simp
  note fx = fixture_okD [OF assms]
  show "failing (TcpAckV4_tests fx) = []"
    using fx by (simp add: TcpAckV4_tests_def TcpAckV4_def TcpAckV4CustomIhl_def getValidReponseAckSeq_def
        test_run h z no_wrap)
  have port: "port_nibble (un_tcp (fx_outer fx)\<lparr>tcp_ack_seq := n\<rparr>) = port_nibble (un_tcp (fx_outer fx))" for n
    by (simp add: port_nibble_def)
  show "failing (TcpAckV6_tests fx) = (if port_nibble (un_tcp (fx_outer fx)) = 6
      then [''TcpAckV6.valid'', ''TcpAckV6.invalidAckSeq''] else [])"
    using fx by (simp add: TcpAckV6_tests_def TcpAckV6_def getValidReponseAckSeq_def test_run k z no_wrap port)
  show "failing (TcpDestUnreachV4_tests fx) = []"
    using fx by (simp add: TcpDestUnreachV4_tests_def TcpDestUnreachV4_def TcpDestUnreachV4CustomIhl_def
        test_run h)
  show "failing (TcpDestUnreachV6_tests fx) = (if drawn_seq fx = 0 then [''TcpDestUnreachV6.invalidSeq''] else [])"
    using fx by (simp add: TcpDestUnreachV6_tests_def TcpDestUnreachV6_def test_run k seq_zero)
  show "failing (TcpTimeExceededV4_tests fx) = []"
    using fx by (simp add: TcpTimeExceededV4_tests_def TcpTimeExceededV4_def TcpTimeExceededV4CustomIhl_def
        test_run h)
  show "failing (TcpTimeExceededV6_tests fx) = []"
    using fx by (simp add: TcpTimeExceededV6_tests_def TcpTimeExceededV6_def test_run k)
qed

lemma failing_addresses:
  assumes "fixture_ok fx"
  shows "failing (SocketAddress_tests fx) = []"
  using fixture_okD(1) [OF assms] by (simp add: SocketAddress_tests_def test_address_def test_run)

section \<open>The whole suite\<close>

definition validator_tests :: "'w fixture \<Rightarrow> (string \<times> bool) list" where
  "validator_tests fx =
     concat [EchoReplyV4_tests fx, EchoReplyV6_tests fx, TimeExceededV4_tests fx, TimeExceededV6_tests fx,
       UdpDestUnreachV4_tests fx, UdpDestUnreachV6_tests fx, UdpTimeExceededV4_tests fx,
       UdpTimeExceededV6_tests fx, TcpAckV4_tests fx, TcpAckV6_tests fx, TcpDestUnreachV4_tests fx,
       TcpDestUnreachV6_tests fx, TcpTimeExceededV4_tests fx, TcpTimeExceededV6_tests fx, SocketAddress_tests fx]"

lemma failing_append: "failing (xs @ ys) = failing xs @ failing ys" "failing [] = []"
  by (simp_all add: failing_def)

text \<open>
  C27. The unit tests of the validators and of the addresses pass whatever the random numbers are and
  whatever the bytes hold that they leave indeterminate, but for three. \<open>TcpDestUnreachV6.invalidSeq\<close>
  fails when the sequence number drawn for the request is 0, the wrong number it uses. Two tests of
  \<open>TcpAckV6\<close> fail, and read behind their response, when the port of the answer, which they do not assign,
  begins with 6. (Such a port must not begin with 4: then the outcome depends on the byte behind it.)
\<close>

theorem validator_unit_tests:
  assumes "fixture_ok fx"
  shows "failing (validator_tests fx)
    = (if port_nibble (un_tcp (fx_outer fx)) = 6 then [''TcpAckV6.valid'', ''TcpAckV6.invalidAckSeq''] else [])
      @ (if drawn_seq fx = 0 then [''TcpDestUnreachV6.invalidSeq''] else [])"
  using assms
  by (simp add: validator_tests_def failing_append failing_icmp failing_udp failing_tcp failing_addresses)

text \<open>A library that knows the addresses of the tests, and two fixtures with it.\<close>

definition literal_resolver :: resolver where
  "literal_resolver = scripted_resolver
     \<lparr>getaddrinfo := (\<lambda>s. if map_of v4_literals s \<noteq> None then (0, AF_INET)
        else if map_of v6_literals s \<noteq> None then (0, AF_INET6) else (- 2, 0)),
      inet_pton4 := (\<lambda>s. case map_of v4_literals s of Some x \<Rightarrow> (1, x) | None \<Rightarrow> (0, 0)),
      inet_pton6 := (\<lambda>s. case map_of v6_literals s of Some x \<Rightarrow> (1, x) | None \<Rightarrow> (0, (0, 0, 0, 0)))\<rparr>"

definition leftover :: "u16 \<Rightarrow> uninit" where
  "leftover port = \<lparr>un_ip4 = sample_ip4, un_padding = replicate 12 0xAB, un_ip6 = replicate 40 0xCD,
     un_icmp = sample_icmp 42 1, un_tcp = sample_tcp port 1 2, un_udp = sample_udp\<rparr>"

definition sample_fixture :: "nat \<Rightarrow> u16 \<Rightarrow> world fixture" where
  "sample_fixture n port =
     \<lparr>fx_os = scripted\<lparr>sys_rand := (\<lambda>w. (n, w)), sys_resolver := literal_resolver\<rparr>,
      fx_world = start_world [], fx_storage = nobody, fx_outer = leftover port, fx_quoted = leftover port\<rparr>"

lemma sample_fixture_ok: "fixture_ok (sample_fixture n 80)" "fixture_ok (sample_fixture n 0x6000)"
proof -
  have "reads_literals literal_resolver"
    by (simp add: reads_literals_def literal_resolver_def v4_literals_def v6_literals_def)
  then show "fixture_ok (sample_fixture n 80)" "fixture_ok (sample_fixture n 0x6000)"
    by (simp_all add: fixture_ok_def sample_fixture_def leftover_def)
qed

theorem validator_unit_tests_witness:
  "failing (validator_tests (sample_fixture 7 80)) = []
   \<and> failing (validator_tests (sample_fixture 0 80)) = [''TcpDestUnreachV6.invalidSeq'']
   \<and> failing (validator_tests (sample_fixture 7 0x6000)) = [''TcpAckV6.valid'', ''TcpAckV6.invalidAckSeq'']"
  using validator_unit_tests [OF sample_fixture_ok(1) [of 7]] validator_unit_tests [OF sample_fixture_ok(1) [of 0]]
    validator_unit_tests [OF sample_fixture_ok(2) [of 7]]
  by (simp add: drawn_seq_def sample_fixture_def leftover_def)

end
