(* ===== verification/Spec2Isabelle.thy ===== *)
theory Spec2Isabelle
  imports PacketClaims SocketClaims Verdicts SequentialClaims WireClaims FastClaims ObjectClaims FineClaims
    InterfaceClaims AttributionClaims UnitTests ValidatorTests
begin

text \<open>
  \<^bold>\<open>A verification of the traceroute library\<close>

  The library sends probes (ICMP echo requests, TCP SYN segments, UDP datagrams) with increasing time
  to live and reports which hosts answered. A tracer (\<open>src/SequentialTraceroute.cpp\<close>,
  \<open>src/FastTraceroute.cpp\<close>) asks a packet factory for a probe, gives it to a data sender together with
  a TTL, receives datagrams from the data sender into a buffer of 4096 bytes and asks the probe itself,
  through a response validator, whether a datagram answers it. It stops at the destination. The data
  sender (\<open>src/DataSender.cpp\<close>) owns the raw sockets a socket provider has set up and waits on them
  with \<open>poll\<close>.

  \<^bold>\<open>Theories and code\<close>

  \<^item> \<open>Prelude\<close>: words, object memory, exceptions as a sum type, the input/output monad (state passing
    that may throw), the monad of loops that may not end, byte order, decimal text.
  \<^item> \<open>Headers\<close>: \<open>HeaderTypes.hpp\<close> and \<open>utils/Serialize.hpp\<close>; the locale \<open>pod\<close> is the contract of
    serialization, interpreted for each header.
  \<^item> \<open>SockAddr\<close>: \<open>SocketAddress.cpp\<close>. \<open>Checksum\<close>: \<open>utils/ChecksumCalculator.cpp\<close> and its reference,
    RFC 1071. \<open>Packets\<close>: \<open>Packet.cpp\<close>, \<open>Packet/\<close>, \<open>PacketFactory/\<close>; a subclass is a constructor of
    the datatype, a virtual function a definition that dispatches to one definition per subclass. The
    locale \<open>packet_source\<close> is the interface \<open>IPacketFactory\<close>, interpreted by the factories.
  \<^item> \<open>Host\<close>: the system calls, a parameter of the model (a record of functions on the state of the
    outside world).
  \<^item> \<open>Validators\<close>: \<open>ResponseInfo.cpp\<close> and \<open>ResponseValidators/\<close>; a validator is the record of the
    methods it overrides. The locale \<open>response_validator\<close> is the contract between the template method
    and its subclasses, \<open>validates_response\<close> the interface \<open>IValidateResponse\<close> it implements; the four
    subclasses and the packets interpret them. \<open>Responses\<close>: what the validators say of the datagrams
    the network sends, for each version of IP.
  \<^item> \<open>Sockets\<close>: \<open>utils/Poll.cpp\<close>, \<open>utils/Bind.cpp\<close>, \<open>utils/CreateSocket.cpp\<close>, \<open>SocketProviders/\<close>,
    \<open>ResolveSourceAddress.cpp\<close>. \<open>Sender\<close>: \<open>DataSender.cpp\<close>; the locale \<open>data_sender\<close> is the
    interface \<open>IDataSender\<close>, interpreted by the sender.
  \<^item> \<open>Tracer\<close>: \<open>Traceroute.cpp\<close>, \<open>SystemClock.cpp\<close> and \<open>Probe.cpp\<close>; the locale \<open>tracer_ports\<close> puts
    the contracts of the factory and of the sender together, and the library's own objects interpret it.
    \<open>Doubles\<close>: the floating-point numbers \<open>Probe.cpp\<close> divides and prints, with their rounding. \<open>Texts\<close> reads
    the text of a result back.
  \<^item> \<open>Sequential\<close>: \<open>SequentialTraceroute.cpp\<close>. \<open>await_response\<close> and \<open>ttl_loop\<close> are partial functions:
    \<open>None\<close> is a call that does not return. \<open>await_induct\<close> and \<open>ttl_induct\<close> are the rules by which
    their properties are proved. \<open>Listening\<close>: the waiting loop as an abstract account of receives.
  \<^item> \<open>Fast\<close>: \<open>FastTraceroute.cpp\<close>. The state of a run is a record; \<open>sender_step\<close> and
    \<open>receiver_step\<close> are the steps of the two threads and \<open>fast_step\<close> interleaves them. \<open>FastRuns\<close> has
    the invariant, by rule induction on reachability, and the refinement of the critical section;
    \<open>FastEnds\<close> has completeness, the bound on the steps and memory safety; \<open>FastProgress\<close> shows that
    no probe outlives its timeout unnoticed and what a run that ends in time returns. \<open>FastObject\<close> is
    the object over its life: constructor, calls in a row, and the probes a call leaves to the next.
  \<^item> \<open>Syscalls\<close>: an operation run on the answers its system calls have got so far, which then asks for
    the next call or returns. \<open>FastFine\<close>: the two threads of the fast tracer interleaved at every system
    call, with the mutex; \<open>fine_step\<close> takes the lock, performs a call or completes a step of \<open>Fast\<close>.
    \<open>FineCalls\<close> bounds the calls an operation makes, \<open>FineEnds\<close> shows by two measures that these runs end,
    \<open>FineProgress\<close> when they are complete.
  \<^item> \<open>Attribution\<close>: the identifier a probe carries, which router quotes which probe, and the first waiting
    probe an answer is accepted for.
  \<^item> \<open>TracerObjects\<close>: the interface \<open>ITraceroute\<close> and its two classes as objects that are called any
    number of times; the locale \<open>traceroute\<close> is the contract, interpreted by each class and by both
    behind the interface.
  \<^item> \<open>Projection\<close>: a tracer on a world that is observed more closely runs like the tracer itself, for
    both tracers. \<open>Wire\<close>: a system that keeps a record of options and datagrams; the locale
    \<open>departures_of\<close> follows an account of the probes that depart through both tracers and is
    interpreted by the library's objects on the recording system; \<open>FineWire\<close> does so for the runs with
    single system calls.
  \<^item> \<open>Scenario\<close> is a scripted system; \<open>PacketClaims\<close>, \<open>SocketClaims\<close>, \<open>Verdicts\<close>,
    \<open>SequentialClaims\<close>, \<open>WireClaims\<close>, \<open>FastClaims\<close>, \<open>ObjectClaims\<close>, \<open>FineClaims\<close>, \<open>AttributionClaims\<close>
    and \<open>InterfaceClaims\<close> hold the properties, each applied to a concrete input. \<open>UnitTests\<close> runs the tests
    of the two tracers (\<open>tests/UnitTests/TracerouteTests\<close>) on the model, with their mocks;
    \<open>ValidatorTests\<close> has those of the validators and addresses (\<open>ResponseValidatorsTests\<close>,
    \<open>SocketAddressTests.cpp\<close>), their structs as records and each test as a named expectation.

  \<^bold>\<open>What the lemmas show\<close>

  The sequential tracer returns consecutive TTLs with exactly the retries asked for, up to the
  destination or the last TTL, and has sent exactly the probes it reports, each with its TTL
  (C1, C3); it misses no acceptable answer that arrives in time (C15, C16). The fast tracer, interleaved
  at every system call, returns ascending TTLs of its range and sends every probe of the range in order,
  each with its own hop limit; its threads exclude each other, lose no probe and count none twice, do
  not deadlock, and end (C2, C4, C5, C6). One that no earlier call has left probes in is complete when it
  ends before its time is over or has the expected number of results (C9, C10); a used one adds the
  probes of earlier calls to its results (C11). A router's answer to a TCP or ICMP probe is reported for
  exactly the probe it quotes (C12), one to a UDP probe for whichever waits longest (C34). The coarser
  interleavings of \<open>Fast\<close> are among these runs (\<open>fine_covers\<close>); for them the number of steps is bounded,
  and the critical section settles the list as it should (C13, C14). Behind the interface both tracers
  keep one contract over any number of calls, and a call returns whenever the clock advances and the last
  TTL is not the largest \<open>unsigned\<close> (C7, C8, C38). The validators stay inside the buffer and accept
  exactly the answers they are meant to (C17 to C22), the checksums are those of RFC 1071 (C23), and the
  packets, senders, filters, texts and addresses are as their interfaces and readers need them (C24, C26,
  C28, C29, C31 to C33). The tests of the validators and addresses pass, but for three that depend on what
  they leave to chance (C27); that of the fast tracer passes or fails with the schedule, for every
  schedule (C35); those of the sequential tracer pass (\<open>sequential_unit_tests\<close>). C25, C30, C33, C34 and C36
  to C40 state where the code does not do what it means to; so do the lemmas \<open>early_answer_lost\<close> (an
  answer handled between sending a probe and registering it is discarded), \<open>long_times_collide\<close> and
  \<open>misread_port_v6\<close>.

  \<^bold>\<open>Bounds, and what is not modelled\<close>

  Words are kept at their width (sizes as 64-bit words, TTLs and counts as 32-bit words, with
  wrap-around); times are unbounded integers, except where the code multiplies them as unsigned
  64-bit counts (\<open>expectedMaxTimeTaken\<close>). The host is little-endian. No fuel is used: the loop that
  folds a checksum has a termination proof, and so have the tracers under the assumption on the clock
  (\<open>ticking\<close>, derived from \<open>steady_os\<close>); the validators read at most 136 bytes behind the start of the
  buffer, 60 for an outer IP header and 76 for what they look at behind it.
  The steps of \<open>Fast\<close> are calls of a collaborator and critical sections. The results, the books, mutual
  exclusion, memory safety, the datagrams on the wire, termination and completeness in time are shown
  with the threads interleaved at every system call; the explicit bound on the number of steps
  (\<open>FastEnds\<close>), the lost exception and the short timeout are about the runs of \<open>Fast\<close>. After an
  exception the contents of the receive buffer are not followed. In the tests the indeterminate bytes of
  structs and the random numbers are arguments. Where the tests of the tracers tell a mocked packet to
  accept, the model has a UDP probe and a datagram that quotes it. The build files and the compiler probes
  CMake has generated under \<open>build/\<close> are not modelled. A \<open>double\<close> is rounded to the
  nearest, ties to even, and printed from its exact value; no exponent is out of range here. System calls, the resolver
  and the contents of uninitialised objects are parameters.
\<close>

end
